(* ===== verification/Prelude.thy ===== *)
theory Prelude
  imports Complex_Main "HOL-Library.Word" "HOL-Library.Multiset" "HOL-Library.Sublist"
begin

text \<open>
  What every theory of the development shares: the machine integers of the C++ code, results
  with exceptions, the pieces of \<^verbatim>\<open>std::string_view\<close> and \<^verbatim>\<open>std::from_chars\<close> the sources
  use, the grouping of a vector by key in first-occurrence order
  (\<^verbatim>\<open>unordered_map::try_emplace\<close> plus an order vector), and generic lemmas about lists and
  sorting.
\<close>

unbundle bit_operations_syntax

named_theorems group_simps \<open>facts about grouping by key\<close>
named_theorems text_simps \<open>facts about scanning and printing text\<close>

subsection \<open>Machine integers, bytes, exceptions\<close>

type_synonym u8 = "8 word"
type_synonym u16 = "16 word"
type_synonym u32 = "32 word"
type_synonym u64 = "64 word"
type_synonym bytes = "8 word list"

text \<open>
  A function that may throw returns \<open>Inl what\<close> for a \<^verbatim>\<open>std::exception\<close> with message
  \<open>what\<close>, and \<open>Inr v\<close> when it returns \<open>v\<close>.
\<close>

type_synonym 'a result = "string + 'a"

definition byte_of_char :: "char \<Rightarrow> u8" where
  "byte_of_char c = of_nat (of_char c)"

definition char_of_byte :: "u8 \<Rightarrow> char" where
  "char_of_byte b = char_of (unat b)"

lemma of_char_nat_less [simp]: "(of_char c :: nat) < 256"
proof -
  have "(of_char c :: nat) = of_char c mod 256"
    using of_char_of [where ?'a = nat, of "of_char c"] by simp
  then show ?thesis
    using mod_less_divisor [of 256 "of_char c :: nat"] by linarith
qed

lemma char_of_byte_of_char [simp]: "char_of_byte (byte_of_char c) = c"
  by (simp add: char_of_byte_def byte_of_char_def unat_of_nat)

lemma byte_of_char_of_byte [simp]: "byte_of_char (char_of_byte b) = b"
proof -
  have "unat b < 256" using unsigned_less [of b] by simp
  then show ?thesis by (simp add: char_of_byte_def byte_of_char_def)
qed

definition bytes_of_string :: "string \<Rightarrow> bytes" where
  "bytes_of_string s = map byte_of_char s"

definition string_of_bytes :: "bytes \<Rightarrow> string" where
  "string_of_bytes bs = map char_of_byte bs"

lemma string_of_bytes_of_string [simp]: "string_of_bytes (bytes_of_string s) = s"
  by (simp add: string_of_bytes_def bytes_of_string_def comp_def)

lemma bytes_of_string_of_bytes [simp]: "bytes_of_string (string_of_bytes b) = b"
  by (simp add: string_of_bytes_def bytes_of_string_def comp_def)

subsection \<open>Searching a string view\<close>

text \<open>\<^verbatim>\<open>find(c)\<close>: the index of the first \<open>c\<close>, or \<^verbatim>\<open>npos\<close>.\<close>

fun find_char :: "char \<Rightarrow> string \<Rightarrow> nat option" where
  "find_char c [] = None"
| "find_char c (x # xs) = (if x = c then Some 0 else map_option Suc (find_char c xs))"

text \<open>\<^verbatim>\<open>find(sub)\<close>: the index of the first occurrence of a substring.\<close>

fun find_sub :: "string \<Rightarrow> string \<Rightarrow> nat option" where
  "find_sub p [] = (if p = [] then Some 0 else None)"
| "find_sub p (x # xs) =
     (if prefix p (x # xs) then Some 0 else map_option Suc (find_sub p xs))"

lemma find_char_None [text_simps]: "find_char c s = None \<longleftrightarrow> c \<notin> set s"
  by (induction s) auto

lemma find_char_append [text_simps]: "c \<notin> set s \<Longrightarrow> find_char c (s @ c # t) = Some (length s)"
  by (induction s) auto

lemma find_char_SomeD:
  "find_char c s = Some n \<Longrightarrow> n < length s \<and> s ! n = c \<and> c \<notin> set (take n s)"
  by (induction s arbitrary: n) (auto split: if_splits)

lemma find_char_Some_split:
  assumes "find_char c s = Some n"
  shows "s = take n s @ c # drop (Suc n) s"
  using find_char_SomeD [OF assms] by (metis id_take_nth_drop)

lemma find_sub_None: "find_sub p s = None \<longleftrightarrow> (\<forall>u v. s \<noteq> u @ p @ v)"
proof (induction s)
  case Nil
  then show ?case by auto
next
  case (Cons x xs)
  show ?case
  proof
    assume "find_sub p (x # xs) = None"
    then have np: "\<not> prefix p (x # xs)" and "find_sub p xs = None"
      by (auto split: if_splits)
    with Cons.IH have "\<forall>u v. xs \<noteq> u @ p @ v" by simp
    with np show "\<forall>u v. x # xs \<noteq> u @ p @ v"
      by (metis append_eq_Cons_conv append_self_conv2 prefixI)
  next
    assume a: "\<forall>u v. x # xs \<noteq> u @ p @ v"
    then have "\<not> prefix p (x # xs)"
      by (metis append_self_conv2 prefixE)
    moreover have "\<forall>u v. xs \<noteq> u @ p @ v"
      using a by (metis append_Cons)
    ultimately show "find_sub p (x # xs) = None"
      using Cons.IH by simp
  qed
qed

text \<open>
  \<open>splits_at p s u\<close>: the first occurrence of \<open>p\<close> in \<open>u @ p @ v\<close> is the one after \<open>u\<close>.
  It is enough that the first character of \<open>p\<close> does not occur in \<open>u\<close>.
\<close>

lemma find_sub_append [text_simps]:
  assumes "c \<notin> set u"
  shows "find_sub (c # p) (u @ (c # p) @ v) = Some (length u)"
  using assms by (induction u) auto

subsection \<open>Decimal numbers: std::to_string and std::from_chars\<close>

definition digit_char :: "nat \<Rightarrow> char" where
  "digit_char d = char_of (48 + d)"

definition is_digit :: "char \<Rightarrow> bool" where
  "is_digit c \<longleftrightarrow> 48 \<le> (of_char c :: nat) \<and> (of_char c :: nat) \<le> 57"

definition digit_val :: "char \<Rightarrow> nat" where
  "digit_val c = of_char c - 48"

text \<open>\<^verbatim>\<open>std::to_string\<close> of an unsigned number.\<close>

fun nat_to_string :: "nat \<Rightarrow> string" where
  "nat_to_string n =
     (if n < 10 then [digit_char n] else nat_to_string (n div 10) @ [digit_char (n mod 10)])"

declare nat_to_string.simps [simp del]

definition int_to_string :: "int \<Rightarrow> string" where
  "int_to_string i = (if i < 0 then CHR ''-'' # nat_to_string (nat (- i)) else nat_to_string (nat i))"

abbreviation u64_to_string :: "u64 \<Rightarrow> string" where
  "u64_to_string w \<equiv> nat_to_string (unat w)"

definition digits_val :: "string \<Rightarrow> nat" where
  "digits_val s = foldl (\<lambda>a c. 10 * a + digit_val c) 0 s"

lemma is_digit_digit_char [simp]: "d < 10 \<Longrightarrow> is_digit (digit_char d)"
  by (simp add: is_digit_def digit_char_def)

lemma digit_val_digit_char [simp]: "d < 10 \<Longrightarrow> digit_val (digit_char d) = d"
  by (simp add: digit_val_def digit_char_def)

lemma digits_val_snoc [simp]: "digits_val (s @ [c]) = 10 * digits_val s + digit_val c"
  by (simp add: digits_val_def)

lemma nat_to_string_digits [text_simps]: "list_all is_digit (nat_to_string n)"
proof (induction n rule: nat_to_string.induct)
  case (1 n)
  then show ?case
    by (cases "n < 10") (simp_all add: nat_to_string.simps [of n])
qed

lemma nat_to_string_nonempty [simp]: "nat_to_string n \<noteq> []"
  by (simp add: nat_to_string.simps [of n])

lemma digits_val_nat_to_string [text_simps]: "digits_val (nat_to_string n) = n"
proof (induction n rule: nat_to_string.induct)
  case (1 n)
  then show ?case
    by (cases "n < 10") (simp_all add: nat_to_string.simps [of n] digits_val_def)
qed

lemma nat_to_string_inj [simp]: "nat_to_string m = nat_to_string n \<longleftrightarrow> m = n"
  by (metis digits_val_nat_to_string)

lemma not_digit_separators [simp]:
  "\<not> is_digit (CHR '':'')" "\<not> is_digit (CHR 0x09)" "\<not> is_digit (CHR 0x0A)" "\<not> is_digit (CHR '','')"
  "\<not> is_digit (CHR ''-'')" "\<not> is_digit (CHR '' '')" "\<not> is_digit (CHR ''v'')" "\<not> is_digit (CHR ''_'')"
  by (simp_all add: is_digit_def)

lemma nat_to_string_notin [text_simps]: "\<not> is_digit c \<Longrightarrow> c \<notin> set (nat_to_string n)"
  using nat_to_string_digits [of n] by (auto simp: list_all_iff)

lemma int_to_string_notin [text_simps]:
  "\<not> is_digit c \<Longrightarrow> c \<noteq> CHR ''-'' \<Longrightarrow> c \<notin> set (int_to_string i)"
  by (auto simp: int_to_string_def nat_to_string_notin)

lemma takeWhile_digits [text_simps]:
  assumes "t = [] \<or> \<not> is_digit (hd t)"
  shows "takeWhile is_digit (nat_to_string n @ t) = nat_to_string n"
    and "dropWhile is_digit (nat_to_string n @ t) = t"
  using assms nat_to_string_digits [of n]
  by (cases t; simp add: takeWhile_append2 dropWhile_append2 list_all_iff)+

text \<open>
  \<^verbatim>\<open>std::from_chars\<close> into an unsigned type of the given bound: the longest prefix of digits.
  Without a digit the error is \<^verbatim>\<open>invalid_argument\<close> and the cursor stays; a value out of range
  is \<^verbatim>\<open>result_out_of_range\<close> with the cursor after the digits. In both cases the output
  variable keeps its value.
\<close>

datatype 'a from_chars = Parsed 'a string | OutOfRange string | InvalidArgument

definition from_chars_nat :: "nat \<Rightarrow> string \<Rightarrow> nat from_chars" where
  "from_chars_nat bound s =
     (let ds = takeWhile is_digit s; rest = dropWhile is_digit s
      in if ds = [] then InvalidArgument
         else if digits_val ds < bound then Parsed (digits_val ds) rest
         else OutOfRange rest)"

definition from_chars_u64 :: "string \<Rightarrow> u64 from_chars" where
  "from_chars_u64 s =
     (case from_chars_nat (2 ^ 64) s of
        Parsed n r \<Rightarrow> Parsed (of_nat n) r | OutOfRange r \<Rightarrow> OutOfRange r
      | InvalidArgument \<Rightarrow> InvalidArgument)"

text \<open>\<^verbatim>\<open>std::from_chars\<close> into a 32-bit \<^verbatim>\<open>int\<close>: an optional minus sign, then digits.\<close>

definition from_chars_int :: "string \<Rightarrow> int from_chars" where
  "from_chars_int s =
     (let neg = (s \<noteq> [] \<and> hd s = CHR ''-'');
          body = (if neg then tl s else s);
          ds = takeWhile is_digit body; rest = dropWhile is_digit body;
          v = (if neg then - int (digits_val ds) else int (digits_val ds))
      in if ds = [] then InvalidArgument
         else if - (2 ^ 31) \<le> v \<and> v < 2 ^ 31 then Parsed v rest
         else OutOfRange rest)"

lemma from_chars_nat_print [text_simps]:
  assumes "n < bound" "t = [] \<or> \<not> is_digit (hd t)"
  shows "from_chars_nat bound (nat_to_string n @ t) = Parsed n t"
  using assms by (simp add: from_chars_nat_def Let_def text_simps)

lemma from_chars_u64_print [text_simps]:
  assumes "t = [] \<or> \<not> is_digit (hd t)"
  shows "from_chars_u64 (u64_to_string w @ t) = Parsed w t"
proof -
  have "unat w < 2 ^ 64" using unsigned_less [of w] by simp
  then show ?thesis using assms by (simp add: from_chars_u64_def from_chars_nat_print)
qed

lemma nat_to_string_hd: "is_digit (hd (nat_to_string n))"
  using nat_to_string_digits [of n] by (cases "nat_to_string n") auto

lemma from_chars_int_print [text_simps]:
  assumes "- (2 ^ 31) \<le> i" "i < 2 ^ 31" "t = [] \<or> \<not> is_digit (hd t)"
  shows "from_chars_int (int_to_string i @ t) = Parsed i t"
proof -
  have h: "hd (nat_to_string n @ t) \<noteq> CHR ''-''" for n
    using nat_to_string_hd [of n] by (auto simp: hd_append)
  show ?thesis
    using assms h by (auto simp: from_chars_int_def int_to_string_def Let_def text_simps)
qed

subsection \<open>Grouping a vector by key, in first-occurrence order\<close>

text \<open>
  \<^verbatim>\<open>auto [it, inserted] = groups.try_emplace(k); if (inserted) order.push_back(k);
  it->second.push_back(x)\<close>, with the map and the order vector as one association list.
\<close>

fun push_group :: "'k \<Rightarrow> 'v \<Rightarrow> ('k \<times> 'v list) list \<Rightarrow> ('k \<times> 'v list) list" where
  "push_group k x [] = [(k, [x])]"
| "push_group k x ((k', xs) # gs) =
     (if k = k' then (k', xs @ [x]) # gs else (k', xs) # push_group k x gs)"

definition group_by :: "('v \<Rightarrow> 'k) \<Rightarrow> 'v list \<Rightarrow> ('k \<times> 'v list) list" where
  "group_by key xs = fold (\<lambda>x. push_group (key x) x) xs []"

definition all_grouped :: "('k \<times> 'v list) list \<Rightarrow> 'v multiset" where
  "all_grouped gs = mset (concat (map snd gs))"

lemma keys_push_group [group_simps]:
  "map fst (push_group k x gs) = (if k \<in> fst ` set gs then map fst gs else map fst gs @ [k])"
  by (induction k x gs rule: push_group.induct) auto

lemma set_keys_push_group [group_simps]: "fst ` set (push_group k x gs) = insert k (fst ` set gs)"
  by (induction k x gs rule: push_group.induct) auto

lemma distinct_push_group [group_simps]:
  "distinct (map fst gs) \<Longrightarrow> distinct (map fst (push_group k x gs))"
  by (simp add: keys_push_group)

lemma all_push_group [group_simps]: "all_grouped (push_group k x gs) = add_mset x (all_grouped gs)"
  by (induction k x gs rule: push_group.induct) (auto simp: all_grouped_def)

lemma map_of_push_group [group_simps]:
  "map_of (push_group k x gs) =
     (map_of gs)(k \<mapsto> (case map_of gs k of None \<Rightarrow> [x] | Some xs \<Rightarrow> xs @ [x]))"
  by (induction k x gs rule: push_group.induct) auto

lemma push_group_nonempty [group_simps]:
  "list_all (\<lambda>(k, xs). xs \<noteq> []) gs \<Longrightarrow> list_all (\<lambda>(k, xs). xs \<noteq> []) (push_group k x gs)"
  by (induction k x gs rule: push_group.induct) auto

text \<open>The fold behind \<open>group_by\<close>, from any association list.\<close>

lemma all_fold_push_group:
  "all_grouped (fold (\<lambda>x. push_group (key x) x) xs gs) = all_grouped gs + mset xs"
  by (induction xs arbitrary: gs) (auto simp: group_simps)

lemma distinct_fold_push_group:
  "distinct (map fst gs) \<Longrightarrow> distinct (map fst (fold (\<lambda>x. push_group (key x) x) xs gs))"
  by (induction xs arbitrary: gs) (auto simp: group_simps)

lemma nonempty_fold_push_group:
  "list_all (\<lambda>(k, xs). xs \<noteq> []) gs \<Longrightarrow>
   list_all (\<lambda>(k, xs). xs \<noteq> []) (fold (\<lambda>x. push_group (key x) x) xs gs)"
  by (induction xs arbitrary: gs) (auto simp: group_simps)

lemma map_of_fold_push_group:
  "map_of (fold (\<lambda>x. push_group (key x) x) xs gs) k =
     (case map_of gs k of
        None \<Rightarrow> (if filter (\<lambda>x. key x = k) xs = [] then None else Some (filter (\<lambda>x. key x = k) xs))
      | Some ys \<Rightarrow> Some (ys @ filter (\<lambda>x. key x = k) xs))"
  by (induction xs arbitrary: gs) (auto simp: group_simps split: option.splits)

lemma group_by_all [group_simps]: "all_grouped (group_by key xs) = mset xs"
  by (simp add: group_by_def all_fold_push_group) (simp add: all_grouped_def)

lemma group_by_distinct [group_simps]: "distinct (map fst (group_by key xs))"
  by (simp add: group_by_def distinct_fold_push_group)

lemma group_by_map_of:
  "map_of (group_by key xs) k =
     (if filter (\<lambda>x. key x = k) xs = [] then None else Some (filter (\<lambda>x. key x = k) xs))"
  by (simp add: group_by_def map_of_fold_push_group)

lemma group_by_memD:
  assumes "(k, ys) \<in> set (group_by key xs)"
  shows "ys = filter (\<lambda>x. key x = k) xs" and "ys \<noteq> []"
proof -
  have "map_of (group_by key xs) k = Some ys"
    using assms group_by_distinct map_of_is_SomeI by metis
  then show "ys = filter (\<lambda>x. key x = k) xs" "ys \<noteq> []"
    by (auto simp: group_by_map_of split: if_splits)
qed

lemma group_by_mem:
  "x \<in> set xs \<Longrightarrow> (key x, filter (\<lambda>y. key y = key x) xs) \<in> set (group_by key xs)"
  by (rule map_of_SomeD) (auto simp: group_by_map_of filter_empty_conv)

subsection \<open>Lists and sorting\<close>

lemma mset_concat_map: "mset (concat (map f xs)) = (\<Sum>x\<leftarrow>xs. mset (f x))"
  by (induction xs) auto

text \<open>Every pair \<open>(i, j)\<close> with \<open>i\<close> before \<open>j\<close>: the double loop \<^verbatim>\<open>for ii, for jj = ii + 1\<close>.\<close>

fun ordered_pairs :: "'a list \<Rightarrow> ('a \<times> 'a) list" where
  "ordered_pairs [] = []"
| "ordered_pairs (x # xs) = map (Pair x) xs @ ordered_pairs xs"

lemma set_ordered_pairs:
  "(a, b) \<in> set (ordered_pairs xs) \<longleftrightarrow> (\<exists>i j. i < j \<and> j < length xs \<and> xs ! i = a \<and> xs ! j = b)"
proof (induction xs)
  case Nil
  then show ?case by simp
next
  case (Cons x xs)
  have "(\<exists>i j. i < j \<and> j < length (x # xs) \<and> (x # xs) ! i = a \<and> (x # xs) ! j = b) \<longleftrightarrow>
        (x = a \<and> b \<in> set xs) \<or> (\<exists>i j. i < j \<and> j < length xs \<and> xs ! i = a \<and> xs ! j = b)"
    (is "?L \<longleftrightarrow> ?R")
  proof
    assume ?L
    then obtain i j where ij: "i < j" "j < length (x # xs)" "(x # xs) ! i = a" "(x # xs) ! j = b"
      by blast
    then show ?R
      by (cases i; cases j) (auto intro: nth_mem)
  next
    assume ?R
    then show ?L
    proof
      assume "x = a \<and> b \<in> set xs"
      then obtain j where "j < length xs" "xs ! j = b" "x = a" by (auto simp: in_set_conv_nth)
      then show ?L by (intro exI [of _ 0] exI [of _ "Suc j"]) simp
    next
      assume "\<exists>i j. i < j \<and> j < length xs \<and> xs ! i = a \<and> xs ! j = b"
      then obtain i j where "i < j" "j < length xs" "xs ! i = a" "xs ! j = b" by blast
      then show ?L by (intro exI [of _ "Suc i"] exI [of _ "Suc j"]) simp
    qed
  qed
  then show ?case using Cons.IH by auto
qed

text \<open>In a list sorted by a key that tells its elements apart, before means smaller.\<close>

lemma ordered_pairs_sort_key:
  assumes "distinct xs" "inj_on f (set xs)"
  shows "(a, b) \<in> set (ordered_pairs (sort_key f xs)) \<longleftrightarrow> a \<in> set xs \<and> b \<in> set xs \<and> f a < f b"
proof -
  let ?ys = "sort_key f xs"
  have srt: "sorted (map f ?ys)" and dst: "distinct ?ys" and st: "set ?ys = set xs"
    using assms by simp_all
  show ?thesis
  proof
    assume "(a, b) \<in> set (ordered_pairs ?ys)"
    then obtain i j where ij: "i < j" "j < length ?ys" "?ys ! i = a" "?ys ! j = b"
      by (auto simp: set_ordered_pairs)
    then have "f a \<le> f b"
      using sorted_nth_mono [OF srt, of i j] by simp
    moreover have "a \<noteq> b" using ij dst by (metis distinct_conv_nth less_trans nat_neq_iff)
    moreover have m: "a \<in> set xs" "b \<in> set xs"
      using ij st nth_mem [of i ?ys] nth_mem [of j ?ys] by auto
    ultimately have "f a < f b" using assms(2) by (auto simp: inj_on_def order_less_le)
    then show "a \<in> set xs \<and> b \<in> set xs \<and> f a < f b" using m by auto
  next
    assume r: "a \<in> set xs \<and> b \<in> set xs \<and> f a < f b"
    then obtain i j where ij: "i < length ?ys" "?ys ! i = a" "j < length ?ys" "?ys ! j = b"
      using st by (metis in_set_conv_nth)
    have "i < j"
    proof (rule ccontr)
      assume "\<not> i < j"
      then have "f b \<le> f a" using sorted_nth_mono [OF srt, of j i] ij by simp
      then show False using r by (auto dest: leD)
    qed
    then show "(a, b) \<in> set (ordered_pairs ?ys)" using ij by (auto simp: set_ordered_pairs)
  qed
qed

lemma insort_key_map_cong:
  "f x = g x \<Longrightarrow> \<forall>y \<in> set ys. f y = g y \<Longrightarrow> insort_key f x ys = insort_key g x ys"
  by (induction ys) auto

lemma sort_key_map_cong: "\<forall>x \<in> set xs. f x = g x \<Longrightarrow> sort_key f xs = sort_key g xs"
proof (induction xs)
  case Nil
  then show ?case by simp
next
  case (Cons x xs)
  then have "sort_key f xs = sort_key g xs" by simp
  moreover have "insort_key f x (sort_key g xs) = insort_key g x (sort_key g xs)"
    using Cons.prems by (intro insort_key_map_cong) auto
  ultimately show ?case by simp
qed

lemma sorted_wrt_concat:
  assumes "\<forall>i < length xss. sorted_wrt P (xss ! i)"
    and "\<forall>j < length xss. \<forall>i < j. \<forall>x \<in> set (xss ! i). \<forall>y \<in> set (xss ! j). P x y"
  shows "sorted_wrt P (concat xss)"
  using assms
proof (induction xss)
  case Nil
  then show ?case by simp
next
  case (Cons xs xss)
  have "\<forall>i < length xss. sorted_wrt P (xss ! i)"
    using Cons.prems(1) by fastforce
  moreover have "\<forall>j < length xss. \<forall>i < j. \<forall>x \<in> set (xss ! i). \<forall>y \<in> set (xss ! j). P x y"
    using Cons.prems(2) by (metis Suc_less_eq length_Cons nth_Cons_Suc)
  moreover have "sorted_wrt P xs" using Cons.prems(1) by fastforce
  moreover have "P x y" if x: "x \<in> set xs" and ys: "ys \<in> set xss" and y: "y \<in> set ys" for x y ys
  proof -
    obtain j where "j < length xss" "xss ! j = ys" using ys by (auto simp: in_set_conv_nth)
    then show ?thesis
      using Cons.prems(2) [rule_format, of "Suc j" 0 x y] x y by simp
  qed
  ultimately show ?case using Cons.IH by (auto simp: sorted_wrt_append)
qed

lemma sorted_wrt_neq_distinct: "sorted_wrt (\<lambda>x y. x \<noteq> y \<and> Q x y) xs \<Longrightarrow> distinct xs"
  by (induction xs) auto

lemma unat_of_nat64: "n < 2 ^ 64 \<Longrightarrow> unat (of_nat n :: u64) = n"
  unfolding unat_of_nat by (rule mod_less) simp

end
