(* ===== verification/Label.thy ===== *)
theory Label
  imports Prelude
begin

text \<open>
  The data model of \<^verbatim>\<open>include/labios/label.h\<close> and the lifecycle marks of
  \<^verbatim>\<open>src/labios/label.cpp\<close>. A \<^verbatim>\<open>LabelData\<close> is the record \<open>label_data\<close>, its fields
  prefixed \<open>l_\<close>; the enums are datatypes with the source's constructors (a prefix is added
  where two enums share an enumerator or HOL owns the name). Times are the values the clock
  returned, passed as the argument \<open>now\<close>. A finite double is a rational, and double arithmetic is
  idealised as exact rational arithmetic.
\<close>

subsection \<open>Enums and small structs\<close>

datatype label_type = Read | Write | Delete | Flush | Composite | Observe

datatype intent =
    IntentNone | Checkpoint | Cache | ToolOutput | FinalResult | Intermediate | SharedState
  | Embedding | ModelWeight | KVCache | ReasoningTrace

datatype isolation = IsoNone | IsoAgent | IsoWorkspace | IsoGlobal

datatype hazard_type = RAW | WAW | WAR

datatype completion_status = CompComplete | CompError

datatype durability = Ephemeral | Durable

datatype status_code = Created | Queued | Shuffled | Scheduled | Executing | Complete | Failed

datatype continuation_kind = ContNone | Notify | Chain | Conditional

text \<open>\<^verbatim>\<open>namespace LabelFlags\<close>.\<close>

definition flag_Queued :: u32 where "flag_Queued = push_bit 0 1"
definition flag_Scheduled :: u32 where "flag_Scheduled = push_bit 1 1"
definition flag_Pending :: u32 where "flag_Pending = push_bit 2 1"
definition flag_Cached :: u32 where "flag_Cached = push_bit 3 1"
definition flag_Invalidated :: u32 where "flag_Invalidated = push_bit 4 1"
definition flag_Async :: u32 where "flag_Async = push_bit 5 1"
definition flag_HighPrio :: u32 where "flag_HighPrio = push_bit 6 1"

lemmas flag_defs = flag_Queued_def flag_Scheduled_def flag_Pending_def flag_Cached_def
  flag_Invalidated_def flag_Async_def flag_HighPrio_def

text \<open>\<^verbatim>\<open>Pointer = std::variant<std::monostate, MemoryPtr, FilePath, NetworkEndpoint>\<close>.\<close>

datatype pointer =
    Monostate
  | MemoryPtr (mp_address: u64) (mp_size: u64)
  | FilePath (fp_path: string) (fp_offset: u64) (fp_length: u64)
  | NetworkEndpoint (ne_host: string) (ne_port: u16)

definition memory_ptr :: "u64 \<Rightarrow> u64 \<Rightarrow> pointer" where
  "memory_ptr addr sz = MemoryPtr addr sz"

definition file_path :: "string \<Rightarrow> pointer" where
  "file_path path = FilePath path 0 0"

definition file_path_range :: "string \<Rightarrow> u64 \<Rightarrow> u64 \<Rightarrow> pointer" where
  "file_path_range path offset len = FilePath path offset len"

definition network_endpoint :: "string \<Rightarrow> u16 \<Rightarrow> pointer" where
  "network_endpoint host port = NetworkEndpoint host port"

record label_dependency =
  dep_label_id :: u64
  dep_hazard_type :: hazard_type

record continuation =
  cont_kind :: continuation_kind
  cont_target_channel :: string
  cont_chain_params :: string
  cont_condition :: string

record routing_decision =
  rt_worker_id :: u32
  rt_policy :: string

record hop_record =
  hop_component :: string
  hop_timestamp_us :: u64

record aggregation_info =
  agg_original_ids :: "u64 list"
  agg_merged_offset :: u64
  agg_merged_length :: u64

record score_snapshot =
  ss_availability :: rat
  ss_capacity :: rat
  ss_load :: rat
  ss_speed :: rat
  ss_energy :: rat
  ss_tier :: rat

record label_result =
  res_data_location :: string
  res_error :: string
  res_bytes_transferred :: u64

text \<open>\<^verbatim>\<open>sds::PipelineStage\<close>; a \<^verbatim>\<open>Pipeline\<close> is its vector of stages.\<close>

record pipeline_stage =
  st_operation :: string
  st_args :: string
  st_input_stage :: int
  st_output_stage :: int

type_synonym pipeline = "pipeline_stage list"

subsection \<open>LabelData\<close>

record label_data =
  l_id :: u64
  l_type :: label_type
  l_source :: pointer
  l_destination :: pointer
  l_operation :: string
  l_flags :: u32
  l_priority :: u8
  l_app_id :: u32
  l_dependencies :: "label_dependency list"
  l_data_size :: u64
  l_intent :: intent
  l_ttl_seconds :: u32
  l_isolation :: isolation
  l_reply_to :: string
  l_file_key :: string
  l_children :: "u64 list"
  l_version :: u64
  l_durability :: durability
  l_continuation :: continuation
  l_source_uri :: string
  l_dest_uri :: string
  l_pipeline :: pipeline
  l_routing :: routing_decision
  l_supertask_id :: u64
  l_aggregation :: aggregation_info
  l_score_snapshot :: score_snapshot
  l_hops :: "hop_record list"
  l_status :: status_code
  l_created_us :: u64
  l_queued_us :: u64
  l_dispatched_us :: u64
  l_started_us :: u64
  l_completed_us :: u64
  l_result :: label_result

definition default_continuation :: continuation where
  "default_continuation = \<lparr>cont_kind = ContNone, cont_target_channel = [],
     cont_chain_params = [], cont_condition = []\<rparr>"

definition default_routing :: routing_decision where
  "default_routing = \<lparr>rt_worker_id = 0, rt_policy = []\<rparr>"

definition default_aggregation :: aggregation_info where
  "default_aggregation = \<lparr>agg_original_ids = [], agg_merged_offset = 0, agg_merged_length = 0\<rparr>"

definition default_score :: score_snapshot where
  "default_score = \<lparr>ss_availability = 0, ss_capacity = 0, ss_load = 0, ss_speed = 0,
     ss_energy = 0, ss_tier = 0\<rparr>"

definition default_result :: label_result where
  "default_result = \<lparr>res_data_location = [], res_error = [], res_bytes_transferred = 0\<rparr>"

text \<open>A value-initialised \<^verbatim>\<open>LabelData{}\<close>: the default member initialisers.\<close>

definition default_label :: label_data where
  "default_label = \<lparr>
     l_id = 0, l_type = Write, l_source = Monostate, l_destination = Monostate,
     l_operation = [], l_flags = 0, l_priority = 0, l_app_id = 0, l_dependencies = [],
     l_data_size = 0, l_intent = IntentNone, l_ttl_seconds = 0, l_isolation = IsoNone,
     l_reply_to = [], l_file_key = [], l_children = [], l_version = 0,
     l_durability = Ephemeral, l_continuation = default_continuation, l_source_uri = [],
     l_dest_uri = [], l_pipeline = [], l_routing = default_routing, l_supertask_id = 0,
     l_aggregation = default_aggregation, l_score_snapshot = default_score, l_hops = [],
     l_status = Created, l_created_us = 0, l_queued_us = 0, l_dispatched_us = 0,
     l_started_us = 0, l_completed_us = 0, l_result = default_result\<rparr>"

lemmas default_defs = default_label_def default_continuation_def default_routing_def
  default_aggregation_def default_score_def default_result_def

record completion_data =
  comp_label_id :: u64
  comp_status :: completion_status
  comp_error :: string
  comp_data_key :: string

subsection \<open>Lifecycle marks\<close>

text \<open>\<open>now\<close> is what \<^verbatim>\<open>label_timestamp_now_us()\<close> would return.\<close>

definition normalize_timestamp :: "u64 \<Rightarrow> u64 \<Rightarrow> u64" where
  "normalize_timestamp now ts = (if ts \<noteq> 0 then ts else now)"

definition append_label_hop :: "u64 \<Rightarrow> string \<Rightarrow> u64 \<Rightarrow> label_data \<Rightarrow> label_data" where
  "append_label_hop now component ts l =
     (if component = [] then l
      else l\<lparr>l_hops := l_hops l @
             [\<lparr>hop_component = component, hop_timestamp_us = normalize_timestamp now ts\<rparr>]\<rparr>)"

definition stamp_created :: "u64 \<Rightarrow> label_data \<Rightarrow> label_data" where
  "stamp_created ts l = (if l_created_us l = 0 then l\<lparr>l_created_us := ts\<rparr> else l)"

definition mark_label_created :: "u64 \<Rightarrow> u64 \<Rightarrow> label_data \<Rightarrow> label_data" where
  "mark_label_created now timestamp l =
     (let ts = normalize_timestamp now timestamp; l = stamp_created ts l
      in l\<lparr>l_status := Created\<rparr>)"

definition mark_label_queued :: "u64 \<Rightarrow> u64 \<Rightarrow> label_data \<Rightarrow> label_data" where
  "mark_label_queued now timestamp l =
     (let ts = normalize_timestamp now timestamp; l = stamp_created ts l
      in l\<lparr>l_flags := l_flags l OR flag_Queued, l_queued_us := ts, l_status := Queued\<rparr>)"

definition mark_label_shuffled :: "u64 \<Rightarrow> u64 \<Rightarrow> label_data \<Rightarrow> label_data" where
  "mark_label_shuffled now timestamp l =
     (let ts = normalize_timestamp now timestamp; l = stamp_created ts l;
          l = l\<lparr>l_status := Shuffled\<rparr>
      in append_label_hop now ''shuffler'' ts l)"

definition mark_label_scheduled ::
    "u64 \<Rightarrow> u32 \<Rightarrow> string \<Rightarrow> score_snapshot \<Rightarrow> u64 \<Rightarrow> label_data \<Rightarrow> label_data" where
  "mark_label_scheduled now worker_id policy snapshot timestamp l =
     (let ts = normalize_timestamp now timestamp; l = stamp_created ts l;
          l = l\<lparr>l_flags := l_flags l OR flag_Scheduled,
                l_routing := \<lparr>rt_worker_id = worker_id, rt_policy = policy\<rparr>,
                l_score_snapshot := snapshot, l_dispatched_us := ts, l_status := Scheduled\<rparr>
      in append_label_hop now ''scheduler'' ts l)"

definition mark_label_executing :: "u64 \<Rightarrow> string \<Rightarrow> u64 \<Rightarrow> label_data \<Rightarrow> label_data" where
  "mark_label_executing now worker_component timestamp l =
     (let ts = normalize_timestamp now timestamp; l = stamp_created ts l;
          l = l\<lparr>l_flags := l_flags l OR flag_Pending, l_started_us := ts, l_status := Executing\<rparr>
      in append_label_hop now worker_component ts l)"

definition mark_label_finished ::
    "u64 \<Rightarrow> completion_status \<Rightarrow> string \<Rightarrow> u64 \<Rightarrow> string \<Rightarrow> u64 \<Rightarrow> label_data \<Rightarrow> label_data" where
  "mark_label_finished now status data_location bytes_transferred error timestamp l =
     (let ts = normalize_timestamp now timestamp; l = stamp_created ts l
      in l\<lparr>l_completed_us := ts,
           l_result := \<lparr>res_data_location = data_location, res_error = error,
                        res_bytes_transferred = bytes_transferred\<rparr>,
           l_status := (if status = CompComplete then Complete else Failed)\<rparr>)"

lemmas mark_defs = mark_label_created_def mark_label_queued_def mark_label_shuffled_def
  mark_label_scheduled_def mark_label_executing_def mark_label_finished_def
  append_label_hop_def stamp_created_def Let_def

subsection \<open>The lifecycle as a state machine\<close>

text \<open>
  The runtime applies the marks in the order of the architecture document: created, queued,
  shuffled, scheduled, executing, finished. \<open>lifecycle_step\<close> is that order, each step with
  the clock value and the arguments it was called with.
\<close>

inductive lifecycle_step :: "label_data \<Rightarrow> label_data \<Rightarrow> bool" where
  queue: "l_status l = Created \<Longrightarrow> lifecycle_step l (mark_label_queued now ts l)"
| shuffle: "l_status l = Queued \<Longrightarrow> lifecycle_step l (mark_label_shuffled now ts l)"
| schedule: "l_status l = Shuffled \<Longrightarrow> lifecycle_step l (mark_label_scheduled now w p s ts l)"
| execute: "l_status l = Scheduled \<Longrightarrow> lifecycle_step l (mark_label_executing now c ts l)"
| finish: "l_status l = Executing \<Longrightarrow> lifecycle_step l (mark_label_finished now st d n e ts l)"

inductive lifecycle_run :: "label_data \<Rightarrow> label_data \<Rightarrow> bool" where
  start: "lifecycle_run l l"
| step: "lifecycle_run l l' \<Longrightarrow> lifecycle_step l' l'' \<Longrightarrow> lifecycle_run l l''"

fun status_rank :: "status_code \<Rightarrow> nat" where
  "status_rank Created = 0"
| "status_rank Queued = 1"
| "status_rank Shuffled = 2"
| "status_rank Scheduled = 3"
| "status_rank Executing = 4"
| "status_rank Complete = 5"
| "status_rank Failed = 5"

text \<open>What no mark may change: the label's identity and payload description.\<close>

definition same_origin :: "label_data \<Rightarrow> label_data \<Rightarrow> bool" where
  "same_origin l l' \<longleftrightarrow>
     l_id l = l_id l' \<and> l_type l = l_type l' \<and> l_source l = l_source l' \<and>
     l_destination l = l_destination l' \<and> l_app_id l = l_app_id l' \<and>
     l_data_size l = l_data_size l' \<and> l_pipeline l = l_pipeline l' \<and>
     l_continuation l = l_continuation l' \<and> l_reply_to l = l_reply_to l' \<and>
     l_dependencies l = l_dependencies l' \<and> l_children l = l_children l'"

lemma lifecycle_step_rank: "lifecycle_step l l' \<Longrightarrow> status_rank (l_status l') = Suc (status_rank (l_status l))"
  by (induction rule: lifecycle_step.induct) (auto simp: mark_defs)

lemma lifecycle_step_origin: "lifecycle_step l l' \<Longrightarrow> same_origin l l'"
  by (induction rule: lifecycle_step.induct) (auto simp: mark_defs same_origin_def)

lemma lifecycle_step_hops: "lifecycle_step l l' \<Longrightarrow> prefix (l_hops l) (l_hops l')"
  by (induction rule: lifecycle_step.induct) (auto simp: mark_defs)

lemma lifecycle_step_created:
  "lifecycle_step l l' \<Longrightarrow> l_created_us l \<noteq> 0 \<Longrightarrow> l_created_us l' = l_created_us l"
  by (induction rule: lifecycle_step.induct) (auto simp: mark_defs)

lemma lifecycle_step_flags: "lifecycle_step l l' \<Longrightarrow> l_flags l AND l_flags l' = l_flags l"
  by (induction rule: lifecycle_step.induct) (auto simp: mark_defs bit_eq_iff bit_simps)

lemma flags_trans:
  assumes "(a::u32) AND b = a" "b AND c = b"
  shows "a AND c = a"
  using assms by (metis and.assoc)

lemma lifecycle_run_facts:
  assumes "lifecycle_run l l'"
  shows "same_origin l l' \<and> prefix (l_hops l) (l_hops l') \<and>
         status_rank (l_status l) \<le> status_rank (l_status l') \<and>
         (l_created_us l \<noteq> 0 \<longrightarrow> l_created_us l' = l_created_us l) \<and>
         l_flags l AND l_flags l' = l_flags l"
  using assms
proof (induction rule: lifecycle_run.induct)
  case (start l)
  show ?case by (simp add: same_origin_def)
next
  case (step l l' l'')
  have "same_origin l l''"
    using step lifecycle_step_origin [OF step.hyps(2)] by (auto simp: same_origin_def)
  moreover have "prefix (l_hops l) (l_hops l'')"
    using step lifecycle_step_hops [OF step.hyps(2)] by auto
  moreover have "status_rank (l_status l) \<le> status_rank (l_status l'')"
    using step lifecycle_step_rank [OF step.hyps(2)] by auto
  moreover have "l_flags l AND l_flags l'' = l_flags l"
    using step lifecycle_step_flags [OF step.hyps(2)] flags_trans by blast
  ultimately show ?case
    using step lifecycle_step_created [OF step.hyps(2)] by auto
qed

text \<open>A lifecycle has at most five steps: each one raises the rank, which is at most five.\<close>

lemma status_rank_le: "status_rank s \<le> 5"
  by (cases s) auto

text \<open>
  Along every lifecycle a label keeps its identity, payload description, dependencies and
  children; its hop trail only grows, its status never goes back, its creation time never changes
  once set, and no flag is ever cleared.
\<close>

lemma lifecycle_keeps_label:
  assumes "lifecycle_run l l'"
  shows "same_origin l l' \<and> prefix (l_hops l) (l_hops l') \<and>
         status_rank (l_status l) \<le> status_rank (l_status l') \<and>
         (l_created_us l \<noteq> 0 \<longrightarrow> l_created_us l' = l_created_us l) \<and>
         l_flags l AND l_flags l' = l_flags l"
  using assms by (rule lifecycle_run_facts)

end
