(* ===== verification/Sds.thy ===== *)
theory Sds
  imports Label
begin

text \<open>
  The software-defined-storage pipelines of \<^verbatim>\<open>src/labios/sds/\<close>: the tab-separated wire
  format of a pipeline (\<^verbatim>\<open>types.cpp\<close>), the built-in functions (\<^verbatim>\<open>builtins.cpp\<close>), the
  program repository (\<^verbatim>\<open>program_repo.cpp\<close>) and the stage executor (\<^verbatim>\<open>executor.cpp\<close>).
  A \<^verbatim>\<open>StageResult\<close> with \<^verbatim>\<open>success = false\<close> is \<open>Inl error\<close>, one with
  \<^verbatim>\<open>success = true\<close> is \<open>Inr data\<close>. Little-endian words are read and written as
  \<^verbatim>\<open>memcpy\<close> does on the supported platforms. The random sampler is \<^verbatim>\<open>fn_sample\<close> with the
  draws of \<^verbatim>\<open>std::mt19937(42)\<close> as a parameter.
\<close>

subsection \<open>Wire format of a pipeline\<close>

abbreviation tab :: char where "tab \<equiv> CHR 0x09"
abbreviation newline :: char where "newline \<equiv> CHR 0x0A"

definition serialize_stage :: "pipeline_stage \<Rightarrow> string" where
  "serialize_stage s =
     st_operation s @ tab # st_args s @ tab # int_to_string (st_input_stage s)
       @ tab # int_to_string (st_output_stage s)"

fun serialize_pipeline :: "pipeline \<Rightarrow> string" where
  "serialize_pipeline [] = []"
| "serialize_pipeline [s] = serialize_stage s"
| "serialize_pipeline (s # ss) = serialize_stage s @ newline # serialize_pipeline ss"

text \<open>
  \<^verbatim>\<open>std::from_chars(..., stage.input_stage)\<close>: on failure the field keeps its default -1; the
  characters after the number are ignored.
\<close>

definition stage_field :: "string \<Rightarrow> int" where
  "stage_field s = (case from_chars_int s of Parsed v _ \<Rightarrow> v | _ \<Rightarrow> -1)"

definition parse_stage :: "string \<Rightarrow> pipeline_stage result" where
  "parse_stage line =
     (case find_char tab line of
        None \<Rightarrow> Inl ''malformed pipeline stage: missing operation''
      | Some tab1 \<Rightarrow>
          (let rest1 = drop (Suc tab1) line in
           case find_char tab rest1 of
             None \<Rightarrow> Inl ''malformed pipeline stage: missing args''
           | Some tab2 \<Rightarrow>
               (let rest2 = drop (Suc tab2) rest1 in
                case find_char tab rest2 of
                  None \<Rightarrow> Inl ''malformed pipeline stage: missing input_stage''
                | Some tab3 \<Rightarrow>
                    Inr \<lparr>st_operation = take tab1 line, st_args = take tab2 rest1,
                         st_input_stage = stage_field (take tab3 rest2),
                         st_output_stage = stage_field (drop (Suc tab3) rest2)\<rparr>)))"

function deserialize_pipeline :: "string \<Rightarrow> pipeline result" where
  "deserialize_pipeline s =
     (if s = [] then Inr []
      else let line_end = (case find_char newline s of None \<Rightarrow> length s | Some n \<Rightarrow> n);
               line = take line_end s; rest = drop (Suc line_end) s
           in if line = [] then deserialize_pipeline rest
              else case parse_stage line of
                     Inl e \<Rightarrow> Inl e
                   | Inr stage \<Rightarrow>
                       (case deserialize_pipeline rest of
                          Inl e \<Rightarrow> Inl e | Inr ss \<Rightarrow> Inr (stage # ss)))"
  by pat_completeness auto
termination
  by (relation "measure length") auto

declare deserialize_pipeline.simps [simp del]

definition int32 :: "int \<Rightarrow> bool" where
  "int32 i \<longleftrightarrow> - (2 ^ 31) \<le> i \<and> i < 2 ^ 31"

text \<open>The stages the wire format can carry: no separator inside a text field.\<close>

definition stage_wf :: "pipeline_stage \<Rightarrow> bool" where
  "stage_wf s \<longleftrightarrow>
     tab \<notin> set (st_operation s) \<and> newline \<notin> set (st_operation s) \<and>
     tab \<notin> set (st_args s) \<and> newline \<notin> set (st_args s) \<and>
     int32 (st_input_stage s) \<and> int32 (st_output_stage s)"

lemma stage_field_print [text_simps]: "int32 i \<Longrightarrow> stage_field (int_to_string i) = i"
  using from_chars_int_print [of i "[]"] by (simp add: stage_field_def int32_def)

lemma parse_serialize_stage [text_simps]: "stage_wf s \<Longrightarrow> parse_stage (serialize_stage s) = Inr s"
  by (simp add: parse_stage_def serialize_stage_def stage_wf_def text_simps)

lemma newline_serialize_stage [text_simps]: "stage_wf s \<Longrightarrow> newline \<notin> set (serialize_stage s)"
  by (simp add: serialize_stage_def stage_wf_def text_simps)

lemma serialize_stage_nonempty [simp]: "serialize_stage s \<noteq> []"
  by (simp add: serialize_stage_def)

lemma deserialize_stage_line:
  "stage_wf s \<Longrightarrow> deserialize_pipeline (serialize_stage s @ newline # t) =
     (case deserialize_pipeline t of Inl e \<Rightarrow> Inl e | Inr ss \<Rightarrow> Inr (s # ss))"
  by (subst deserialize_pipeline.simps) (simp add: text_simps)

lemma deserialize_last_stage: "stage_wf s \<Longrightarrow> deserialize_pipeline (serialize_stage s) = Inr [s]"
proof -
  assume wf: "stage_wf s"
  then have fc: "find_char newline (serialize_stage s) = None"
    by (simp add: text_simps)
  show ?thesis
    by (subst deserialize_pipeline.simps)
       (simp add: fc parse_serialize_stage [OF wf] deserialize_pipeline.simps [of "[]"])
qed

lemma pipeline_text_roundtrip:
  assumes "\<forall>s \<in> set p. stage_wf s"
  shows "deserialize_pipeline (serialize_pipeline p) = Inr p"
  using assms
proof (induction p rule: serialize_pipeline.induct)
  case 1
  then show ?case by (simp add: deserialize_pipeline.simps)
next
  case (2 s)
  then show ?case by (simp add: deserialize_last_stage)
next
  case (3 s s' ss)
  then show ?case by (simp add: deserialize_stage_line)
qed

text \<open>
  C9: A pipeline whose operation and argument texts hold no tab and no newline, and whose stage
  numbers fit a 32-bit int, is read back from its wire format exactly as it was written.
\<close>

theorem pipeline_roundtrip:
  assumes "\<forall>s \<in> set p. stage_wf s"
  shows "deserialize_pipeline (serialize_pipeline p) = Inr p"
  using assms by (rule pipeline_text_roundtrip)

definition sample_pipeline :: pipeline where
  "sample_pipeline =
     [\<lparr>st_operation = ''builtin://compress_rle'', st_args = [], st_input_stage = -1, st_output_stage = 1\<rparr>,
      \<lparr>st_operation = ''builtin://truncate'', st_args = ''16'', st_input_stage = 0, st_output_stage = -1\<rparr>]"

theorem pipeline_roundtrip_witness:
  "deserialize_pipeline (serialize_pipeline sample_pipeline) = Inr sample_pipeline"
  by (rule pipeline_roundtrip) (simp add: sample_pipeline_def stage_wf_def int32_def)

subsection \<open>Little-endian words\<close>

text \<open>\<^verbatim>\<open>memcpy\<close> of a \<^verbatim>\<open>uint64_t\<close> to and from a byte buffer.\<close>

fun le_bytes :: "nat \<Rightarrow> nat \<Rightarrow> bytes" where
  "le_bytes 0 n = []"
| "le_bytes (Suc k) n = of_nat (n mod 256) # le_bytes k (n div 256)"

fun le_nat :: "bytes \<Rightarrow> nat" where
  "le_nat [] = 0"
| "le_nat (b # bs) = unat b + 256 * le_nat bs"

lemma length_le_bytes [simp]: "length (le_bytes k n) = k"
  by (induction k arbitrary: n) auto

lemma le_nat_bytes: "le_nat (le_bytes k n) = n mod 256 ^ k"
proof (induction k arbitrary: n)
  case 0
  then show ?case by simp
next
  case (Suc k)
  have "le_nat (le_bytes (Suc k) n) = n mod 256 + 256 * (n div 256 mod 256 ^ k)"
    by (simp add: Suc.IH unat_of_nat)
  also have "\<dots> = n mod 256 ^ Suc k"
    by (simp add: mod_mult2_eq)
  finally show ?case .
qed

lemma le_nat_less: "le_nat bs < 256 ^ length bs"
proof (induction bs)
  case Nil
  then show ?case by simp
next
  case (Cons b bs)
  have "unat b < 256" using unsigned_less [of b] by simp
  with Cons show ?case by simp
qed

lemma le_bytes_nat: "le_bytes (length bs) (le_nat bs) = bs"
proof (induction bs)
  case Nil
  then show ?case by simp
next
  case (Cons b bs)
  have "unat b < 256" using unsigned_less [of b] by simp
  with Cons show ?case by simp
qed

definition u64_bytes :: "u64 \<Rightarrow> bytes" where
  "u64_bytes w = le_bytes 8 (unat w)"

definition u64_of_bytes :: "bytes \<Rightarrow> u64" where
  "u64_of_bytes bs = of_nat (le_nat bs)"

lemma u64_of_u64_bytes [simp]: "u64_of_bytes (u64_bytes w) = w"
proof -
  have "unat w < 2 ^ 64" using unsigned_less [of w] by simp
  then have "unat w mod 256 ^ 8 = unat w" by simp
  then show ?thesis by (simp only: u64_of_bytes_def u64_bytes_def le_nat_bytes of_nat_unat ucast_id)
qed

text \<open>The first \<open>count\<close> words of a buffer; a trailing partial word is not read.\<close>

fun read_words :: "nat \<Rightarrow> bytes \<Rightarrow> u64 list" where
  "read_words 0 bs = []"
| "read_words (Suc n) bs = u64_of_bytes (take 8 bs) # read_words n (drop 8 bs)"

definition input_words :: "bytes \<Rightarrow> u64 list" where
  "input_words bs = read_words (length bs div 8) bs"

definition write_words :: "u64 list \<Rightarrow> bytes" where
  "write_words ws = concat (map u64_bytes ws)"

lemma length_u64_bytes [simp]: "length (u64_bytes w) = 8"
  by (simp add: u64_bytes_def)

lemma length_read_words [simp]: "length (read_words n bs) = n"
  by (induction n bs rule: read_words.induct) auto

lemma length_write_words [simp]: "length (write_words ws) = 8 * length ws"
  by (induction ws) (auto simp: write_words_def)

lemma input_write_words [simp]: "input_words (write_words ws) = ws"
proof -
  have "read_words (length ws) (write_words ws) = ws"
    by (induction ws) (auto simp: write_words_def)
  then show ?thesis by (simp add: input_words_def)
qed

lemma length_input_words [simp]: "length (input_words bs) = length bs div 8"
  by (simp add: input_words_def)

lemma input_words_short [simp]: "length bs < 8 \<Longrightarrow> input_words bs = []"
  by (simp add: input_words_def)

subsection \<open>Built-in functions\<close>

type_synonym sds_function = "bytes \<Rightarrow> string \<Rightarrow> bytes result"

definition fn_identity :: sds_function where
  "fn_identity input args = Inr input"

text \<open>The length of the run of \<open>val\<close> at the head, at most 255 with the first byte counted.\<close>

fun run_length :: "u8 \<Rightarrow> nat \<Rightarrow> bytes \<Rightarrow> nat" where
  "run_length val run [] = run"
| "run_length val run (b # bs) = (if b = val \<and> run < 255 then run_length val (Suc run) bs else run)"

lemma run_length_ge: "run \<le> run_length val run bs"
  by (induction val run bs rule: run_length.induct) auto

lemma run_length_le: "run \<le> 255 \<Longrightarrow> run_length val run bs \<le> 255"
  by (induction val run bs rule: run_length.induct) auto

lemma run_length_replicate:
  "\<exists>rest. bs = replicate (run_length val run bs - run) val @ rest \<and>
     drop (run_length val run bs - run) bs = rest"
proof (induction val run bs rule: run_length.induct)
  case (1 val run)
  then show ?case by simp
next
  case (2 val run b bs)
  show ?case
  proof (cases "b = val \<and> run < 255")
    case True
    then have "run_length val (Suc run) bs - run = Suc (run_length val (Suc run) bs - Suc run)"
      using run_length_ge [of "Suc run" val bs] by simp
    then show ?thesis using True 2 by auto
  next
    case False
    then show ?thesis by auto
  qed
qed

function compress_loop :: "bytes \<Rightarrow> bytes" where
  "compress_loop [] = []"
| "compress_loop (val # rest) =
     (let run = run_length val 1 rest
      in val # of_nat run # compress_loop (drop (run - 1) rest))"
  by pat_completeness auto
termination
  by (relation "measure length") auto

definition fn_compress_rle :: sds_function where
  "fn_compress_rle input args = Inr (compress_loop input)"

fun decompress_loop :: "bytes \<Rightarrow> bytes" where
  "decompress_loop (val # cnt # rest) = replicate (unat cnt) val @ decompress_loop rest"
| "decompress_loop _ = []"

definition fn_decompress_rle :: sds_function where
  "fn_decompress_rle input args =
     (if input = [] then Inr []
      else if length input mod 2 \<noteq> 0
        then Inl ''RLE data must have even length (byte,count pairs)''
      else Inr (decompress_loop input))"

lemma decompress_compress_loop: "decompress_loop (compress_loop bs) = bs"
proof (induction bs rule: compress_loop.induct)
  case 1
  then show ?case by simp
next
  case (2 val rest)
  define run where "run = run_length val (Suc 0) rest"
  have run: "Suc 0 \<le> run" "run \<le> 255"
    using run_length_ge [of "Suc 0" val rest] run_length_le [of "Suc 0" val rest]
    by (auto simp: run_def)
  have u: "unat (of_nat run :: u8) = run"
    using run by (simp add: unat_of_nat)
  obtain tl where tl: "rest = replicate (run - Suc 0) val @ tl" "drop (run - Suc 0) rest = tl"
    using run_length_replicate [of rest val "Suc 0"] by (auto simp: run_def)
  have "compress_loop (val # rest) = val # of_nat run # compress_loop tl"
    using tl(2) by (simp add: Let_def flip: run_def)
  moreover have "decompress_loop (compress_loop tl) = tl"
    using 2 tl(2) by (simp add: run_def)
  moreover have "replicate run val = val # replicate (run - Suc 0) val"
    using run(1) by (cases run) auto
  ultimately show ?case
    using tl(1) u by simp
qed

lemma even_compress_loop: "even (length (compress_loop bs))"
  by (induction bs rule: compress_loop.induct) (auto simp: Let_def)

lemma length_compress_loop: "length (compress_loop bs) \<le> 2 * length bs"
proof (induction bs rule: compress_loop.induct)
  case 1
  then show ?case by simp
next
  case (2 val rest)
  then show ?case by (simp add: Let_def)
qed

text \<open>
  Run-length decompression undoes run-length compression on every input (runs over 255 bytes
  included), whatever the arguments, and the compressed form is at most twice as long.
\<close>

lemma rle_roundtrip:
  "\<exists>c. fn_compress_rle input args = Inr c \<and> fn_decompress_rle c args' = Inr input \<and>
       length c \<le> 2 * length input"
  using even_compress_loop [of input]
  by (auto simp: fn_compress_rle_def fn_decompress_rle_def decompress_compress_loop
      length_compress_loop even_iff_mod_2_eq_zero)
     (metis decompress_compress_loop decompress_loop.simps(2))

text \<open>\<open>static_cast<std::byte>(val)\<close> keeps the low eight bits.\<close>

definition fn_filter_bytes :: sds_function where
  "fn_filter_bytes input args =
     (if args = [] then Inl ''filter_bytes requires a pattern byte (decimal value)''
      else case from_chars_int args of
             Parsed val _ \<Rightarrow> Inr (filter (\<lambda>b. b = of_int val) input)
           | _ \<Rightarrow> Inl ''filter_bytes: invalid pattern byte'')"

definition fn_sum_uint64 :: sds_function where
  "fn_sum_uint64 input args =
     (if length input div 8 = 0 then Inr (u64_bytes 0)
      else Inr (u64_bytes (foldl (+) 0 (input_words input))))"

definition fn_sort_uint64 :: sds_function where
  "fn_sort_uint64 input args =
     (if length input div 8 = 0 then Inr [] else Inr (write_words (sort (input_words input))))"

definition parse_count :: "string \<Rightarrow> nat option" where
  "parse_count args = (case from_chars_nat (2 ^ 64) args of Parsed n _ \<Rightarrow> Some n | _ \<Rightarrow> None)"

text \<open>
  The Fisher-Yates prefix of \<^verbatim>\<open>fn_sample\<close>: \<open>draw i hi\<close> is the index in \<open>[i, hi]\<close> that the
  generator returned at step \<open>i\<close>.
\<close>

fun draw_indices :: "(nat \<Rightarrow> nat \<Rightarrow> nat) \<Rightarrow> nat \<Rightarrow> nat \<Rightarrow> nat list \<Rightarrow> nat list" where
  "draw_indices draw i 0 ixs = ixs"
| "draw_indices draw i (Suc k) ixs =
     (let j = draw i (length ixs - 1)
      in draw_indices draw (Suc i) k (ixs[i := ixs ! j, j := ixs ! i]))"

definition fn_sample :: "(nat \<Rightarrow> nat \<Rightarrow> nat) \<Rightarrow> sds_function" where
  "fn_sample draw input args =
     (if args = [] then Inl ''sample requires N (number of bytes)''
      else case parse_count args of
             None \<Rightarrow> Inl ''sample: invalid N''
           | Some n \<Rightarrow>
               if n \<ge> length input then Inr input
               else Inr (map (\<lambda>ix. input ! ix)
                          (sort (take n (draw_indices draw 0 n [0..<length input])))))"

definition fn_truncate :: sds_function where
  "fn_truncate input args =
     (if args = [] then Inl ''truncate requires N (number of bytes)''
      else case parse_count args of
             None \<Rightarrow> Inl ''truncate: invalid N''
           | Some n \<Rightarrow> Inr (take (min n (length input)) input))"

fun dedup_from :: "u8 \<Rightarrow> bytes \<Rightarrow> bytes" where
  "dedup_from prev [] = []"
| "dedup_from prev (b # bs) = (if b \<noteq> prev then b # dedup_from b bs else dedup_from b bs)"

definition fn_deduplicate :: sds_function where
  "fn_deduplicate input args =
     (case input of [] \<Rightarrow> Inr [] | b # bs \<Rightarrow> Inr (b # dedup_from b bs))"

definition fn_median_uint64 :: sds_function where
  "fn_median_uint64 input args =
     (if length input < 8 then Inl ''median requires at least one uint64''
      else let values = sort (input_words input); cnt = length values
           in Inr (u64_bytes
                (if cnt mod 2 = 0 \<and> cnt > 1
                 then (values ! (cnt div 2 - 1) + values ! (cnt div 2)) div 2
                 else values ! (cnt div 2))))"

text \<open>\<^verbatim>\<open>std::toupper\<close>, \<^verbatim>\<open>std::tolower\<close> in the C locale.\<close>

definition to_upper_byte :: "u8 \<Rightarrow> u8" where
  "to_upper_byte b = (if 97 \<le> b \<and> b \<le> 122 then b - 32 else b)"

definition to_lower_byte :: "u8 \<Rightarrow> u8" where
  "to_lower_byte b = (if 65 \<le> b \<and> b \<le> 90 then b + 32 else b)"

definition fn_format_convert :: sds_function where
  "fn_format_convert input args =
     (if args = ''upper'' then Inr (map to_upper_byte input)
      else if args = ''lower'' then Inr (map to_lower_byte input)
      else Inr input)"

subsection \<open>What the built-ins compute\<close>

text \<open>
  sort_uint64 returns the input's 64-bit words in ascending order and loses none; bytes after
  the last whole word are dropped.
\<close>

lemma sort_uint64_correct:
  "\<exists>out. fn_sort_uint64 input args = Inr out \<and> sorted (input_words out) \<and>
         mset (input_words out) = mset (input_words input) \<and>
         length out = length input - length input mod 8"
proof (cases "length input div 8 = 0")
  case True
  then have "length input < 8" by simp
  then show ?thesis by (simp add: fn_sort_uint64_def)
next
  case False
  then show ?thesis by (simp add: fn_sort_uint64_def minus_mod_eq_mult_div)
qed

lemma dedup_from_adj: "distinct_adj (prev # dedup_from prev bs)"
  by (induction prev bs rule: dedup_from.induct) auto

lemma dedup_from_remdups: "prev # dedup_from prev bs = remdups_adj (prev # bs)"
  by (induction prev bs rule: dedup_from.induct) auto

text \<open>The median of two large words: the midpoint is computed with a 64-bit sum that wraps.\<close>

definition two_words :: "u64 \<Rightarrow> u64 \<Rightarrow> bytes" where
  "two_words a b = write_words [a, b]"

lemma fn_median_two:
  "a \<le> b \<Longrightarrow> fn_median_uint64 (two_words a b) args = Inr (u64_bytes ((a + b) div 2))"
  by (simp add: fn_median_uint64_def two_words_def Let_def)

text \<open>
  The median of two equal words is not always that word: for two copies of 2^63 the sum of
  the middle values wraps and median_uint64 reports 0.
\<close>

lemma median_overflow:
  "fn_median_uint64 (two_words (2 ^ 63) (2 ^ 63)) args = Inr (u64_bytes 0)"
  by (simp add: fn_median_two)

subsection \<open>Program repository\<close>

type_synonym program_repository = "string \<rightharpoonup> sds_function"

definition register_function :: "string \<Rightarrow> sds_function \<Rightarrow> program_repository \<Rightarrow> program_repository" where
  "register_function name fn repo = repo(name \<mapsto> fn)"

definition repo_lookup :: "program_repository \<Rightarrow> string \<Rightarrow> sds_function option" where
  "repo_lookup repo name = repo name"

definition repo_has :: "program_repository \<Rightarrow> string \<Rightarrow> bool" where
  "repo_has repo name \<longleftrightarrow> repo name \<noteq> None"

definition register_all_builtins ::
    "(nat \<Rightarrow> nat \<Rightarrow> nat) \<Rightarrow> program_repository \<Rightarrow> program_repository" where
  "register_all_builtins draw repo = fold (\<lambda>(name, fn). register_function name fn)
     [(''builtin://identity'', fn_identity),
      (''builtin://compress_rle'', fn_compress_rle),
      (''builtin://decompress_rle'', fn_decompress_rle),
      (''builtin://filter_bytes'', fn_filter_bytes),
      (''builtin://sum_uint64'', fn_sum_uint64),
      (''builtin://sort_uint64'', fn_sort_uint64),
      (''builtin://sample'', fn_sample draw),
      (''builtin://truncate'', fn_truncate),
      (''builtin://deduplicate'', fn_deduplicate),
      (''builtin://median_uint64'', fn_median_uint64),
      (''builtin://format_convert'', fn_format_convert)] repo"

subsection \<open>Executor\<close>

text \<open>
  The loop over the stages with the outputs computed so far; stage \<open>i\<close> may read the label's
  source data or the output of an earlier stage.
\<close>

definition stage_source :: "bytes \<Rightarrow> bytes list \<Rightarrow> nat \<Rightarrow> pipeline_stage \<Rightarrow> bytes result" where
  "stage_source source_data outputs i stage =
     (if st_input_stage stage < 0 then Inr source_data
      else if st_input_stage stage < int i then Inr (outputs ! nat (st_input_stage stage))
      else Inl (''stage '' @ nat_to_string i @ '' references future or self input_stage=''
                @ int_to_string (st_input_stage stage)))"

fun exec_stages :: "program_repository \<Rightarrow> bytes \<Rightarrow> nat \<Rightarrow> pipeline \<Rightarrow> bytes list \<Rightarrow> bytes list result" where
  "exec_stages repo source_data i [] outputs = Inr outputs"
| "exec_stages repo source_data i (stage # stages) outputs =
     (case repo_lookup repo (st_operation stage) of
        None \<Rightarrow> Inl (''unknown SDS function: '' @ st_operation stage)
      | Some fn \<Rightarrow>
          (case stage_source source_data outputs i stage of
             Inl e \<Rightarrow> Inl e
           | Inr input \<Rightarrow>
               (case fn input (st_args stage) of
                  Inl e \<Rightarrow> Inl e
                | Inr out \<Rightarrow> exec_stages repo source_data (Suc i) stages (outputs @ [out]))))"

text \<open>The last stage with a negative \<open>output_stage\<close>, or else the last stage.\<close>

definition final_output :: "pipeline \<Rightarrow> bytes list \<Rightarrow> bytes" where
  "final_output stages outputs =
     (case find (\<lambda>(s, out). st_output_stage s < 0) (rev (zip stages outputs)) of
        Some (s, out) \<Rightarrow> out
      | None \<Rightarrow> last outputs)"

definition execute_pipeline :: "pipeline \<Rightarrow> bytes \<Rightarrow> program_repository \<Rightarrow> bytes result" where
  "execute_pipeline pipeline input_data repo =
     (if pipeline = [] then Inr input_data
      else case exec_stages repo input_data 0 pipeline [] of
             Inl e \<Rightarrow> Inl e
           | Inr outputs \<Rightarrow> Inr (final_output pipeline outputs))"

lemma exec_stages_length:
  "exec_stages repo src i stages outputs = Inr outs \<Longrightarrow> length outs = length outputs + length stages"
  by (induction repo src i stages outputs rule: exec_stages.induct)
     (auto split: option.splits sum.splits)

text \<open>
  A chain: the first stage reads the source, every later one its predecessor, and only the last
  one writes to the label's destination. \<open>run_chain\<close> is the composition of its functions.
\<close>

definition chained_from :: "nat \<Rightarrow> pipeline \<Rightarrow> bool" where
  "chained_from i stages \<longleftrightarrow>
     (\<forall>k < length stages. st_input_stage (stages ! k) = int (i + k) - 1) \<and>
     (\<forall>k. Suc k < length stages \<longrightarrow> 0 \<le> st_output_stage (stages ! k)) \<and>
     (stages \<noteq> [] \<longrightarrow> st_output_stage (last stages) < 0)"

fun run_chain :: "program_repository \<Rightarrow> pipeline \<Rightarrow> bytes \<Rightarrow> bytes result" where
  "run_chain repo [] data = Inr data"
| "run_chain repo (stage # stages) data =
     (case repo_lookup repo (st_operation stage) of
        None \<Rightarrow> Inl (''unknown SDS function: '' @ st_operation stage)
      | Some fn \<Rightarrow>
          (case fn data (st_args stage) of
             Inl e \<Rightarrow> Inl e | Inr out \<Rightarrow> run_chain repo stages out))"

lemma chained_from_Cons:
  "chained_from i (s # ss) \<Longrightarrow> st_input_stage s = int i - 1 \<and> (ss \<noteq> [] \<longrightarrow> chained_from (Suc i) ss)"
  unfolding chained_from_def
  by (fastforce simp: nth_Cons' split: if_splits)

lemma exec_stages_chain:
  assumes "chained_from i stages" "length outputs = i"
    "data = (if i = 0 then src else last outputs)"
  shows "(case exec_stages repo src i stages outputs of
            Inl e \<Rightarrow> Inl e
          | Inr outs \<Rightarrow> Inr (if stages = [] then data else last outs))
         = run_chain repo stages data"
  using assms
proof (induction stages arbitrary: i outputs data)
  case Nil
  then show ?case by simp
next
  case (Cons s ss)
  note ch = chained_from_Cons [OF Cons.prems(1)]
  have src: "stage_source src outputs i s = Inr data"
  proof (cases "i = 0")
    case True
    then show ?thesis using ch Cons.prems by (simp add: stage_source_def)
  next
    case False
    then have "outputs \<noteq> []" using Cons.prems(2) by auto
    then have "outputs ! (i - 1) = last outputs" using Cons.prems(2) by (simp add: last_conv_nth)
    moreover have "nat (int i - 1) = i - 1" by simp
    ultimately show ?thesis using ch False Cons.prems by (simp add: stage_source_def)
  qed
  show ?case
  proof (cases "repo_lookup repo (st_operation s)")
    case None
    then show ?thesis by simp
  next
    case (Some fn)
    show ?thesis
    proof (cases "fn data (st_args s)")
      case (Inl e)
      then show ?thesis using Some src by simp
    next
      case (Inr out)
      show ?thesis
      proof (cases "ss = []")
        case True
        then show ?thesis using Some src Inr by simp
      next
        case False
        then have "(case exec_stages repo src (Suc i) ss (outputs @ [out]) of
            Inl e \<Rightarrow> Inl e | Inr outs \<Rightarrow> Inr (if ss = [] then out else last outs))
          = run_chain repo ss out"
          using ch Cons.prems(2) by (intro Cons.IH) auto
        then show ?thesis using Some src Inr False by (simp split: sum.splits)
      qed
    qed
  qed
qed

lemma final_output_last:
  assumes "stages \<noteq> []" "length outs = length stages" "st_output_stage (last stages) < 0"
  shows "final_output stages outs = last outs"
proof -
  obtain s ss where "stages = ss @ [s]" using assms(1) by (metis append_butlast_last_id)
  moreover obtain out os where "outs = os @ [out]"
    using assms(1,2) by (metis append_butlast_last_id length_0_conv)
  ultimately show ?thesis using assms by (simp add: final_output_def)
qed

text \<open>
  C8: A pipeline wired as a chain computes the composition of its functions: the output of each
  stage is the input of the next, the first error (an unknown function, or a stage's own) ends
  the run and is the result, and the last stage's output is delivered.
\<close>

theorem execute_chain:
  assumes "chained_from 0 p"
  shows "execute_pipeline p input repo = run_chain repo p input"
proof (cases "p = []")
  case True
  then show ?thesis by (simp add: execute_pipeline_def)
next
  case False
  have last: "st_output_stage (last p) < 0"
    using assms False by (simp add: chained_from_def)
  have run: "(case exec_stages repo input 0 p [] of
            Inl e \<Rightarrow> Inl e
          | Inr outs \<Rightarrow> Inr (if p = [] then input else last outs))
         = run_chain repo p input"
    using assms by (intro exec_stages_chain) auto
  show ?thesis
  proof (cases "exec_stages repo input 0 p []")
    case (Inl e)
    then show ?thesis using run False by (simp add: execute_pipeline_def)
  next
    case (Inr outs)
    then have "final_output p outs = last outs"
      using exec_stages_length [OF Inr] False last by (intro final_output_last) auto
    then show ?thesis using run False Inr by (simp add: execute_pipeline_def)
  qed
qed

definition rle_pipeline :: pipeline where
  "rle_pipeline =
     [\<lparr>st_operation = ''builtin://compress_rle'', st_args = [], st_input_stage = -1, st_output_stage = 1\<rparr>,
      \<lparr>st_operation = ''builtin://decompress_rle'', st_args = [], st_input_stage = 0, st_output_stage = -1\<rparr>]"

theorem execute_chain_witness:
  "execute_pipeline rle_pipeline [7, 7, 9] (register_all_builtins (\<lambda>_ _. 0) Map.empty) = Inr [7, 7, 9]"
proof -
  have "chained_from 0 rle_pipeline"
    by (auto simp: chained_from_def rle_pipeline_def less_Suc_eq nth_Cons')
  then have "execute_pipeline rle_pipeline [7, 7, 9] (register_all_builtins (\<lambda>_ _. 0) Map.empty)
    = run_chain (register_all_builtins (\<lambda>_ _. 0) Map.empty) rle_pipeline [7, 7, 9]"
    by (rule execute_chain)
  moreover have "replicate 2 x = [x, x]" for x :: u8
    by (simp add: numeral_2_eq_2)
  ultimately show ?thesis
    by (simp add: rle_pipeline_def register_all_builtins_def register_function_def repo_lookup_def
        fn_compress_rle_def fn_decompress_rle_def Let_def)
qed

end
