(* ===== verification/LabelCodec.thy ===== *)
theory LabelCodec
  imports Sds
begin

text \<open>
  Serialization of labels and completions (\<^verbatim>\<open>serialize_label_core\<close>, \<^verbatim>\<open>deserialize_label\<close>
  and the completion pair of \<^verbatim>\<open>src/labios/label.cpp\<close>). A FlatBuffers table of
  \<^verbatim>\<open>schemas/label.fbs\<close> is a record whose absent strings, vectors and sub-tables are
  \<open>None\<close>; the code decides which are present. The generated accessors return the scalar
  defaults of the schema, which are the values the code would have written, so scalars are
  plain fields. The bytes of a table are FlatBuffers' business: the functions \<open>enc\<close> and
  \<open>dec\<close>, of which the round trip asks only that \<open>dec\<close> reads back the table \<open>enc\<close> wrote.
\<close>

subsection \<open>Tables of schemas/label.fbs\<close>

datatype fb_pointer =
    FbNone
  | FbMemoryPtr u64 u64
  | FbFilePath "string option" u64 u64
  | FbNetworkEndpoint "string option" u16

record fb_continuation =
  fbc_kind :: continuation_kind
  fbc_target_channel :: "string option"
  fbc_chain_params :: "string option"
  fbc_condition :: "string option"

record fb_routing =
  fbr_worker_id :: u32
  fbr_policy :: "string option"

record fb_hop =
  fbh_component :: "string option"
  fbh_timestamp_us :: u64

record fb_aggregation =
  fba_original_ids :: "u64 list option"
  fba_merged_offset :: u64
  fba_merged_length :: u64

record fb_result =
  fbres_data_location :: "string option"
  fbres_error :: "string option"
  fbres_bytes_transferred :: u64

record fb_label =
  fb_id :: u64
  fb_type :: label_type
  fb_source :: "fb_pointer option"
  fb_destination :: "fb_pointer option"
  fb_operation :: "string option"
  fb_flags :: u32
  fb_priority :: u8
  fb_app_id :: u32
  fb_data_size :: u64
  fb_intent :: intent
  fb_ttl_seconds :: u32
  fb_isolation :: isolation
  fb_reply_to :: "string option"
  fb_file_key :: "string option"
  fb_version :: u64
  fb_durability :: durability
  fb_continuation :: "fb_continuation option"
  fb_source_uri :: "string option"
  fb_dest_uri :: "string option"
  fb_pipeline_data :: "string option"
  fb_dependencies :: "(u64 \<times> hazard_type) list option"
  fb_children :: "u64 list option"
  fb_routing :: "fb_routing option"
  fb_supertask_id :: u64
  fb_aggregation :: "fb_aggregation option"
  fb_score_snapshot :: "score_snapshot option"
  fb_hops :: "fb_hop list option"
  fb_status :: status_code
  fb_created_us :: u64
  fb_queued_us :: u64
  fb_dispatched_us :: u64
  fb_started_us :: u64
  fb_completed_us :: u64
  fb_result :: "fb_result option"

record fb_completion =
  fbcomp_label_id :: u64
  fbcomp_status :: completion_status
  fbcomp_error :: "string option"
  fbcomp_data_key :: "string option"

subsection \<open>Writing\<close>

definition maybe_string :: "string \<Rightarrow> string option" where
  "maybe_string s = (if s = [] then None else Some s)"

fun pointer_serializer :: "pointer \<Rightarrow> fb_pointer" where
  "pointer_serializer Monostate = FbNone"
| "pointer_serializer (MemoryPtr address sz) = FbMemoryPtr address sz"
| "pointer_serializer (FilePath path offset len) = FbFilePath (Some path) offset len"
| "pointer_serializer (NetworkEndpoint host port) = FbNetworkEndpoint (Some host) port"

definition serialize_label_core :: "label_data \<Rightarrow> fb_label" where
  "serialize_label_core l = \<lparr>
     fb_id = l_id l,
     fb_type = l_type l,
     fb_source = Some (pointer_serializer (l_source l)),
     fb_destination = Some (pointer_serializer (l_destination l)),
     fb_operation = maybe_string (l_operation l),
     fb_flags = l_flags l,
     fb_priority = l_priority l,
     fb_app_id = l_app_id l,
     fb_data_size = l_data_size l,
     fb_intent = l_intent l,
     fb_ttl_seconds = l_ttl_seconds l,
     fb_isolation = l_isolation l,
     fb_reply_to = maybe_string (l_reply_to l),
     fb_file_key = maybe_string (l_file_key l),
     fb_version = l_version l,
     fb_durability = l_durability l,
     fb_continuation =
       (if cont_kind (l_continuation l) = ContNone then None
        else Some \<lparr>fbc_kind = cont_kind (l_continuation l),
                   fbc_target_channel = maybe_string (cont_target_channel (l_continuation l)),
                   fbc_chain_params = maybe_string (cont_chain_params (l_continuation l)),
                   fbc_condition = maybe_string (cont_condition (l_continuation l))\<rparr>),
     fb_source_uri = maybe_string (l_source_uri l),
     fb_dest_uri = maybe_string (l_dest_uri l),
     fb_pipeline_data =
       (if l_pipeline l = [] then None else Some (serialize_pipeline (l_pipeline l))),
     fb_dependencies =
       (if l_dependencies l = [] then None
        else Some (map (\<lambda>d. (dep_label_id d, dep_hazard_type d)) (l_dependencies l))),
     fb_children = (if l_children l = [] then None else Some (l_children l)),
     fb_routing =
       (if rt_worker_id (l_routing l) = 0 \<and> rt_policy (l_routing l) = [] then None
        else Some \<lparr>fbr_worker_id = rt_worker_id (l_routing l),
                   fbr_policy = maybe_string (rt_policy (l_routing l))\<rparr>),
     fb_supertask_id = l_supertask_id l,
     fb_aggregation =
       (if agg_original_ids (l_aggregation l) = [] then None
        else Some \<lparr>fba_original_ids = Some (agg_original_ids (l_aggregation l)),
                   fba_merged_offset = agg_merged_offset (l_aggregation l),
                   fba_merged_length = agg_merged_length (l_aggregation l)\<rparr>),
     fb_score_snapshot =
       (let s = l_score_snapshot l in
        if ss_availability s \<noteq> 0 \<or> ss_capacity s \<noteq> 0 \<or> ss_load s \<noteq> 0 \<or> ss_speed s \<noteq> 0 \<or>
           ss_energy s \<noteq> 0 \<or> ss_tier s \<noteq> 0
        then Some s else None),
     fb_hops =
       (if l_hops l = [] then None
        else Some (map (\<lambda>h. \<lparr>fbh_component = Some (hop_component h),
                              fbh_timestamp_us = hop_timestamp_us h\<rparr>) (l_hops l))),
     fb_status = l_status l,
     fb_created_us = l_created_us l,
     fb_queued_us = l_queued_us l,
     fb_dispatched_us = l_dispatched_us l,
     fb_started_us = l_started_us l,
     fb_completed_us = l_completed_us l,
     fb_result =
       (let r = l_result l in
        if res_data_location r \<noteq> [] \<or> res_error r \<noteq> [] \<or> res_bytes_transferred r \<noteq> 0
        then Some \<lparr>fbres_data_location = maybe_string (res_data_location r),
                   fbres_error = maybe_string (res_error r),
                   fbres_bytes_transferred = res_bytes_transferred r\<rparr>
        else None)\<rparr>"

definition serialize_label :: "(fb_label \<Rightarrow> bytes) \<Rightarrow> label_data \<Rightarrow> bytes" where
  "serialize_label enc l = enc (serialize_label_core l)"

definition serialize_completion_core :: "completion_data \<Rightarrow> fb_completion" where
  "serialize_completion_core c = \<lparr>
     fbcomp_label_id = comp_label_id c,
     fbcomp_status = comp_status c,
     fbcomp_error = maybe_string (comp_error c),
     fbcomp_data_key = maybe_string (comp_data_key c)\<rparr>"

subsection \<open>Reading\<close>

text \<open>\<^verbatim>\<open>fb_read_string(dst, src)\<close> with \<open>dst\<close> still empty.\<close>

definition fb_read_string :: "string option \<Rightarrow> string" where
  "fb_read_string src = (case src of Some s \<Rightarrow> if length s > 0 then s else [] | None \<Rightarrow> [])"

fun deserialize_pointer :: "fb_pointer option \<Rightarrow> pointer" where
  "deserialize_pointer None = Monostate"
| "deserialize_pointer (Some (FbMemoryPtr address sz)) = MemoryPtr address sz"
| "deserialize_pointer (Some (FbFilePath path offset len)) =
     FilePath (case path of Some p \<Rightarrow> p | None \<Rightarrow> []) offset len"
| "deserialize_pointer (Some (FbNetworkEndpoint host port)) =
     NetworkEndpoint (case host of Some h \<Rightarrow> h | None \<Rightarrow> []) port"
| "deserialize_pointer (Some FbNone) = Monostate"

definition deserialize_core :: "pipeline \<Rightarrow> fb_label \<Rightarrow> label_data" where
  "deserialize_core p fb = \<lparr>
     l_id = fb_id fb,
     l_type = fb_type fb,
     l_source = deserialize_pointer (fb_source fb),
     l_destination = deserialize_pointer (fb_destination fb),
     l_operation = fb_read_string (fb_operation fb),
     l_flags = fb_flags fb,
     l_priority = fb_priority fb,
     l_app_id = fb_app_id fb,
     l_dependencies =
       (case fb_dependencies fb of None \<Rightarrow> []
        | Some ds \<Rightarrow> map (\<lambda>(i, h). \<lparr>dep_label_id = i, dep_hazard_type = h\<rparr>) ds),
     l_data_size = fb_data_size fb,
     l_intent = fb_intent fb,
     l_ttl_seconds = fb_ttl_seconds fb,
     l_isolation = fb_isolation fb,
     l_reply_to = fb_read_string (fb_reply_to fb),
     l_file_key = fb_read_string (fb_file_key fb),
     l_children = (case fb_children fb of None \<Rightarrow> [] | Some cs \<Rightarrow> cs),
     l_version = fb_version fb,
     l_durability = fb_durability fb,
     l_continuation =
       (case fb_continuation fb of None \<Rightarrow> default_continuation
        | Some c \<Rightarrow> \<lparr>cont_kind = fbc_kind c,
                     cont_target_channel = fb_read_string (fbc_target_channel c),
                     cont_chain_params = fb_read_string (fbc_chain_params c),
                     cont_condition = fb_read_string (fbc_condition c)\<rparr>),
     l_source_uri = fb_read_string (fb_source_uri fb),
     l_dest_uri = fb_read_string (fb_dest_uri fb),
     l_pipeline = p,
     l_routing =
       (case fb_routing fb of None \<Rightarrow> default_routing
        | Some r \<Rightarrow> \<lparr>rt_worker_id = fbr_worker_id r, rt_policy = fb_read_string (fbr_policy r)\<rparr>),
     l_supertask_id = fb_supertask_id fb,
     l_aggregation =
       (case fb_aggregation fb of None \<Rightarrow> default_aggregation
        | Some a \<Rightarrow> \<lparr>agg_original_ids = (case fba_original_ids a of None \<Rightarrow> [] | Some ids \<Rightarrow> ids),
                     agg_merged_offset = fba_merged_offset a,
                     agg_merged_length = fba_merged_length a\<rparr>),
     l_score_snapshot = (case fb_score_snapshot fb of None \<Rightarrow> default_score | Some s \<Rightarrow> s),
     l_hops =
       (case fb_hops fb of None \<Rightarrow> []
        | Some hs \<Rightarrow> map (\<lambda>h. \<lparr>hop_component = fb_read_string (fbh_component h),
                               hop_timestamp_us = fbh_timestamp_us h\<rparr>) hs),
     l_status = fb_status fb,
     l_created_us = fb_created_us fb,
     l_queued_us = fb_queued_us fb,
     l_dispatched_us = fb_dispatched_us fb,
     l_started_us = fb_started_us fb,
     l_completed_us = fb_completed_us fb,
     l_result =
       (case fb_result fb of None \<Rightarrow> default_result
        | Some r \<Rightarrow> \<lparr>res_data_location = fb_read_string (fbres_data_location r),
                     res_error = fb_read_string (fbres_error r),
                     res_bytes_transferred = fbres_bytes_transferred r\<rparr>)\<rparr>"

text \<open>Only the embedded pipeline can make \<^verbatim>\<open>deserialize_label\<close> throw.\<close>

definition deserialize_label_table :: "fb_label \<Rightarrow> label_data result" where
  "deserialize_label_table fb =
     (case fb_pipeline_data fb of
        Some s \<Rightarrow>
          if length s > 0
          then (case deserialize_pipeline s of
                  Inl e \<Rightarrow> Inl e | Inr p \<Rightarrow> Inr (deserialize_core p fb))
          else Inr (deserialize_core [] fb)
      | None \<Rightarrow> Inr (deserialize_core [] fb))"

definition deserialize_label :: "(bytes \<Rightarrow> fb_label) \<Rightarrow> bytes \<Rightarrow> label_data result" where
  "deserialize_label dec buf = deserialize_label_table (dec buf)"

definition deserialize_completion_core :: "fb_completion \<Rightarrow> completion_data" where
  "deserialize_completion_core fb = \<lparr>
     comp_label_id = fbcomp_label_id fb,
     comp_status = fbcomp_status fb,
     comp_error = fb_read_string (fbcomp_error fb),
     comp_data_key = fb_read_string (fbcomp_data_key fb)\<rparr>"

subsection \<open>Round trip\<close>

text \<open>
  What the wire format forgets: the texts of a continuation of kind None, and the merged range
  of a label that aggregates nothing.
\<close>

definition wire_form :: "label_data \<Rightarrow> label_data" where
  "wire_form l =
     l\<lparr>l_continuation :=
         (if cont_kind (l_continuation l) = ContNone then default_continuation else l_continuation l),
       l_aggregation :=
         (if agg_original_ids (l_aggregation l) = [] then default_aggregation else l_aggregation l)\<rparr>"

lemma fb_read_maybe [simp]: "fb_read_string (maybe_string s) = s"
  by (simp add: fb_read_string_def maybe_string_def)

lemma fb_read_Some [simp]: "fb_read_string (Some s) = s"
  by (simp add: fb_read_string_def)

lemma deserialize_serialize_pointer [simp]: "deserialize_pointer (Some (pointer_serializer p)) = p"
  by (cases p) auto

lemma serialize_pipeline_empty [simp]: "serialize_pipeline p = [] \<longleftrightarrow> p = []"
  by (cases p rule: serialize_pipeline.cases) auto

lemma dependency_eta [simp]:
  "\<lparr>dep_label_id = dep_label_id d, dep_hazard_type = dep_hazard_type d\<rparr> = d"
  by (cases d) simp

lemma hop_eta [simp]:
  "\<lparr>hop_component = hop_component h, hop_timestamp_us = hop_timestamp_us h\<rparr> = h"
  by (cases h) simp

lemma deserialize_core_serialize:
  "deserialize_core (l_pipeline l) (serialize_label_core l) = wire_form l"
  by (cases l)
     (simp add: deserialize_core_def serialize_label_core_def wire_form_def default_defs comp_def
       Let_def)

lemma label_table_roundtrip:
  assumes "\<forall>s \<in> set (l_pipeline l). stage_wf s"
  shows "deserialize_label_table (serialize_label_core l) = Inr (wire_form l)"
proof -
  have p: "fb_pipeline_data (serialize_label_core l) =
      (if l_pipeline l = [] then None else Some (serialize_pipeline (l_pipeline l)))"
    by (simp add: serialize_label_core_def)
  have "deserialize_pipeline (serialize_pipeline (l_pipeline l)) = Inr (l_pipeline l)"
    using assms by (rule pipeline_text_roundtrip)
  then show ?thesis
    using deserialize_core_serialize [of l]
    by (cases "l_pipeline l = []") (auto simp: deserialize_label_table_def p)
qed

lemma wire_form_id:
  "wire_form l = l \<longleftrightarrow>
     (cont_kind (l_continuation l) = ContNone \<longrightarrow> l_continuation l = default_continuation) \<and>
     (agg_original_ids (l_aggregation l) = [] \<longrightarrow> l_aggregation l = default_aggregation)"
  by (cases l) (auto simp: wire_form_def)

text \<open>
  C10: A serialized label is read back field for field: identity, pointers, payload description,
  pipeline, dependencies, children, routing, hops, timestamps, result. Only the unused texts of
  a continuation of kind None and the range of an empty aggregation are reset. FlatBuffers must
  read back the table it wrote, and the pipeline's texts must hold no separator.
\<close>

theorem label_roundtrip:
  assumes "dec (enc (serialize_label_core l)) = serialize_label_core l"
    and "\<forall>s \<in> set (l_pipeline l). stage_wf s"
  shows "deserialize_label dec (serialize_label enc l) = Inr (wire_form l)"
  using assms by (simp add: deserialize_label_def serialize_label_def label_table_roundtrip)

definition sample_label :: label_data where
  "sample_label = default_label\<lparr>
     l_id := 42, l_destination := FilePath ''/d/x'' 4096 512, l_data_size := 512,
     l_pipeline := sample_pipeline, l_reply_to := ''_INBOX.1'', l_children := [7, 9],
     l_dependencies := [\<lparr>dep_label_id = 7, dep_hazard_type = WAW\<rparr>],
     l_hops := [\<lparr>hop_component = ''shuffler'', hop_timestamp_us = 5\<rparr>]\<rparr>"

theorem label_roundtrip_witness:
  "deserialize_label (\<lambda>_. serialize_label_core sample_label)
     (serialize_label (\<lambda>_. [1, 2, 3]) sample_label) = Inr sample_label"
proof -
  have "deserialize_label (\<lambda>_. serialize_label_core sample_label)
     (serialize_label (\<lambda>_. [1, 2, 3]) sample_label) = Inr (wire_form sample_label)"
    by (rule label_roundtrip)
       (simp_all add: sample_label_def default_defs sample_pipeline_def stage_wf_def int32_def)
  then show ?thesis
    by (simp add: wire_form_id) (simp add: wire_form_def sample_label_def default_defs)
qed

lemma completion_table_roundtrip [simp]:
  "deserialize_completion_core (serialize_completion_core c) = c"
  by (cases c) (simp add: deserialize_completion_core_def serialize_completion_core_def)

end
