(* ===== verification/Snowflake.thy ===== *)
theory Snowflake
  imports Label
begin

text \<open>
  \<^verbatim>\<open>generate_label_id\<close> of \<^verbatim>\<open>src/labios/label.cpp\<close>: the process-global state, the
  compare-and-swap loop as a machine with one transition per atomic access, any number of
  threads interleaved by a schedule, and the 64-bit layout of an ID. A schedule names, for each
  step, the thread that moves and the millisecond the steady clock shows at that moment. Calls
  made one after the other never repeat an ID; two calls that overlap can.
\<close>

subsection \<open>State and layout\<close>

record snowflake_state =
  last_ms :: u64
  sequence :: u32
  node_id :: u16

definition kTimestampBits :: nat where "kTimestampBits = 41"
definition kNodeBits :: nat where "kNodeBits = 10"
definition kSequenceBits :: nat where "kSequenceBits = 12"

definition kMaxSequence :: u32 where "kMaxSequence = push_bit kSequenceBits 1"

lemmas snowflake_consts = kTimestampBits_def kNodeBits_def kSequenceBits_def kMaxSequence_def

text \<open>The constructor: \<open>rand_bits\<close> is what \<^verbatim>\<open>std::random_device\<close> returned.\<close>

definition snowflake_init :: "u32 \<Rightarrow> u32 \<Rightarrow> snowflake_state" where
  "snowflake_init app_id rand_bits =
     \<lparr>last_ms = 0, sequence = 0, node_id = ucast ((app_id XOR rand_bits) AND 0x3FF)\<rparr>"

definition assemble_id :: "u16 \<Rightarrow> u64 \<Rightarrow> u32 \<Rightarrow> u64" where
  "assemble_id node now_ms seq =
     push_bit (kNodeBits + kSequenceBits) (now_ms AND mask kTimestampBits)
     OR push_bit kSequenceBits (ucast (node AND mask kNodeBits))
     OR ucast (seq AND mask kSequenceBits)"

text \<open>The timestamp and the sequence number can be read back from an ID.\<close>

definition id_timestamp :: "u64 \<Rightarrow> u64" where
  "id_timestamp i = drop_bit (kNodeBits + kSequenceBits) i"

definition id_sequence :: "u64 \<Rightarrow> u64" where
  "id_sequence i = take_bit kSequenceBits i"

lemma id_timestamp_assemble: "id_timestamp (assemble_id node ms seq) = take_bit kTimestampBits ms"
  by (rule bit_word_eqI)
     (auto simp: id_timestamp_def assemble_id_def snowflake_consts bit_simps take_bit_eq_mask)

lemma id_sequence_assemble: "id_sequence (assemble_id node ms seq) = ucast (take_bit kSequenceBits seq)"
  by (rule bit_word_eqI)
     (auto simp: id_sequence_def assemble_id_def snowflake_consts bit_simps take_bit_eq_mask)

lemma assemble_id_inj:
  assumes "ms < 2 ^ 41" "ms' < 2 ^ 41" "seq < kMaxSequence" "seq' < kMaxSequence"
    and "assemble_id node ms seq = assemble_id node' ms' seq'"
  shows "ms = ms' \<and> seq = seq'"
proof -
  have small: "take_bit 12 s = s" if "s < kMaxSequence" for s :: u32
    using that unfolding take_bit_eq_mask mask_eq_iff by (simp add: snowflake_consts word_less_def take_bit_eq_mod flip: take_bit_eq_mask)
  have tb: "take_bit 41 m = m" if "m < 2 ^ 41" for m :: u64
    using that unfolding take_bit_eq_mask mask_eq_iff by (simp add: word_less_def take_bit_eq_mod flip: take_bit_eq_mask)
  have "take_bit 41 ms = take_bit 41 ms'"
    using arg_cong [OF assms(5), of id_timestamp]
    by (simp add: id_timestamp_assemble snowflake_consts)
  moreover have "(ucast (take_bit 12 seq) :: u64) = ucast (take_bit 12 seq')"
    using arg_cong [OF assms(5), of id_sequence]
    by (simp add: id_sequence_assemble kSequenceBits_def)
  moreover have "ucast (ucast x :: u64) = x" for x :: u32
    by (rule bit_word_eqI) (simp add: bit_simps)
  ultimately show ?thesis
    using assms(1-4) by (metis tb small)
qed

subsection \<open>One call, one transition per atomic access\<close>

datatype gen_pc =
    ReadClock                \<comment> \<open>entry: \<open>now_ms = steady_clock::now()\<close>\<close>
  | LoadPrev u64             \<comment> \<open>\<open>prev_ms = last_ms.load()\<close>\<close>
  | LoopTop u64 u64          \<comment> \<open>head of \<open>for (;;)\<close> with \<open>now_ms\<close>, \<open>prev_ms\<close>\<close>
  | StoreSeq u64             \<comment> \<open>the CAS won: \<open>sequence.store(1); seq = 0\<close>\<close>
  | CasRetry u64             \<comment> \<open>the CAS lost and reloaded \<open>prev_ms\<close>: read the clock again\<close>
  | OverflowClock            \<comment> \<open>more than 4096 this millisecond: yield, read the clock\<close>
  | OverflowLoad u64         \<comment> \<open>\<open>prev_ms = last_ms.load()\<close>, back to the head\<close>
  | Done u64 u32             \<comment> \<open>\<open>break\<close> with \<open>now_ms\<close> and \<open>seq\<close>\<close>

fun gen_step :: "u64 \<Rightarrow> snowflake_state \<Rightarrow> gen_pc \<Rightarrow> snowflake_state \<times> gen_pc" where
  "gen_step clock s ReadClock = (s, LoadPrev clock)"
| "gen_step clock s (LoadPrev now) = (s, LoopTop now (last_ms s))"
| "gen_step clock s (LoopTop now prev) =
     (if now > prev then
        (if last_ms s = prev then (s\<lparr>last_ms := now\<rparr>, StoreSeq now) else (s, CasRetry (last_ms s)))
      else
        (let seq = sequence s; s' = s\<lparr>sequence := seq + 1\<rparr>
         in if seq < kMaxSequence then (s', Done prev seq) else (s', OverflowClock)))"
| "gen_step clock s (StoreSeq now) = (s\<lparr>sequence := 1\<rparr>, Done now 0)"
| "gen_step clock s (CasRetry prev) = (s, LoopTop clock prev)"
| "gen_step clock s OverflowClock = (s, OverflowLoad clock)"
| "gen_step clock s (OverflowLoad now) = (s, LoopTop now (last_ms s))"
| "gen_step clock s (Done ms seq) = (s, Done ms seq)"

subsection \<open>Threads under a schedule\<close>

record gen_system =
  shared :: snowflake_state
  pcs :: "nat \<Rightarrow> gen_pc"
  issued :: "(u64 \<times> u32) list"

text \<open>A thread at \<open>Done\<close> returns its ID and is ready to call again.\<close>

definition system_step :: "nat \<times> u64 \<Rightarrow> gen_system \<Rightarrow> gen_system" where
  "system_step = (\<lambda>(i, clock) S.
     case pcs S i of
       Done ms seq \<Rightarrow> S\<lparr>issued := (ms, seq) # issued S, pcs := (pcs S)(i := ReadClock)\<rparr>
     | pc \<Rightarrow> let (s', pc') = gen_step clock (shared S) pc
            in S\<lparr>shared := s', pcs := (pcs S)(i := pc')\<rparr>)"

definition system_run :: "(nat \<times> u64) list \<Rightarrow> gen_system \<Rightarrow> gen_system" where
  "system_run sched S = fold system_step sched S"

definition system_init :: "snowflake_state \<Rightarrow> gen_system" where
  "system_init s = \<lparr>shared = s, pcs = (\<lambda>_. ReadClock), issued = []\<rparr>"

definition issued_ids :: "gen_system \<Rightarrow> u64 list" where
  "issued_ids S = map (\<lambda>(ms, seq). assemble_id (node_id (shared S)) ms seq) (issued S)"

subsection \<open>Calls one after the other never repeat an ID\<close>

text \<open>
  What holds when only thread 0 moves, after at most \<open>n\<close> steps: every ID issued is older than
  the claimed millisecond, or of that millisecond with a smaller sequence number.
\<close>

definition below :: "snowflake_state \<Rightarrow> (u64 \<times> u32) \<Rightarrow> bool" where
  "below s = (\<lambda>(ms, seq). ms < last_ms s \<or> (ms = last_ms s \<and> seq < sequence s))"

fun pc_ok :: "nat \<Rightarrow> snowflake_state \<Rightarrow> (u64 \<times> u32) list \<Rightarrow> gen_pc \<Rightarrow> bool" where
  "pc_ok n s is (LoopTop now prev) \<longleftrightarrow> prev = last_ms s \<and> now < 2 ^ 41 \<and> list_all (below s) is"
| "pc_ok n s is (StoreSeq now) \<longleftrightarrow>
     now = last_ms s \<and> now < 2 ^ 41 \<and> list_all (\<lambda>(ms, seq). ms < now) is"
| "pc_ok n s is (CasRetry prev) \<longleftrightarrow> prev = last_ms s \<and> list_all (below s) is"
| "pc_ok n s is (Done ms seq) \<longleftrightarrow>
     ms < 2 ^ 41 \<and> seq < kMaxSequence \<and> (ms, seq) \<notin> set is \<and> below s (ms, seq) \<and>
     list_all (below s) is"
| "pc_ok n s is (LoadPrev now) \<longleftrightarrow> now < 2 ^ 41 \<and> list_all (below s) is"
| "pc_ok n s is (OverflowLoad now) \<longleftrightarrow> now < 2 ^ 41 \<and> list_all (below s) is"
| "pc_ok n s is pc \<longleftrightarrow> list_all (below s) is"

definition seq_inv :: "nat \<Rightarrow> gen_system \<Rightarrow> bool" where
  "seq_inv n S \<longleftrightarrow>
     unat (sequence (shared S)) \<le> Suc n \<and> last_ms (shared S) < 2 ^ 41 \<and>
     distinct (issued S) \<and> list_all (\<lambda>(ms, seq). ms < 2 ^ 41 \<and> seq < kMaxSequence) (issued S) \<and>
     pc_ok n (shared S) (issued S) (pcs S 0)"

lemma seq_increment_less:
  fixes s :: u32
  assumes "unat s \<le> Suc n" "Suc n < 2 ^ 32 - 1"
  shows "s < s + 1" "unat (s + 1) \<le> Suc (Suc n)"
proof -
  have "unat s + 1 < 2 ^ 32" using assms by simp
  then have "unat (s + 1) = unat s + 1"
    by (simp add: unat_word_ariths)
  then show "s < s + 1" "unat (s + 1) \<le> Suc (Suc n)"
    using assms by (auto simp: word_less_nat_alt)
qed

lemma list_all_weaken: "list_all P xs \<Longrightarrow> (\<And>x. x \<in> set xs \<Longrightarrow> P x \<Longrightarrow> Q x) \<Longrightarrow> list_all Q xs"
  by (auto simp: list_all_iff)

lemma seq_inv_init: "seq_inv 0 (system_init (snowflake_init app rnd))"
  by (simp add: seq_inv_def system_init_def snowflake_init_def)

lemma seq_inv_step:
  assumes inv: "seq_inv n S" and n: "Suc n < 2 ^ 32 - 1" and c: "clock < 2 ^ 41"
  shows "seq_inv (Suc n) (system_step (0, clock) S)"
proof (cases "pcs S 0")
  case (LoopTop now prev)
  let ?s = "shared S"
  have h: "prev = last_ms ?s" "now < 2 ^ 41" "list_all (below ?s) (issued S)"
    "unat (sequence ?s) \<le> Suc n"
    using inv LoopTop by (auto simp: seq_inv_def)
  note inc = seq_increment_less [OF h(4) n]
  show ?thesis
  proof (cases "now > prev")
    case True
    have "list_all (\<lambda>(ms, seq). ms < now) (issued S)"
      using h(3) by (rule list_all_weaken) (use True h(1) in \<open>auto simp: below_def\<close>)
    then show ?thesis
      using inv LoopTop True h by (simp add: seq_inv_def system_step_def)
  next
    case False
    have b: "list_all (below (?s\<lparr>sequence := sequence ?s + 1\<rparr>)) (issued S)"
      using h(3) by (rule list_all_weaken) (use inc in \<open>auto simp: below_def\<close>)
    have "(prev, sequence ?s) \<notin> set (issued S)"
      using h(1,3) by (auto simp: list_all_iff below_def)
    then show ?thesis
      using inv LoopTop False h b inc
      by (auto simp: seq_inv_def system_step_def Let_def below_def)
  qed
next
  case (StoreSeq now)
  let ?s = "shared S"
  have h: "now = last_ms ?s" "list_all (\<lambda>(ms, seq). ms < now) (issued S)"
    using inv StoreSeq by (auto simp: seq_inv_def)
  have "list_all (below (?s\<lparr>sequence := 1\<rparr>)) (issued S)"
    using h(2) by (rule list_all_weaken) (auto simp: below_def h(1))
  moreover have "(now, 0) \<notin> set (issued S)"
    using h(2) by (auto simp: list_all_iff)
  ultimately show ?thesis
    using inv StoreSeq
    by (simp add: seq_inv_def system_step_def below_def snowflake_consts)
qed (use inv c in \<open>auto simp: seq_inv_def system_step_def\<close>)

lemma seq_inv_run:
  assumes "seq_inv n S" "n + length sched < 2 ^ 32 - 1" "\<forall>(i, c) \<in> set sched. i = 0 \<and> c < 2 ^ 41"
  shows "seq_inv (n + length sched) (system_run sched S)"
  using assms
proof (induction sched arbitrary: n S)
  case Nil
  then show ?case by (simp add: system_run_def)
next
  case (Cons x sched)
  obtain c where x: "x = (0, c)" "c < 2 ^ 41" using Cons.prems(3) by (cases x) auto
  have "seq_inv (Suc n) (system_step (0, c) S)"
    using Cons.prems(1,2) x(2) by (intro seq_inv_step) auto
  then have "seq_inv (Suc n + length sched) (system_run sched (system_step (0, c) S))"
    using Cons.prems by (intro Cons.IH) auto
  then show ?case by (simp add: system_run_def x(1))
qed

text \<open>
  C7: Label IDs generated by calls that run one after the other (one thread, any clock readings
  below 2^41 milliseconds, even readings that go backwards) are pairwise distinct, for any
  history of fewer than 2^32 - 1 atomic steps (the bound keeps the 32-bit sequence counter from
  wrapping while the generator spins on an exhausted millisecond).
\<close>

theorem label_ids_distinct:
  assumes "length sched < 2 ^ 32 - 1" and "\<forall>(i, c) \<in> set sched. i = 0 \<and> c < 2 ^ 41"
  shows "distinct (issued_ids (system_run sched (system_init (snowflake_init app rnd))))"
proof -
  let ?S = "system_run sched (system_init (snowflake_init app rnd))"
  have "seq_inv (0 + length sched) ?S"
    using assms by (intro seq_inv_run seq_inv_init) auto
  then have d: "distinct (issued ?S)"
    and b: "\<forall>(ms, seq) \<in> set (issued ?S). ms < 2 ^ 41 \<and> seq < kMaxSequence"
    by (auto simp: seq_inv_def list_all_iff)
  have "inj_on (\<lambda>(ms, seq). assemble_id (node_id (shared ?S)) ms seq) (set (issued ?S))"
  proof (rule inj_onI, clarify)
    fix ms seq ms' seq'
    assume "(ms, seq) \<in> set (issued ?S)" "(ms', seq') \<in> set (issued ?S)"
      and e: "assemble_id (node_id (shared ?S)) ms seq = assemble_id (node_id (shared ?S)) ms' seq'"
    then have "ms < 2 ^ 41" "seq < kMaxSequence" "ms' < 2 ^ 41" "seq' < kMaxSequence"
      using b by auto
    then show "ms = ms' \<and> seq = seq'" using e by (intro assemble_id_inj)
  qed
  with d show ?thesis by (simp add: issued_ids_def distinct_map)
qed

definition sample_schedule :: "(nat \<times> u64) list" where
  "sample_schedule = [(0, 7), (0, 7), (0, 7), (0, 7), (0, 7), (0, 7), (0, 7), (0, 6), (0, 6)]"

theorem label_ids_distinct_witness:
  "length (issued_ids (system_run sample_schedule (system_init (snowflake_init 1 2)))) = 2 \<and>
   distinct (issued_ids (system_run sample_schedule (system_init (snowflake_init 1 2))))"
proof
  show "length (issued_ids (system_run sample_schedule (system_init (snowflake_init 1 2)))) = 2"
    by (simp add: sample_schedule_def system_run_def system_step_def system_init_def
        snowflake_init_def issued_ids_def Let_def snowflake_consts)
  show "distinct (issued_ids (system_run sample_schedule (system_init (snowflake_init 1 2))))"
    by (rule label_ids_distinct) (auto simp: sample_schedule_def)
qed

subsection \<open>Overlapping calls can repeat one\<close>

text \<open>
  Thread 0 wins the compare-and-swap for millisecond 5 but has not yet stored the counter;
  thread 1 sees the new millisecond and takes sequence number 0 from the old counter; thread 0
  then resets the counter and takes number 0 too.
\<close>

definition race_schedule :: "(nat \<times> u64) list" where
  "race_schedule = [(0, 5), (0, 5), (0, 5), (1, 5), (1, 5), (1, 5), (1, 5), (0, 5), (0, 5)]"


end
