(* ===== verification/Shuffler.thy ===== *)
theory Shuffler
  imports Sds
begin

text \<open>
  The shuffler of \<^verbatim>\<open>src/labios/shuffler.cpp\<close>: aggregation of consecutive writes, detection of
  RAW/WAW/WAR hazards, formation of supertasks, read-locality routing, and the packing of a
  supertask's children. The location lookup is a parameter (\<open>None\<close> for an empty
  \<^verbatim>\<open>std::function\<close>). \<^verbatim>\<open>std::sort\<close> is a stable sort by key (C++ leaves the order of equal
  keys open; libstdc++ is stable up to 16 elements).
\<close>

subsection \<open>Ranges and hazards\<close>

record offset_range =
  r_offset :: u64
  r_length :: u64

definition get_range :: "pointer \<Rightarrow> offset_range" where
  "get_range p =
     (case p of FilePath path offset len \<Rightarrow> \<lparr>r_offset = offset, r_length = len\<rparr>
      | _ \<Rightarrow> \<lparr>r_offset = 0, r_length = 0\<rparr>)"

definition label_range :: "label_data \<Rightarrow> offset_range" where
  "label_range l =
     (if l_type l = Write \<or> l_type l = Delete \<or> l_type l = Flush then get_range (l_destination l)
      else get_range (l_source l))"

definition ranges_overlap :: "offset_range \<Rightarrow> offset_range \<Rightarrow> bool" where
  "ranges_overlap a b \<longleftrightarrow>
     (if r_length a = 0 \<or> r_length b = 0 then False
      else r_offset a < r_offset b + r_length b \<and> r_offset b < r_offset a + r_length a)"

definition group_key :: "string \<Rightarrow> label_data \<Rightarrow> string" where
  "group_key granularity l =
     (if granularity = ''per-application'' then nat_to_string (unat (l_app_id l)) else l_file_key l)"

record shuffler_config =
  aggregation_enabled :: bool
  dep_granularity :: string

record supertask =
  composite :: label_data
  st_children :: "label_data list"

type_synonym fanout = "u64 \<rightharpoonup> string list"

record shuffle_result =
  direct_route :: "(label_data \<times> int) list"
  supertasks :: "supertask list"
  independent :: "label_data list"
  reply_fanout :: fanout

subsection \<open>Aggregation\<close>

abbreviation dest_offset :: "label_data \<Rightarrow> u64" where
  "dest_offset l \<equiv> r_offset (get_range (l_destination l))"

text \<open>The longest run of writes each starting where the one before ends.\<close>

fun take_run :: "u64 \<Rightarrow> label_data list \<Rightarrow> label_data list \<times> label_data list" where
  "take_run run_end [] = ([], [])"
| "take_run run_end (w # ws) =
     (if dest_offset w = run_end
      then (let (run, rest) = take_run (dest_offset w + l_data_size w) ws in (w # run, rest))
      else ([], w # ws))"

definition merge_run :: "label_data \<Rightarrow> label_data list \<Rightarrow> label_data" where
  "merge_run first run =
     (let total_size = foldl (+) 0 (map l_data_size (first # run));
          child_ids = map l_id (first # run);
          dest_path = (case l_destination first of FilePath p _ _ \<Rightarrow> p | _ \<Rightarrow> [])
      in default_label\<lparr>
           l_id := l_id first,
           l_type := Write,
           l_destination := file_path_range dest_path (dest_offset first) total_size,
           l_data_size := total_size,
           l_children := child_ids,
           l_reply_to := l_reply_to first,
           l_aggregation := \<lparr>agg_original_ids = child_ids, agg_merged_offset = dest_offset first,
                             agg_merged_length = total_size\<rparr>,
           l_file_key := l_file_key first,
           l_app_id := l_app_id first,
           l_flags := l_flags first,
           l_priority := l_priority first,
           l_intent := l_intent first,
           l_ttl_seconds := l_ttl_seconds first,
           l_isolation := l_isolation first,
           l_source := l_source first,
           l_operation := l_operation first\<rparr>)"

definition run_replies :: "label_data list \<Rightarrow> string list" where
  "run_replies run = filter (\<lambda>r. r \<noteq> []) (map l_reply_to run)"

lemma take_run_length: "length (snd (take_run e ws)) \<le> length ws"
  by (induction e ws rule: take_run.induct) (auto split: prod.splits)

function merge_writes :: "label_data list \<Rightarrow> fanout \<Rightarrow> label_data list \<times> fanout" where
  "merge_writes [] fo = ([], fo)"
| "merge_writes (w # ws) fo =
     (let (run, rest) = take_run (dest_offset w + l_data_size w) ws in
      if run = [] then (let (out, fo') = merge_writes rest fo in (w # out, fo'))
      else let merged = merge_run w run;
               replies = run_replies (w # run);
               fo1 = (if length replies > 1 then fo(l_id merged \<mapsto> replies) else fo);
               (out, fo') = merge_writes rest fo1
           in (merged # out, fo'))"
  by pat_completeness auto
termination
proof (relation "measure (\<lambda>(ws, fo). length ws)", goal_cases)
  case 1
  show ?case by simp
next
  case (2 w ws fo x y z)
  then show ?case using take_run_length [of "dest_offset w + l_data_size w" ws]
    by (metis case_prod_conv in_measure le_imp_less_Suc length_Cons snd_conv)
next
  case (3 w ws fo x y z)
  then show ?case using take_run_length [of "dest_offset w + l_data_size w" ws]
    by (metis case_prod_conv in_measure le_imp_less_Suc length_Cons snd_conv)
qed

definition aggregate_group :: "label_data list \<Rightarrow> fanout \<Rightarrow> label_data list \<times> fanout" where
  "aggregate_group grp fo =
     (let others = filter (\<lambda>l. l_type l \<noteq> Write) grp;
          writes = sort_key dest_offset (filter (\<lambda>l. l_type l = Write) grp);
          (merged, fo') = merge_writes writes fo
      in (others @ merged, fo'))"

fun aggregate_groups ::
    "(string \<times> label_data list) list \<Rightarrow> fanout \<Rightarrow> label_data list \<times> fanout" where
  "aggregate_groups [] fo = ([], fo)"
| "aggregate_groups ((key, grp) # gs) fo =
     (let (out, fo1) = aggregate_group grp fo; (out', fo2) = aggregate_groups gs fo1
      in (out @ out', fo2))"

definition aggregate :: "shuffler_config \<Rightarrow> label_data list \<Rightarrow> label_data list \<times> fanout" where
  "aggregate cfg labels =
     (if \<not> aggregation_enabled cfg then (labels, Map.empty)
      else aggregate_groups (group_by l_file_key labels) Map.empty)"

subsection \<open>Dependency detection\<close>

definition hazard :: "label_data \<Rightarrow> label_data \<Rightarrow> hazard_type option" where
  "hazard earlier later =
     (if \<not> ranges_overlap (label_range earlier) (label_range later) then None
      else if l_type earlier = Read \<and> l_type later = Read then None
      else if l_type earlier = Write \<and> l_type later = Read then Some RAW
      else if l_type earlier = Write \<and> l_type later = Write then Some WAW
      else Some WAR)"

definition dependency_on :: "label_data \<Rightarrow> hazard_type \<Rightarrow> label_dependency" where
  "dependency_on earlier h = \<lparr>dep_label_id = l_id earlier, dep_hazard_type = h\<rparr>"

definition add_dependency :: "nat \<times> nat \<Rightarrow> label_data list \<Rightarrow> label_data list" where
  "add_dependency = (\<lambda>(i, j) labels.
     case hazard (labels ! i) (labels ! j) of
       None \<Rightarrow> labels
     | Some h \<Rightarrow> labels[j := (labels ! j)\<lparr>l_dependencies := l_dependencies (labels ! j) @
                   [dependency_on (labels ! i) h]\<rparr>])"

text \<open>One group: sort its indices by label ID, then compare every pair.\<close>

definition detect_group :: "nat list \<Rightarrow> label_data list \<Rightarrow> label_data list" where
  "detect_group indices labels =
     fold add_dependency (ordered_pairs (sort_key (\<lambda>i. l_id (labels ! i)) indices)) labels"

definition detect_dependencies :: "string \<Rightarrow> label_data list \<Rightarrow> label_data list" where
  "detect_dependencies granularity labels =
     fold (\<lambda>(key, indices). detect_group indices)
       (group_by (\<lambda>i. group_key granularity (labels ! i)) [0..<length labels]) labels"

subsection \<open>Supertasks\<close>

definition involved_ids :: "label_data list \<Rightarrow> u64 set" where
  "involved_ids labels =
     (\<Union>l \<in> set labels. if l_dependencies l \<noteq> []
                        then insert (l_id l) (dep_label_id ` set (l_dependencies l)) else {})"

definition make_supertask :: "label_data list \<Rightarrow> supertask" where
  "make_supertask grp =
     (let grp = sort_key l_id grp; first = hd grp;
          comp = default_label\<lparr>l_id := l_id first, l_type := Composite,
                   l_file_key := l_file_key first, l_app_id := l_app_id first,
                   l_priority := l_priority first, l_flags := l_flags first,
                   l_children := map l_id grp\<rparr>
      in \<lparr>composite = comp,
          st_children = map (\<lambda>c. c\<lparr>l_supertask_id := l_id comp\<rparr>) grp\<rparr>)"

definition build_supertasks ::
    "string \<Rightarrow> label_data list \<Rightarrow> supertask list \<times> label_data list" where
  "build_supertasks granularity labels =
     (let inv = involved_ids labels;
          dependent = filter (\<lambda>l. l_id l \<in> inv) labels;
          indep = filter (\<lambda>l. l_id l \<notin> inv) labels
      in (map (\<lambda>(key, grp). make_supertask grp) (group_by (group_key granularity) dependent),
          indep))"

subsection \<open>The pipeline\<close>

type_synonym location_lookup = "string \<Rightarrow> u64 \<Rightarrow> u64 \<Rightarrow> int option"

fun route_reads ::
    "location_lookup option \<Rightarrow> label_data list \<Rightarrow> (label_data \<times> int) list \<times> label_data list" where
  "route_reads lookup [] = ([], [])"
| "route_reads lookup (l # ls) =
     (let (direct, indep) = route_reads lookup ls;
          loc = (case lookup of
                   Some f \<Rightarrow> if l_type l = Read
                             then f (l_file_key l) (r_offset (label_range l)) (r_length (label_range l))
                             else None
                 | None \<Rightarrow> None)
      in case loc of Some w \<Rightarrow> ((l, w) # direct, indep) | None \<Rightarrow> (direct, l # indep))"

definition shuffle ::
    "shuffler_config \<Rightarrow> label_data list \<Rightarrow> location_lookup option \<Rightarrow> shuffle_result" where
  "shuffle cfg batch lookup =
     (let (remaining, fo) = aggregate cfg batch;
          remaining = detect_dependencies (dep_granularity cfg) remaining;
          (tasks, remaining) = build_supertasks (dep_granularity cfg) remaining;
          (direct, indep) = route_reads lookup remaining
      in \<lparr>direct_route = direct, supertasks = tasks, independent = indep, reply_fanout = fo\<rparr>)"

subsection \<open>Aggregation keeps every label and every byte\<close>

text \<open>The labels a label of the shuffled batch stands for.\<close>

definition origin_ids :: "label_data \<Rightarrow> u64 list" where
  "origin_ids l =
     (if agg_original_ids (l_aggregation l) = [] then [l_id l] else agg_original_ids (l_aggregation l))"

definition unmerged :: "label_data \<Rightarrow> bool" where
  "unmerged l \<longleftrightarrow> agg_original_ids (l_aggregation l) = [] \<and> l_children l = []"

lemma take_run_split: "take_run e ws = (run, rest) \<Longrightarrow> ws = run @ rest"
  by (induction e ws arbitrary: run rest rule: take_run.induct) (auto split: if_splits prod.splits)

lemma origin_ids_merge_run [simp]: "origin_ids (merge_run w run) = l_id w # map l_id run"
  by (simp add: origin_ids_def merge_run_def Let_def)

lemma merge_run_fields [simp]:
  "l_type (merge_run w run) = Write" "l_id (merge_run w run) = l_id w"
  "l_file_key (merge_run w run) = l_file_key w" "l_app_id (merge_run w run) = l_app_id w"
  "l_dependencies (merge_run w run) = []" "l_children (merge_run w run) = l_id w # map l_id run"
  by (simp_all add: merge_run_def default_label_def Let_def)

text \<open>How \<open>merge_writes\<close> unfolds, with the run named.\<close>

lemma merge_writes_Cons:
  assumes "take_run (dest_offset w + l_data_size w) ws = (run, rest)"
  shows "fst (merge_writes (w # ws) fo) =
      (if run = [] then w else merge_run w run) #
      fst (merge_writes rest
        (if length (run_replies (w # run)) > 1 \<and> run \<noteq> []
         then fo(l_id w \<mapsto> run_replies (w # run)) else fo))"
  using assms by (auto simp: Let_def split: prod.splits)

lemmas merge_writes_simps [simp del] = merge_writes.simps(2)

lemma merge_writes_ids:
  "\<forall>w \<in> set ws. unmerged w \<Longrightarrow> concat (map origin_ids (fst (merge_writes ws fo))) = map l_id ws"
proof (induction "length ws" arbitrary: ws fo rule: less_induct)
  case less
  show ?case
  proof (cases ws)
    case Nil
    then show ?thesis by simp
  next
    case (Cons w ws')
    obtain run rest where r: "take_run (dest_offset w + l_data_size w) ws' = (run, rest)"
      by fastforce
    have split: "ws' = run @ rest" using take_run_split [OF r] .
    then have "concat (map origin_ids (fst (merge_writes rest fo'))) = map l_id rest" for fo'
      using less.prems Cons by (intro less.hyps) auto
    moreover have "origin_ids w = [l_id w]"
      using less.prems Cons by (simp add: origin_ids_def unmerged_def)
    ultimately show ?thesis
      using Cons split by (auto simp: merge_writes_Cons [OF r [unfolded split]])
  qed
qed

lemma aggregate_group_ids:
  assumes "\<forall>w \<in> set grp. unmerged w"
  shows "mset (concat (map origin_ids (fst (aggregate_group grp fo)))) = mset (map l_id grp)"
proof -
  let ?ws = "sort_key dest_offset (filter (\<lambda>l. l_type l = Write) grp)"
  have a: "concat (map origin_ids (fst (merge_writes ?ws fo))) = map l_id ?ws"
    using assms by (intro merge_writes_ids) simp
  have b: "concat (map origin_ids xs) = map l_id xs" if "\<forall>x \<in> set xs. unmerged x" for xs
    using that by (induction xs) (auto simp: origin_ids_def unmerged_def)
  have "mset (filter (\<lambda>l. l_type l \<noteq> Write) grp) + mset ?ws = mset grp"
    by simp
  then have "image_mset l_id (mset (filter (\<lambda>l. l_type l \<noteq> Write) grp)) + image_mset l_id (mset ?ws)
      = image_mset l_id (mset grp)"
    by (metis image_mset_union)
  then show ?thesis
    using assms a by (simp add: aggregate_group_def Let_def split_beta b)
qed

lemma aggregate_groups_ids:
  assumes "\<forall>(k, ls) \<in> set gs. \<forall>w \<in> set ls. unmerged w"
  shows "mset (concat (map origin_ids (fst (aggregate_groups gs fo)))) =
         image_mset l_id (all_grouped gs)"
  using assms
proof (induction gs fo rule: aggregate_groups.induct)
  case (1 fo)
  then show ?case by (simp add: all_grouped_def)
next
  case (2 key grp gs fo)
  obtain out fo1 where o: "aggregate_group grp fo = (out, fo1)" by fastforce
  have "mset (concat (map origin_ids out)) = mset (map l_id grp)"
    using aggregate_group_ids [of grp fo] 2 o by simp
  with 2 o show ?case by (auto simp: all_grouped_def split: prod.splits)
qed

lemma group_by_unmerged:
  "\<forall>w \<in> set batch. unmerged w \<Longrightarrow> \<forall>(k, ls) \<in> set (group_by f batch). \<forall>w \<in> set ls. unmerged w"
  using group_by_memD(1) [of _ _ f batch] by fastforce

definition write_at :: "u64 \<Rightarrow> string \<Rightarrow> u64 \<Rightarrow> u64 \<Rightarrow> string \<Rightarrow> label_data" where
  "write_at i path off sz reply = default_label\<lparr>l_id := i, l_type := Write, l_file_key := path,
     l_destination := FilePath path off sz, l_data_size := sz, l_reply_to := reply\<rparr>"

definition read_at :: "u64 \<Rightarrow> string \<Rightarrow> u64 \<Rightarrow> u64 \<Rightarrow> label_data" where
  "read_at i path off sz = default_label\<lparr>l_id := i, l_type := Read, l_file_key := path,
     l_source := FilePath path off sz, l_data_size := sz\<rparr>"

lemmas at_defs = write_at_def read_at_def default_defs

definition default_config :: shuffler_config where
  "default_config = \<lparr>aggregation_enabled = True, dep_granularity = ''per-file''\<rparr>"

text \<open>
  A file as its bytes by offset, and what executing a write label does to it. \<open>payload\<close> is the
  data staged under each label ID; the dispatcher stages under a merged label the concatenation
  of its children's data, in their order.
\<close>

definition apply_write :: "nat \<Rightarrow> bytes \<Rightarrow> (nat \<Rightarrow> u8) \<Rightarrow> nat \<Rightarrow> u8" where
  "apply_write off data f = (\<lambda>i. if off \<le> i \<and> i < off + length data then data ! (i - off) else f i)"

definition label_payload :: "(u64 \<Rightarrow> bytes) \<Rightarrow> label_data \<Rightarrow> bytes" where
  "label_payload payload l =
     (if l_children l = [] then payload (l_id l) else concat (map payload (l_children l)))"

definition apply_label :: "(u64 \<Rightarrow> bytes) \<Rightarrow> label_data \<Rightarrow> (nat \<Rightarrow> u8) \<Rightarrow> nat \<Rightarrow> u8" where
  "apply_label payload l = apply_write (unat (dest_offset l)) (label_payload payload l)"

definition write_fits :: "(u64 \<Rightarrow> bytes) \<Rightarrow> label_data \<Rightarrow> bool" where
  "write_fits payload w \<longleftrightarrow>
     l_children w = [] \<and> length (payload (l_id w)) = unat (l_data_size w) \<and>
     unat (dest_offset w) + unat (l_data_size w) < 2 ^ 64"

lemma apply_write_append:
  "apply_write (off + length a) b (apply_write off a f) = apply_write off (a @ b) f"
  by (rule ext) (auto simp: apply_write_def nth_append)

lemma apply_run:
  assumes "take_run e ws = (run, rest)" "\<forall>w \<in> set ws. write_fits payload w"
    and "unat e = off + length a"
  shows "fold (apply_label payload) run (apply_write off a f) =
         apply_write off (a @ concat (map (\<lambda>w. payload (l_id w)) run)) f"
  using assms
proof (induction e ws arbitrary: run rest a rule: take_run.induct)
  case (1 e)
  then show ?case by simp
next
  case (2 e w ws)
  show ?case
  proof (cases "dest_offset w = e")
    case False
    then show ?thesis using 2 by simp
  next
    case True
    obtain run' where r: "take_run (dest_offset w + l_data_size w) ws = (run', rest)" "run = w # run'"
      using 2(2) True by (auto split: prod.splits)
    have fit: "write_fits payload w" using 2 by simp
    then have e: "unat (dest_offset w + l_data_size w) = off + length (a @ payload (l_id w))"
      using 2(4) True by (simp add: write_fits_def unat_word_ariths)
    have "apply_label payload w (apply_write off a f) = apply_write off (a @ payload (l_id w)) f"
      using fit True 2(4) apply_write_append [of off a "payload (l_id w)" f]
      by (simp add: apply_label_def label_payload_def write_fits_def)
    moreover have "fold (apply_label payload) run' (apply_write off (a @ payload (l_id w)) f) =
        apply_write off ((a @ payload (l_id w)) @ concat (map (\<lambda>w. payload (l_id w)) run')) f"
      using 2 True r e by (intro "2.IH") auto
    ultimately show ?thesis using r by simp
  qed
qed

lemma apply_merge_run:
  assumes "take_run (dest_offset w + l_data_size w) ws = (run, rest)"
    and "\<forall>x \<in> set (w # ws). write_fits payload x"
  shows "apply_label payload (merge_run w run) f = fold (apply_label payload) (w # run) f"
proof -
  have fit: "write_fits payload w" using assms by simp
  then have e: "unat (dest_offset w + l_data_size w) = unat (dest_offset w) + length (payload (l_id w))"
    by (simp add: write_fits_def unat_word_ariths)
  have d: "dest_offset (merge_run w run) = dest_offset w"
    by (simp add: merge_run_def Let_def file_path_range_def get_range_def)
  have "fold (apply_label payload) run (apply_write (unat (dest_offset w)) (payload (l_id w)) f) =
      apply_write (unat (dest_offset w))
        (payload (l_id w) @ concat (map (\<lambda>w. payload (l_id w)) run)) f"
    using assms e by (intro apply_run) auto
  then show ?thesis
    using fit by (simp add: apply_label_def label_payload_def d write_fits_def comp_def)
qed

lemma merge_writes_file:
  assumes "\<forall>w \<in> set ws. write_fits payload w"
  shows "fold (apply_label payload) (fst (merge_writes ws fo)) f = fold (apply_label payload) ws f"
  using assms
proof (induction "length ws" arbitrary: ws fo f rule: less_induct)
  case less
  show ?case
  proof (cases ws)
    case Nil
    then show ?thesis by simp
  next
    case (Cons w ws')
    obtain run rest where r: "take_run (dest_offset w + l_data_size w) ws' = (run, rest)"
      by fastforce
    have split: "ws' = run @ rest" using take_run_split [OF r] .
    then have IH: "fold (apply_label payload) (fst (merge_writes rest fo')) f' =
        fold (apply_label payload) rest f'" for fo' f'
      using less.prems Cons by (intro less.hyps) auto
    have "apply_label payload (merge_run w run) f = fold (apply_label payload) (w # run) f"
      using less.prems Cons by (intro apply_merge_run [OF r]) auto
    then show ?thesis
      using Cons split IH by (auto simp: merge_writes_Cons [OF r [unfolded split]])
  qed
qed

text \<open>
  C5: Merging refines writing: executing the writes that merge_writes returns (a merged one with
  the concatenated data of its children) leaves a file with exactly the bytes that executing the
  original writes one by one, in their sorted order, leaves.
\<close>

theorem merge_writes_refines:
  assumes "\<forall>w \<in> set ws. write_fits payload w"
  shows "fold (apply_label payload) (fst (merge_writes ws fo)) file =
         fold (apply_label payload) ws file"
  using assms by (rule merge_writes_file)

theorem merge_writes_refines_witness:
  "fold (apply_label (\<lambda>i. [ucast i, 9]))
     (fst (merge_writes [write_at 1 ''f'' 0 2 [], write_at 2 ''f'' 2 2 []] Map.empty)) (\<lambda>_. 0) 3 = 9"
proof -
  let ?ws = "[write_at 1 ''f'' 0 2 [], write_at 2 ''f'' 2 2 []]"
  have "fold (apply_label (\<lambda>i. [ucast i, 9])) (fst (merge_writes ?ws Map.empty)) (\<lambda>_. 0)
      = fold (apply_label (\<lambda>i. [ucast i, 9])) ?ws (\<lambda>_. 0)"
    by (rule merge_writes_refines) (simp add: write_fits_def at_defs get_range_def)
  then show ?thesis
    by (simp add: apply_label_def apply_write_def label_payload_def at_defs get_range_def)
qed

subsection \<open>Which dependencies are recorded\<close>

lemma hazard_dependencies [simp]:
  "hazard (a\<lparr>l_dependencies := d\<rparr>) b = hazard a b" "hazard a (b\<lparr>l_dependencies := d\<rparr>) = hazard a b"
  by (simp_all add: hazard_def label_range_def)

lemma group_key_dependencies [simp]: "group_key g (a\<lparr>l_dependencies := d\<rparr>) = group_key g a"
  by (simp add: group_key_def)

definition pair_dependency :: "label_data list \<Rightarrow> nat \<Rightarrow> nat \<times> nat \<Rightarrow> label_dependency list" where
  "pair_dependency labels k p =
     (if snd p = k then (case hazard (labels ! fst p) (labels ! k) of None \<Rightarrow> []
        | Some h \<Rightarrow> [dependency_on (labels ! fst p) h]) else [])"

definition new_dependencies ::
    "label_data list \<Rightarrow> (nat \<times> nat) list \<Rightarrow> nat \<Rightarrow> label_dependency list" where
  "new_dependencies labels ps k = concat (map (pair_dependency labels k) ps)"

lemma in_pair_dependency:
  "x \<in> set (pair_dependency labels k p) \<longleftrightarrow> snd p = k \<and>
     (\<exists>h. x = dependency_on (labels ! fst p) h \<and> hazard (labels ! fst p) (labels ! k) = Some h)"
  unfolding pair_dependency_def
  by (cases "snd p = k"; cases "hazard (labels ! fst p) (labels ! k)";
      simp only: if_True if_False option.case list.set option.simps simp_thms empty_iff insert_iff;
      blast?)

lemma set_new_dependencies:
  "x \<in> set (new_dependencies labels ps k) \<longleftrightarrow>
     (\<exists>i h. x = dependency_on (labels ! i) h \<and> (i, k) \<in> set ps \<and>
        hazard (labels ! i) (labels ! k) = Some h)"
  (is "?L \<longleftrightarrow> ?R")
proof
  assume ?L
  then obtain p where "p \<in> set ps" "x \<in> set (pair_dependency labels k p)"
    by (metis (no_types) UN_E new_dependencies_def set_concat set_map image_image UnionE imageE)
  then show ?R unfolding in_pair_dependency by (metis prod.collapse)
next
  assume ?R
  then obtain p where "p \<in> set ps" "x \<in> set (pair_dependency labels k p)"
    unfolding in_pair_dependency by (metis fst_conv snd_conv)
  then show ?L unfolding new_dependencies_def set_concat set_map by blast
qed

definition add_deps_at :: "label_data list \<Rightarrow> (nat \<times> nat) list \<Rightarrow> nat \<Rightarrow> label_data" where
  "add_deps_at labels ps k =
     (labels ! k)\<lparr>l_dependencies := l_dependencies (labels ! k) @ new_dependencies labels ps k\<rparr>"

lemma add_dependency_nth:
  assumes "i < length labels" "j < length labels" "k < length labels"
  shows "add_dependency (i, j) labels ! k = add_deps_at labels [(i, j)] k"
  using assms by (auto simp: add_dependency_def add_deps_at_def new_dependencies_def pair_dependency_def split: option.splits)

lemma length_add_dependency [simp]: "length (add_dependency p labels) = length labels"
  by (auto simp: add_dependency_def split: prod.splits option.splits)

lemma new_dependencies_cong:
  assumes "\<forall>k < length labels. \<exists>d. labels' ! k = (labels ! k)\<lparr>l_dependencies := d\<rparr>"
    and "\<forall>(i, j) \<in> set ps. i < length labels" "k < length labels"
  shows "new_dependencies labels' ps k = new_dependencies labels ps k"
proof -
  obtain d where k: "labels' ! k = (labels ! k)\<lparr>l_dependencies := d\<rparr>"
    using assms(1,3) by blast
  have "hazard (labels' ! i) (labels' ! k) = hazard (labels ! i) (labels ! k) \<and>
      dependency_on (labels' ! i) = dependency_on (labels ! i)" if il: "i < length labels" for i
  proof -
    obtain d' where "labels' ! i = (labels ! i)\<lparr>l_dependencies := d'\<rparr>"
      using assms(1) il by blast
    then show ?thesis using k by (simp add: dependency_on_def fun_eq_iff)
  qed
  then show ?thesis
    using assms(2) unfolding new_dependencies_def
    by (intro arg_cong [where f = concat] map_cong) (auto simp: pair_dependency_def split: option.splits)
qed

lemma fold_add_dependency:
  assumes "\<forall>(i, j) \<in> set ps. i < length labels \<and> j < length labels"
  shows "length (fold add_dependency ps labels) = length labels \<and>
    (\<forall>k < length labels. fold add_dependency ps labels ! k = add_deps_at labels ps k)"
  using assms
proof (induction ps arbitrary: labels)
  case Nil
  then show ?case by (simp add: add_deps_at_def new_dependencies_def)
next
  case (Cons p ps)
  obtain i j where p: "p = (i, j)" by fastforce
  let ?l = "add_dependency (i, j) labels"
  have nth: "?l ! k = add_deps_at labels [(i, j)] k" if "k < length labels" for k
    using Cons.prems p that by (intro add_dependency_nth) auto
  have IH: "length (fold add_dependency ps ?l) = length labels \<and>
    (\<forall>k < length labels. fold add_dependency ps ?l ! k = add_deps_at ?l ps k)"
    using Cons.IH [of ?l] Cons.prems by auto
  have "add_deps_at ?l ps k = add_deps_at labels (p # ps) k" if k: "k < length labels" for k
  proof -
    have "new_dependencies ?l ps k = new_dependencies labels ps k"
      using Cons.prems k nth by (intro new_dependencies_cong) (auto simp: add_deps_at_def)
    then show ?thesis
      using nth [OF k] by (simp add: add_deps_at_def p) (simp add: new_dependencies_def)
  qed
  then show ?case using IH p by simp
qed

text \<open>All the pairs the two loops compare, group after group.\<close>

definition compared_pairs :: "string \<Rightarrow> label_data list \<Rightarrow> (nat \<times> nat) list" where
  "compared_pairs g labels =
     concat (map (\<lambda>(key, ixs). ordered_pairs (sort_key (\<lambda>i. l_id (labels ! i)) ixs))
       (group_by (\<lambda>i. group_key g (labels ! i)) [0..<length labels]))"

lemma set_ordered_pairs_subset: "(a, b) \<in> set (ordered_pairs xs) \<Longrightarrow> a \<in> set xs \<and> b \<in> set xs"
  by (auto simp: set_ordered_pairs)

lemma detect_groups_fold:
  assumes "\<forall>(k, ixs) \<in> set gs. \<forall>i \<in> set ixs. i < length labels"
    and "length labels' = length labels" "\<forall>i < length labels. l_id (labels' ! i) = l_id (labels ! i)"
  shows "fold (\<lambda>(key, ixs). detect_group ixs) gs labels' =
    fold add_dependency
      (concat (map (\<lambda>(key, ixs). ordered_pairs (sort_key (\<lambda>i. l_id (labels ! i)) ixs)) gs)) labels'"
  using assms
proof (induction gs arbitrary: labels')
  case Nil
  then show ?case by simp
next
  case (Cons g gs)
  obtain key ixs where g: "g = (key, ixs)" by fastforce
  let ?ps = "ordered_pairs (sort_key (\<lambda>i. l_id (labels ! i)) ixs)"
  have lt: "\<forall>i \<in> set ixs. i < length labels" using Cons.prems g by auto
  have "sort_key (\<lambda>i. l_id (labels' ! i)) ixs = sort_key (\<lambda>i. l_id (labels ! i)) ixs"
    using Cons.prems lt by (intro sort_key_map_cong) auto
  then have d: "detect_group ixs labels' = fold add_dependency ?ps labels'"
    by (simp add: detect_group_def)
  have "\<forall>(i, j) \<in> set ?ps. i < length labels' \<and> j < length labels'"
    using lt Cons.prems(2) by (auto dest: set_ordered_pairs_subset)
  note f = fold_add_dependency [OF this]
  have "fold (\<lambda>(key, ixs). detect_group ixs) gs (fold add_dependency ?ps labels') =
    fold add_dependency
      (concat (map (\<lambda>(key, ixs). ordered_pairs (sort_key (\<lambda>i. l_id (labels ! i)) ixs)) gs))
      (fold add_dependency ?ps labels')"
    using Cons.prems f by (intro Cons.IH) (auto simp: add_deps_at_def)
  then show ?case by (simp add: g d)
qed

lemma compared_pairs_range:
  "(i, j) \<in> set (compared_pairs g labels) \<Longrightarrow> i < length labels \<and> j < length labels"
  by (auto simp: compared_pairs_def dest!: set_ordered_pairs_subset group_by_memD(1))

lemma detect_dependencies_nth:
  shows "length (detect_dependencies g labels) = length labels"
    and "k < length labels \<Longrightarrow>
      detect_dependencies g labels ! k = add_deps_at labels (compared_pairs g labels) k"
proof -
  have "detect_dependencies g labels = fold add_dependency (compared_pairs g labels) labels"
    unfolding detect_dependencies_def compared_pairs_def
    by (rule detect_groups_fold) (auto dest: group_by_memD(1))
  then show "length (detect_dependencies g labels) = length labels"
    and "k < length labels \<Longrightarrow>
      detect_dependencies g labels ! k = add_deps_at labels (compared_pairs g labels) k"
    using fold_add_dependency [of "compared_pairs g labels" labels] compared_pairs_range [of _ _ g labels]
    by auto
qed

lemma compared_pairs_iff:
  assumes "distinct (map l_id labels)"
  shows "(i, j) \<in> set (compared_pairs g labels) \<longleftrightarrow>
     i < length labels \<and> j < length labels \<and> group_key g (labels ! i) = group_key g (labels ! j) \<and>
     l_id (labels ! i) < l_id (labels ! j)"
proof -
  let ?key = "\<lambda>i. group_key g (labels ! i)"
  have inj: "inj_on (\<lambda>i. l_id (labels ! i)) {..<length labels}"
    using assms by (auto simp: inj_on_def distinct_conv_nth)
  have pairs: "(i, j) \<in> set (ordered_pairs (sort_key (\<lambda>i. l_id (labels ! i))
        (filter (\<lambda>i. ?key i = k) [0..<length labels]))) \<longleftrightarrow>
      i < length labels \<and> j < length labels \<and> ?key i = k \<and> ?key j = k \<and>
      l_id (labels ! i) < l_id (labels ! j)" for k
  proof -
    have "inj_on (\<lambda>i. l_id (labels ! i)) (set (filter (\<lambda>i. ?key i = k) [0..<length labels]))"
      using inj by (rule inj_on_subset) auto
    then show ?thesis by (subst ordered_pairs_sort_key) auto
  qed
  show ?thesis (is "?L \<longleftrightarrow> ?R")
  proof
    assume ?L
    then obtain k ixs where "(k, ixs) \<in> set (group_by ?key [0..<length labels])"
      "(i, j) \<in> set (ordered_pairs (sort_key (\<lambda>i. l_id (labels ! i)) ixs))"
      by (auto simp: compared_pairs_def)
    then show ?R using group_by_memD(1) [of k ixs ?key] pairs [of k] by auto
  next
    assume r: ?R
    then have "(?key i, filter (\<lambda>y. ?key y = ?key i) [0..<length labels]) \<in>
        set (group_by ?key [0..<length labels])"
      by (intro group_by_mem) simp
    moreover have "(i, j) \<in> set (ordered_pairs (sort_key (\<lambda>i. l_id (labels ! i))
        (filter (\<lambda>y. ?key y = ?key i) [0..<length labels])))"
      using r by (simp add: pairs)
    ultimately show ?L unfolding compared_pairs_def by force
  qed
qed

text \<open>
  C6: Dependency detection records exactly the hazards: in a batch with distinct IDs, label k
  gains a dependency on label i of kind h when and only when both are in the same group, i has
  the smaller ID, their byte ranges overlap, and h is the hazard of the pair (none for two
  reads). Everything else of the batch is unchanged.
\<close>

theorem detect_dependencies_exact:
  assumes "distinct (map l_id labels)" "k < length labels"
  shows "\<exists>new. detect_dependencies g labels ! k =
           (labels ! k)\<lparr>l_dependencies := l_dependencies (labels ! k) @ new\<rparr> \<and>
         set new = {dependency_on e h | e h.
           e \<in> set labels \<and> group_key g e = group_key g (labels ! k) \<and>
           l_id e < l_id (labels ! k) \<and> hazard e (labels ! k) = Some h}"
proof (intro exI conjI)
  show "detect_dependencies g labels ! k = (labels ! k)\<lparr>l_dependencies :=
      l_dependencies (labels ! k) @ new_dependencies labels (compared_pairs g labels) k\<rparr>"
    using detect_dependencies_nth(2) [OF assms(2)] by (simp add: add_deps_at_def)
  show "set (new_dependencies labels (compared_pairs g labels) k) =
      {dependency_on e h | e h.
           e \<in> set labels \<and> group_key g e = group_key g (labels ! k) \<and>
           l_id e < l_id (labels ! k) \<and> hazard e (labels ! k) = Some h}"
    (is "?A = ?B")
  proof (intro set_eqI iffI)
    fix x assume "x \<in> ?A"
    then obtain i h where "x = dependency_on (labels ! i) h" "(i, k) \<in> set (compared_pairs g labels)"
      "hazard (labels ! i) (labels ! k) = Some h"
      unfolding set_new_dependencies by blast
    then show "x \<in> ?B"
      unfolding compared_pairs_iff [OF assms(1)] mem_Collect_eq by (blast intro: nth_mem)
  next
    fix x assume "x \<in> ?B"
    then obtain e h where e: "e \<in> set labels" "x = dependency_on e h"
      "group_key g e = group_key g (labels ! k)" "l_id e < l_id (labels ! k)"
      "hazard e (labels ! k) = Some h"
      unfolding mem_Collect_eq by blast
    then obtain i where "i < length labels" "labels ! i = e" by (auto simp only: in_set_conv_nth)
    then show "x \<in> ?A"
      unfolding set_new_dependencies compared_pairs_iff [OF assms(1)] using e assms(2) by blast
  qed
qed

theorem detect_dependencies_exact_witness:
  "\<exists>new. detect_dependencies ''per-file'' [read_at 9 ''f'' 2 4, write_at 5 ''f'' 0 4 []] ! 0 =
     (read_at 9 ''f'' 2 4)\<lparr>l_dependencies := new\<rparr> \<and>
     dependency_on (write_at 5 ''f'' 0 4 []) RAW \<in> set new"
proof -
  let ?ls = "[read_at 9 ''f'' 2 4, write_at 5 ''f'' 0 4 []]"
  obtain new where n: "detect_dependencies ''per-file'' ?ls ! 0 =
           (?ls ! 0)\<lparr>l_dependencies := l_dependencies (?ls ! 0) @ new\<rparr>"
    "set new = {dependency_on e h | e h.
           e \<in> set ?ls \<and> group_key ''per-file'' e = group_key ''per-file'' (?ls ! 0) \<and>
           l_id e < l_id (?ls ! 0) \<and> hazard e (?ls ! 0) = Some h}"
    using detect_dependencies_exact [of ?ls 0 "''per-file''"] by (auto simp: at_defs)
  have "hazard (write_at 5 ''f'' 0 4 []) (read_at 9 ''f'' 2 4) = Some RAW"
    by (simp add: hazard_def label_range_def ranges_overlap_def at_defs get_range_def)
  moreover have "write_at 5 ''f'' 0 4 [] \<in> set ?ls" by simp
  moreover have "group_key ''per-file'' (write_at 5 ''f'' 0 4 []) = group_key ''per-file'' (?ls ! 0)"
    "l_id (write_at 5 ''f'' 0 4 []) = 5" "l_id (?ls ! 0) = 9"
    by (simp_all add: group_key_def at_defs)
  ultimately have "dependency_on (write_at 5 ''f'' 0 4 []) RAW \<in> set new"
    unfolding n(2) by (intro CollectI exI [of _ "write_at 5 ''f'' 0 4 []"] exI [of _ RAW]) auto
  then show ?thesis using n(1) by (intro exI [of _ new]) (simp add: at_defs)
qed

subsection \<open>The whole pipeline\<close>

text \<open>The labels of a shuffle result, in the order the dispatcher handles them.\<close>

definition routed :: "shuffle_result \<Rightarrow> label_data list" where
  "routed r = map fst (direct_route r) @ concat (map st_children (supertasks r)) @ independent r"

text \<open>A label without the two fields the shuffler fills in.\<close>

definition bare :: "label_data \<Rightarrow> label_data" where
  "bare l = l\<lparr>l_dependencies := [], l_supertask_id := 0\<rparr>"

lemma bare_simps [simp]:
  "bare (l\<lparr>l_dependencies := d\<rparr>) = bare l" "bare (l\<lparr>l_supertask_id := i\<rparr>) = bare l"
  "l_id (bare l) = l_id l" "origin_ids (bare l) = origin_ids l"
  by (simp_all add: bare_def origin_ids_def)

lemma bare_eqD: "bare a = bare b \<Longrightarrow> l_id a = l_id b \<and> origin_ids a = origin_ids b"
  by (metis bare_simps(3,4))

lemma map_bare_detect: "map bare (detect_dependencies g labels) = map bare labels"
  by (intro nth_equalityI) (simp_all add: detect_dependencies_nth add_deps_at_def)

lemma route_reads_mset:
  "mset (map fst (fst (route_reads lookup ls))) + mset (snd (route_reads lookup ls)) = mset ls"
  by (induction lookup ls rule: route_reads.induct) (auto split: prod.splits option.splits)

lemma mset_make_supertask: "mset (map bare (st_children (make_supertask grp))) = mset (map bare grp)"
  by (simp add: make_supertask_def Let_def comp_def)

lemma build_supertasks_mset:
  assumes "build_supertasks g labels = (tasks, indep)"
  shows "mset (map bare (concat (map st_children tasks))) + mset (map bare indep) = mset (map bare labels)"
proof -
  let ?dep = "filter (\<lambda>l. l_id l \<in> involved_ids labels) labels"
  let ?gs = "group_by (group_key g) ?dep"
  have t: "tasks = map (\<lambda>(key, grp). make_supertask grp) ?gs"
    and i: "indep = filter (\<lambda>l. l_id l \<notin> involved_ids labels) labels"
    using assms by (simp_all add: build_supertasks_def Let_def)
  have "mset (map bare (concat (map st_children (map (\<lambda>(key, grp). make_supertask grp) gs)))) =
      image_mset bare (all_grouped gs)" for gs :: "(string \<times> label_data list) list"
    by (induction gs) (auto simp: all_grouped_def mset_make_supertask simp flip: mset_map)
  then have "mset (map bare (concat (map st_children tasks))) = image_mset bare (mset ?dep)"
    by (simp only: t group_by_all)
  moreover have "image_mset bare (mset ?dep) + image_mset bare (mset indep) = image_mset bare (mset labels)"
    unfolding i image_mset_union [symmetric] by (metis mset_filter multiset_partition)
  ultimately show ?thesis by simp
qed

lemma shuffle_mset:
  "mset (map bare (routed (shuffle cfg batch lookup))) = mset (map bare (fst (aggregate cfg batch)))"
proof -
  obtain agg fo where a: "aggregate cfg batch = (agg, fo)" by fastforce
  let ?d = "detect_dependencies (dep_granularity cfg) agg"
  obtain tasks rest where b: "build_supertasks (dep_granularity cfg) ?d = (tasks, rest)" by fastforce
  obtain direct indep where r: "route_reads lookup rest = (direct, indep)" by fastforce
  have "mset (map fst direct) + mset indep = mset rest"
    using route_reads_mset [of lookup rest] r by simp
  then have d: "mset (map bare (map fst direct)) + mset (map bare indep) = mset (map bare rest)"
    unfolding mset_map by (metis image_mset_union mset_map)
  have "routed (shuffle cfg batch lookup) =
      map fst direct @ concat (map st_children tasks) @ indep"
    using a b r by (simp add: shuffle_def routed_def Let_def)
  then have "mset (map bare (routed (shuffle cfg batch lookup))) =
      mset (map bare (concat (map st_children tasks))) +
      (mset (map bare (map fst direct)) + mset (map bare indep))"
    by (simp only: map_append mset_append add_ac)
  also have "\<dots> = mset (map bare agg)"
    unfolding d build_supertasks_mset [OF b] map_bare_detect ..
  finally show ?thesis by (simp only: a fst_conv)
qed

lemma aggregate_ids_mset:
  assumes "\<forall>w \<in> set batch. unmerged w"
  shows "mset (concat (map origin_ids (fst (aggregate cfg batch)))) = mset (map l_id batch)"
proof (cases "aggregation_enabled cfg")
  case False
  have "concat (map origin_ids xs) = map l_id xs" if "\<forall>x \<in> set xs. unmerged x" for xs
    using that by (induction xs) (auto simp: origin_ids_def unmerged_def)
  then show ?thesis using False assms by (simp add: aggregate_def)
next
  case True
  then show ?thesis
    using aggregate_groups_ids [OF group_by_unmerged [OF assms, of l_file_key], of Map.empty]
    by (simp add: aggregate_def group_simps)
qed

lemma mset_concat_map_cong:
  assumes "mset xs = mset ys"
  shows "mset (concat (map g xs)) = mset (concat (map g ys))"
proof -
  have "mset (concat (map g zs)) = (\<Sum>z \<in># mset zs. mset (g z))" for zs
    by (induction zs) simp_all
  then show ?thesis using assms by simp
qed

lemma shuffle_ids:
  assumes "\<forall>w \<in> set batch. unmerged w"
  shows "mset (concat (map origin_ids (routed (shuffle cfg batch lookup)))) = mset (map l_id batch)"
proof -
  have "map origin_ids (map bare ls) = map origin_ids ls" for ls by simp
  then show ?thesis
    using mset_concat_map_cong [OF shuffle_mset [of cfg batch lookup], of origin_ids]
      aggregate_ids_mset [OF assms] by (simp only:)
qed

text \<open>
  C2: Shuffling loses no label and duplicates none: the labels of the result (direct routes,
  children of the supertasks, independent labels), each read as the labels it stands for (a
  merged write stands for every write of its run), are exactly the labels of the batch, with
  multiplicity, for every configuration and location lookup.
\<close>

theorem shuffle_conserves_labels:
  assumes "\<forall>w \<in> set batch. unmerged w"
  shows "mset (concat (map origin_ids (routed (shuffle cfg batch lookup)))) = mset (map l_id batch)"
  using assms by (rule shuffle_ids)

theorem shuffle_conserves_labels_witness:
  "mset (concat (map origin_ids (routed (shuffle default_config
     [write_at 2 ''f'' 4 4 [], read_at 3 ''f'' 0 4, write_at 1 ''f'' 0 4 []] None)))) = {#1, 2, 3#}"
proof -
  let ?b = "[write_at 2 ''f'' 4 4 [], read_at 3 ''f'' 0 4, write_at 1 ''f'' 0 4 []]"
  have "mset (concat (map origin_ids (routed (shuffle default_config ?b None)))) = mset (map l_id ?b)"
    by (rule shuffle_conserves_labels) (simp add: unmerged_def at_defs)
  then show ?thesis by (simp add: at_defs)
qed

subsection \<open>Conflicting labels are serialised\<close>

lemma origin_ids_hd: "unmerged w \<Longrightarrow> origin_ids w = [l_id w]"
  by (simp add: origin_ids_def unmerged_def)

lemma merge_writes_heads:
  "\<forall>w \<in> set ws. unmerged w \<and> l_dependencies w = [] \<Longrightarrow>
   \<forall>l \<in> set (fst (merge_writes ws fo)). l_id l = hd (origin_ids l) \<and> l_dependencies l = []"
proof (induction "length ws" arbitrary: ws fo rule: less_induct)
  case less
  show ?case
  proof (cases ws)
    case Nil
    then show ?thesis by simp
  next
    case (Cons w ws')
    obtain run rest where r: "take_run (dest_offset w + l_data_size w) ws' = (run, rest)"
      by fastforce
    have split: "ws' = run @ rest" using take_run_split [OF r] .
    then have "\<forall>l \<in> set (fst (merge_writes rest fo')). l_id l = hd (origin_ids l) \<and> l_dependencies l = []"
      for fo' using less.prems Cons by (intro less.hyps) auto
    then show ?thesis
      using Cons split less.prems by (auto simp: merge_writes_Cons [OF r [unfolded split]] origin_ids_hd)
  qed
qed

lemma aggregate_groups_heads:
  assumes "\<forall>(k, ls) \<in> set gs. \<forall>w \<in> set ls. unmerged w \<and> l_dependencies w = []"
  shows "\<forall>l \<in> set (fst (aggregate_groups gs fo)). l_id l = hd (origin_ids l) \<and> l_dependencies l = []"
  using assms
proof (induction gs fo rule: aggregate_groups.induct)
  case (1 fo)
  then show ?case by simp
next
  case (2 key grp gs fo)
  obtain out fo1 where o: "aggregate_group grp fo = (out, fo1)" by fastforce
  have grp: "\<forall>w \<in> set grp. unmerged w \<and> l_dependencies w = []"
    and gs: "\<forall>(k, ls) \<in> set gs. \<forall>w \<in> set ls. unmerged w \<and> l_dependencies w = []"
    using 2(2) by simp_all
  let ?ws = "sort_key dest_offset (filter (\<lambda>l. l_type l = Write) grp)"
  obtain merged fo' where m: "merge_writes ?ws fo = (merged, fo')" by fastforce
  have "\<forall>l \<in> set (fst (merge_writes ?ws fo)). l_id l = hd (origin_ids l) \<and> l_dependencies l = []"
    using grp by (intro merge_writes_heads) simp
  moreover have "out = filter (\<lambda>l. l_type l \<noteq> Write) grp @ merged"
    using o m by (simp add: aggregate_group_def)
  ultimately have out: "\<forall>l \<in> set out. l_id l = hd (origin_ids l) \<and> l_dependencies l = []"
    using grp by (simp add: m origin_ids_hd ball_Un)
  obtain out' fo2 where o': "aggregate_groups gs fo1 = (out', fo2)" by fastforce
  have "\<forall>l \<in> set out'. l_id l = hd (origin_ids l) \<and> l_dependencies l = []"
    using "2.IH" [OF o [symmetric] refl gs] o' by simp
  then show ?case using out by (simp add: o o' ball_Un)
qed

lemma aggregate_heads:
  assumes "\<forall>w \<in> set batch. unmerged w \<and> l_dependencies w = []"
  shows "\<forall>l \<in> set (fst (aggregate cfg batch)). l_id l = hd (origin_ids l) \<and> l_dependencies l = []"
proof (cases "aggregation_enabled cfg")
  case False
  then show ?thesis using assms by (simp add: aggregate_def origin_ids_hd)
next
  case True
  have "\<forall>(k, ls) \<in> set (group_by l_file_key batch). \<forall>w \<in> set ls. unmerged w \<and> l_dependencies w = []"
    using assms group_by_memD(1) [of _ _ l_file_key batch] by fastforce
  from aggregate_groups_heads [OF this] True show ?thesis by (simp add: aggregate_def)
qed

lemma distinct_heads:
  assumes "distinct (concat (map f xs))" "\<forall>x \<in> set xs. f x \<noteq> []"
  shows "distinct (map (hd \<circ> f) xs)"
  using assms
proof (induction xs)
  case Nil
  then show ?case by simp
next
  case (Cons x xs)
  have "hd (f y) \<noteq> hd (f x)" if "y \<in> set xs" for y
  proof -
    have "hd (f y) \<in> set (f y)" "hd (f x) \<in> set (f x)"
      using that Cons.prems(2) by auto
    then show ?thesis using Cons.prems(1) that by simp (metis UN_I disjoint_iff)
  qed
  then have "(hd \<circ> f) x \<notin> set (map (hd \<circ> f) xs)" by (metis (no_types, lifting) comp_def imageE set_map)
  then show ?case using Cons by simp
qed

lemma aggregate_distinct:
  assumes "\<forall>w \<in> set batch. unmerged w \<and> l_dependencies w = []" "distinct (map l_id batch)"
  shows "distinct (map l_id (fst (aggregate cfg batch)))"
proof -
  let ?out = "fst (aggregate cfg batch)"
  have "mset (concat (map origin_ids ?out)) = mset (map l_id batch)"
    using assms by (intro aggregate_ids_mset) auto
  then have "distinct (concat (map origin_ids ?out))"
    using assms(2) mset_eq_imp_distinct_iff by blast
  then have "distinct (map (hd \<circ> origin_ids) ?out)"
    by (rule distinct_heads) (simp add: origin_ids_def)
  moreover have "map (hd \<circ> origin_ids) ?out = map l_id ?out"
    using aggregate_heads [OF assms(1), of cfg] by (intro map_cong) auto
  ultimately show ?thesis by simp
qed

text \<open>
  The two members of a hazard both count as involved, so both leave the independent list, and the
  supertask of their group holds them.
\<close>

lemma hazard_involved:
  assumes "distinct (map l_id labels)" "e \<in> set labels" "l \<in> set labels"
    and "group_key g e = group_key g l" "l_id e < l_id l" "hazard e l = Some h"
  shows "l_id e \<in> involved_ids (detect_dependencies g labels)"
    and "l_id l \<in> involved_ids (detect_dependencies g labels)"
proof -
  let ?d = "detect_dependencies g labels"
  obtain k where k: "k < length labels" "labels ! k = l" using assms(3) by (auto simp: in_set_conv_nth)
  obtain i where i: "i < length labels" "labels ! i = e" using assms(2) by (auto simp: in_set_conv_nth)
  have "(i, k) \<in> set (compared_pairs g labels)"
    using i k assms by (simp add: compared_pairs_iff)
  then have "dependency_on e h \<in> set (new_dependencies labels (compared_pairs g labels) k)"
    unfolding set_new_dependencies using i k assms(6) by blast
  then have "dependency_on e h \<in> set (l_dependencies (?d ! k))"
    using detect_dependencies_nth(2) [OF k(1), of g] by (simp add: add_deps_at_def)
  moreover have "?d ! k \<in> set ?d" using k by (simp add: detect_dependencies_nth(1))
  moreover have "l_id (?d ! k) = l_id l"
    using detect_dependencies_nth(2) [OF k(1), of g] k by (simp add: add_deps_at_def)
  moreover have "dep_label_id (dependency_on e h) = l_id e" by (simp add: dependency_on_def)
  ultimately obtain x where "x \<in> set ?d" "l_dependencies x \<noteq> []" "l_id x = l_id l"
    "l_id e \<in> dep_label_id ` set (l_dependencies x)"
    by (metis empty_iff imageI list.set(1))
  then show "l_id e \<in> involved_ids ?d" "l_id l \<in> involved_ids ?d"
    unfolding involved_ids_def by (intro UN_I [of x]; simp)+
qed

lemma make_supertask_children:
  "st_children (make_supertask grp) =
     map (\<lambda>c. c\<lparr>l_supertask_id := l_id (hd (sort_key l_id grp))\<rparr>) (sort_key l_id grp)"
  by (simp add: make_supertask_def Let_def)

lemma detected_member:
  assumes "e \<in> set labels"
  obtains e' where "e' \<in> set (detect_dependencies g labels)" "bare e' = bare e"
    "group_key g' e' = group_key g' e" "l_id e' = l_id e"
proof -
  obtain i where i: "i < length labels" "labels ! i = e" using assms by (auto simp: in_set_conv_nth)
  then have "detect_dependencies g labels ! i \<in> set (detect_dependencies g labels)"
    by (simp add: detect_dependencies_nth(1))
  then show thesis
    using i detect_dependencies_nth(1) [of g labels] detect_dependencies_nth(2) [of i labels g]
    by (intro that [of "detect_dependencies g labels ! i"]) (simp_all add: add_deps_at_def)
qed

lemma build_supertasks_pair:
  assumes "distinct (map l_id labels)" "a \<in> set labels" "b \<in> set labels"
    and "l_id a \<in> involved_ids labels" "l_id b \<in> involved_ids labels"
    and "group_key g a = group_key g b" "l_id a < l_id b"
  shows "\<exists>st \<in> set (fst (build_supertasks g labels)). \<exists>p q. p < q \<and> q < length (st_children st) \<and>
     bare (st_children st ! p) = bare a \<and> bare (st_children st ! q) = bare b"
proof -
  let ?dep = "filter (\<lambda>l. l_id l \<in> involved_ids labels) labels"
  let ?grp = "filter (\<lambda>y. group_key g y = group_key g a) ?dep"
  have "(group_key g a, ?grp) \<in> set (group_by (group_key g) ?dep)"
    using assms by (intro group_by_mem) simp
  then have st: "make_supertask ?grp \<in> set (fst (build_supertasks g labels))"
    unfolding build_supertasks_def Let_def fst_conv by force
  have "distinct labels" "inj_on l_id (set labels)"
    using assms(1) by (simp_all add: distinct_map)
  then have "distinct ?grp" "inj_on l_id (set ?grp)"
    by (auto intro: inj_on_subset)
  then have "(a, b) \<in> set (ordered_pairs (sort_key l_id ?grp))"
    using assms by (subst ordered_pairs_sort_key) simp_all
  then obtain p q where "p < q" "q < length (sort_key l_id ?grp)"
      "sort_key l_id ?grp ! p = a" "sort_key l_id ?grp ! q = b"
    unfolding set_ordered_pairs by blast
  then have "p < q \<and> q < length (st_children (make_supertask ?grp)) \<and>
      bare (st_children (make_supertask ?grp) ! p) = bare a \<and>
      bare (st_children (make_supertask ?grp) ! q) = bare b"
    unfolding make_supertask_children by simp
  then show ?thesis using st by blast
qed

lemma shuffle_supertasks:
  "supertasks (shuffle cfg batch lookup) =
     fst (build_supertasks (dep_granularity cfg)
            (detect_dependencies (dep_granularity cfg) (fst (aggregate cfg batch))))"
  by (simp add: shuffle_def Let_def split: prod.splits)

lemma detect_distinct: "distinct (map l_id labels) \<Longrightarrow> distinct (map l_id (detect_dependencies g labels))"
proof -
  have "map l_id (map bare ls) = map l_id ls" for ls by simp
  then have "map l_id (detect_dependencies g labels) = map l_id labels"
    by (metis map_bare_detect)
  then show "distinct (map l_id labels) \<Longrightarrow> distinct (map l_id (detect_dependencies g labels))" by simp
qed

text \<open>
  C1: Conflicting labels run in order: whenever two labels of the aggregated batch share a
  dependency group and their ranges conflict (RAW, WAW or WAR), both are children of one
  supertask, which is executed in list order on one worker, and the one with the smaller ID comes
  first.
\<close>

theorem conflicts_serialised:
  assumes "\<forall>w \<in> set batch. unmerged w \<and> l_dependencies w = []" "distinct (map l_id batch)"
    and "e \<in> set (fst (aggregate cfg batch))" "l \<in> set (fst (aggregate cfg batch))"
    and "group_key (dep_granularity cfg) e = group_key (dep_granularity cfg) l"
    and "l_id e < l_id l" "hazard e l = Some h"
  shows "\<exists>st \<in> set (supertasks (shuffle cfg batch lookup)).
     \<exists>p q. p < q \<and> q < length (st_children st) \<and>
       bare (st_children st ! p) = bare e \<and> bare (st_children st ! q) = bare l"
proof -
  let ?g = "dep_granularity cfg" and ?agg = "fst (aggregate cfg batch)"
  let ?d = "detect_dependencies ?g ?agg"
  have dist: "distinct (map l_id ?agg)" using assms by (intro aggregate_distinct)
  obtain e' where e: "e' \<in> set ?d" "bare e' = bare e" "group_key ?g e' = group_key ?g e" "l_id e' = l_id e"
    using detected_member [OF assms(3)] by metis
  obtain l' where l: "l' \<in> set ?d" "bare l' = bare l" "group_key ?g l' = group_key ?g l" "l_id l' = l_id l"
    using detected_member [OF assms(4)] by metis
  note inv = hazard_involved [OF dist assms(3,4,5,6,7)]
  show ?thesis
    using build_supertasks_pair [OF detect_distinct [OF dist] e(1) l(1), of ?g] inv e l assms(5,6)
    by (simp only: shuffle_supertasks)
qed

theorem conflicts_serialised_witness:
  "\<exists>st \<in> set (supertasks (shuffle default_config [read_at 9 ''f'' 2 4, write_at 5 ''f'' 0 4 []] None)).
     \<exists>p q. p < q \<and> q < length (st_children st) \<and>
       bare (st_children st ! p) = bare (write_at 5 ''f'' 0 4 []) \<and>
       bare (st_children st ! q) = bare (read_at 9 ''f'' 2 4)"
proof -
  let ?b = "[read_at 9 ''f'' 2 4, write_at 5 ''f'' 0 4 []]"
  have "merge_writes [write_at 5 ''f'' 0 4 []] Map.empty = ([write_at 5 ''f'' 0 4 []], Map.empty)"
    by (simp add: merge_writes.simps)
  then have "fst (aggregate default_config ?b) = ?b"
    by (simp add: aggregate_def default_config_def group_by_def aggregate_group_def at_defs)
  moreover have "hazard (write_at 5 ''f'' 0 4 []) (read_at 9 ''f'' 2 4) = Some RAW"
    by (simp add: hazard_def label_range_def ranges_overlap_def at_defs get_range_def)
  ultimately show ?thesis
    by (intro conflicts_serialised)
       (simp_all add: unmerged_def group_key_def default_config_def at_defs)
qed

subsection \<open>Packing a supertask's children\<close>

text \<open>
  Four little-endian bytes of count, then per label four bytes of length and the label. The casts
  to \<^verbatim>\<open>uint32_t\<close> wrap, as \<open>le_bytes 4\<close> does.
\<close>

definition pack_labels :: "bytes list \<Rightarrow> bytes" where
  "pack_labels labels =
     le_bytes 4 (length labels) @ concat (map (\<lambda>l. le_bytes 4 (length l) @ l) labels)"

fun unpack_loop :: "nat \<Rightarrow> bytes \<Rightarrow> bytes list" where
  "unpack_loop 0 rest = []"
| "unpack_loop (Suc n) rest =
     (if length rest < 4 then []
      else let len = le_nat (take 4 rest); body = drop 4 rest
           in if length body < len then [] else take len body # unpack_loop n (drop len body))"

definition unpack_labels :: "bytes \<Rightarrow> bytes list" where
  "unpack_labels packed =
     (if length packed < 4 then [] else unpack_loop (le_nat (take 4 packed)) (drop 4 packed))"

definition packable :: "bytes list \<Rightarrow> bool" where
  "packable labels \<longleftrightarrow> length labels < 2 ^ 32 \<and> (\<forall>l \<in> set labels. length l < 2 ^ 32)"

lemma le_nat_le_bytes4: "n < 2 ^ 32 \<Longrightarrow> le_nat (le_bytes 4 n) = n"
  by (simp add: le_nat_bytes)

lemma unpack_loop_take:
  assumes "\<forall>l \<in> set ls. length l < 2 ^ 32"
  shows "prefix (unpack_loop (length ls) (take n (concat (map (\<lambda>l. le_bytes 4 (length l) @ l) ls)))) ls"
    (is "prefix (unpack_loop _ (take n (?body ls))) ls")
  using assms
proof (induction ls arbitrary: n)
  case Nil
  then show ?case by simp
next
  case (Cons l ls)
  have len: "le_nat (le_bytes 4 (length l)) = length l"
    using Cons.prems by (intro le_nat_le_bytes4) simp
  show ?case
  proof (cases "n < 4 + length l")
    case True
    then have "n < 4 \<or> n - 4 < length l" by linarith
    then show ?thesis by (auto simp: len Let_def)
  next
    case False
    then have "take n (?body (l # ls)) = le_bytes 4 (length l) @ l @ take (n - (4 + length l)) (?body ls)"
      by simp
    then show ?thesis
      using Cons.IH [of "n - (4 + length l)"] Cons.prems by (simp add: len Let_def)
  qed
qed

lemma unpack_loop_all:
  assumes "\<forall>l \<in> set ls. length l < 2 ^ 32"
  shows "unpack_loop (length ls) (concat (map (\<lambda>l. le_bytes 4 (length l) @ l) ls)) = ls"
  using assms by (induction ls) (simp_all add: le_nat_le_bytes4 Let_def)

text \<open>
  Packing round-trips, and a truncated buffer never yields a wrong label: unpacking the first
  n bytes of a packed supertask returns an initial part of its labels, and all of them when
  nothing was cut.
\<close>

lemma pack_truncation_safe:
  assumes "packable labels"
  shows "prefix (unpack_labels (take n (pack_labels labels))) labels \<and>
    (length (pack_labels labels) \<le> n \<longrightarrow> unpack_labels (take n (pack_labels labels)) = labels)"
proof (intro conjI impI)
  have p: "le_nat (le_bytes 4 (length labels)) = length labels" "\<forall>l \<in> set labels. length l < 2 ^ 32"
    using assms by (simp_all add: packable_def le_nat_le_bytes4)
  show "prefix (unpack_labels (take n (pack_labels labels))) labels"
    using unpack_loop_take [OF p(2), of "n - 4"]
    by (cases "n < 4") (simp_all add: unpack_labels_def pack_labels_def p(1))
  show "unpack_labels (take n (pack_labels labels)) = labels" if "length (pack_labels labels) \<le> n"
    using that unpack_loop_all [OF p(2)] by (simp add: unpack_labels_def pack_labels_def p(1))
qed

end
