(* ===== verification/Uri.thy ===== *)
theory Uri
  imports Prelude
begin

text \<open>
  \<^verbatim>\<open>src/labios/uri.cpp\<close>: parsing and printing of \<^verbatim>\<open>scheme://authority/path?query\<close>.
\<close>

record uri =
  u_scheme :: string
  u_authority :: string
  u_path :: string
  u_query :: string

definition empty_uri :: uri where
  "empty_uri = \<lparr>u_scheme = [], u_authority = [], u_path = [], u_query = []\<rparr>"

definition uri_is_empty :: "uri \<Rightarrow> bool" where
  "uri_is_empty u \<longleftrightarrow> u_scheme u = [] \<and> u_path u = []"

text \<open>The split of a path from its query at the first question mark.\<close>

definition split_query :: "string \<Rightarrow> string \<times> string" where
  "split_query s =
     (case find_char (CHR ''?'') s of
        Some q \<Rightarrow> (take q s, drop (Suc q) s) | None \<Rightarrow> (s, []))"

definition parse_uri :: "string \<Rightarrow> uri" where
  "parse_uri raw =
     (if raw = [] then empty_uri
      else case find_sub ''://'' raw of
        None \<Rightarrow> (let (p, q) = split_query raw
                 in empty_uri\<lparr>u_scheme := ''file'', u_path := p, u_query := q\<rparr>)
      | Some pos \<Rightarrow>
          (let u = empty_uri\<lparr>u_scheme := take pos raw\<rparr>; rest = drop (pos + 3) raw
           in if rest = [] then u
              else if hd rest = CHR ''/''
              then (let (p, q) = split_query rest in u\<lparr>u_path := p, u_query := q\<rparr>)
              else case find_char (CHR ''/'') rest of
                     None \<Rightarrow> u\<lparr>u_authority := rest\<rparr>
                   | Some slash \<Rightarrow>
                       (let (p, q) = split_query (drop slash rest)
                        in u\<lparr>u_authority := take slash rest, u_path := p, u_query := q\<rparr>)))"

definition uri_to_string :: "uri \<Rightarrow> string" where
  "uri_to_string u =
     (if uri_is_empty u then []
      else u_scheme u @ ''://'' @ u_authority u @ u_path u @
           (if u_query u \<noteq> [] then CHR ''?'' # u_query u else []))"

text \<open>
  The URIs the grammar can express: no \<^verbatim>\<open>:\<close> in the scheme, no slash in the authority, an
  absolute path without question mark, and a query only after a path.
\<close>

definition uri_wf :: "uri \<Rightarrow> bool" where
  "uri_wf u \<longleftrightarrow>
     CHR '':'' \<notin> set (u_scheme u) \<and> CHR ''/'' \<notin> set (u_authority u) \<and>
     CHR ''?'' \<notin> set (u_path u) \<and>
     (if u_path u = [] then u_query u = [] \<and> u_scheme u \<noteq> [] else hd (u_path u) = CHR ''/'')"

lemma split_query_print:
  "CHR ''?'' \<notin> set p \<Longrightarrow> split_query (p @ (if q \<noteq> [] then CHR ''?'' # q else [])) = (p, q)"
  using find_char_None [of "CHR ''?''" p] by (auto simp: split_query_def find_char_append)

lemma find_scheme: "CHR '':'' \<notin> set s \<Longrightarrow> find_sub ''://'' (s @ ''://'' @ t) = Some (length s)"
  using find_sub_append [of "CHR '':''" s "''//''" t] by simp

text \<open>Everything after the scheme.\<close>

definition parse_rest :: "uri \<Rightarrow> string \<Rightarrow> uri" where
  "parse_rest u rest =
     (if rest = [] then u
      else if hd rest = CHR ''/''
      then (let (p, q) = split_query rest in u\<lparr>u_path := p, u_query := q\<rparr>)
      else case find_char (CHR ''/'') rest of
             None \<Rightarrow> u\<lparr>u_authority := rest\<rparr>
           | Some slash \<Rightarrow>
               (let (p, q) = split_query (drop slash rest)
                in u\<lparr>u_authority := take slash rest, u_path := p, u_query := q\<rparr>))"

lemma parse_uri_scheme:
  assumes "CHR '':'' \<notin> set s"
  shows "parse_uri (s @ ''://'' @ t) = parse_rest (empty_uri\<lparr>u_scheme := s\<rparr>) t"
proof -
  have ne: "s @ ''://'' @ t \<noteq> []" and dr: "drop (length s + 3) (s @ ''://'' @ t) = t"
    and tk: "take (length s) (s @ ''://'' @ t) = s" by simp_all
  show ?thesis
    unfolding parse_uri_def if_not_P [OF ne] find_scheme [OF assms] option.case Let_def dr tk
      parse_rest_def ..
qed

lemma uri_print_parse:
  assumes "uri_wf u"
  shows "parse_uri (uri_to_string u) = u"
proof -
  obtain s a p q where u: "u = \<lparr>u_scheme = s, u_authority = a, u_path = p, u_query = q\<rparr>"
    by (cases u)
  let ?tail = "p @ (if q \<noteq> [] then CHR ''?'' # q else [])"
  have wf: "CHR '':'' \<notin> set s" "CHR ''/'' \<notin> set a" "CHR ''?'' \<notin> set p"
    "p = [] \<Longrightarrow> q = [] \<and> s \<noteq> []" "p \<noteq> [] \<Longrightarrow> hd p = CHR ''/''"
    using assms by (auto simp: uri_wf_def u split: if_splits)
  have str: "uri_to_string u = s @ ''://'' @ a @ ?tail"
    using wf(4) by (auto simp: uri_to_string_def uri_is_empty_def u)
  have sq: "split_query ?tail = (p, q)" by (rule split_query_print [OF wf(3)])
  have "parse_rest (empty_uri\<lparr>u_scheme := s\<rparr>) (a @ ?tail) = u"
  proof (cases "p = []")
    case True
    then have "q = []" using wf(4) by simp
    moreover have fc: "find_char (CHR ''/'') a = None" using wf(2) find_char_None by metis
    moreover have "a = [] \<or> hd a \<noteq> CHR ''/''" using wf(2) by (cases a) auto
    ultimately show ?thesis using True
      by (cases "a = []") (simp_all add: parse_rest_def u empty_uri_def)
  next
    case False
    then obtain p' where p: "p = CHR ''/'' # p'" using wf(5) by (cases p) auto
    have fc: "find_char (CHR ''/'') (a @ ?tail) = Some (length a)"
      using find_char_append [OF wf(2), of "p' @ (if q \<noteq> [] then CHR ''?'' # q else [])"] p by simp
    show ?thesis
    proof (cases "a = []")
      case True
      then show ?thesis using p sq by (simp add: parse_rest_def u empty_uri_def)
    next
      case False
      then have ne: "hd (a @ ?tail) \<noteq> CHR ''/''" "a @ ?tail \<noteq> []"
        using wf(2) by (auto simp: hd_append dest: hd_in_set)
      have "drop (length a) (a @ ?tail) = ?tail" "take (length a) (a @ ?tail) = a" by simp_all
      then show ?thesis
        unfolding parse_rest_def if_not_P [OF ne(1)] if_not_P [OF ne(2)] fc option.case
        by (simp add: sq u empty_uri_def)
    qed
  qed
  then show ?thesis unfolding str parse_uri_scheme [OF wf(1)] .
qed

text \<open>
  Printing then parsing a well-formed URI gives it back, with its scheme, authority, path and
  query.
\<close>

lemma uri_roundtrip:
  assumes "uri_wf u"
  shows "parse_uri (uri_to_string u) = u"
  using assms by (rule uri_print_parse)

end
