(* ===== verification/Solver.thy ===== *)
theory Solver
  imports Label
begin

text \<open>
  The solvers of \<^verbatim>\<open>src/labios/solver/\<close>: round robin, random, constraint and minmax, over the
  worker descriptions of \<^verbatim>\<open>include/labios/solver/solver.h\<close>, and the intent profiles. A packed
  label is opaque here (type \<open>'l\<close>). \<^verbatim>\<open>AssignmentMap\<close>, an unordered map from worker to labels,
  is an association list with one entry per worker. \<^verbatim>\<open>double\<close> is \<open>rat\<close>.
\<close>

subsection \<open>Workers and weight profiles\<close>

datatype worker_tier = Databot | Pipeline | Agentic

fun tier_num :: "worker_tier \<Rightarrow> nat" where
  "tier_num Databot = 0"
| "tier_num Pipeline = 1"
| "tier_num Agentic = 2"

record worker_info =
  w_id :: int
  w_available :: bool
  w_capacity :: rat
  w_load :: rat
  w_speed :: int
  w_energy :: int
  w_tier :: worker_tier
  w_skills :: rat
  w_compute :: rat
  w_reasoning :: int
  w_score :: rat

definition default_worker :: "int \<Rightarrow> worker_info" where
  "default_worker i = \<lparr>w_id = i, w_available = True, w_capacity = 1, w_load = 0, w_speed = 1,
     w_energy = 1, w_tier = Databot, w_skills = 0, w_compute = 1, w_reasoning = 0, w_score = 1\<rparr>"

record weight_profile =
  p_name :: string
  p_availability :: rat
  p_capacity :: rat
  p_load :: rat
  p_speed :: rat
  p_energy :: rat
  p_tier :: rat
  p_skills :: rat
  p_compute :: rat
  p_reasoning :: rat

definition default_profile :: weight_profile where
  "default_profile = \<lparr>p_name = [], p_availability = 0, p_capacity = 0, p_load = 0, p_speed = 0,
     p_energy = 0, p_tier = 0, p_skills = 0, p_compute = 0, p_reasoning = 0\<rparr>"

text \<open>\<^verbatim>\<open>worker_manager.cpp\<close>, \<^verbatim>\<open>compute_score\<close>.\<close>

definition compute_score :: "worker_info \<Rightarrow> weight_profile \<Rightarrow> rat" where
  "compute_score w wp =
     (let avail = (if w_available w then 1 else 0);
          load_inv = 1 - w_load w;
          speed_norm = of_int (w_speed w) / 5;
          energy_norm = of_int (w_energy w) / 5;
          tier_norm = of_nat (tier_num (w_tier w)) / 2;
          reasoning_norm = of_int (w_reasoning w) / 5
      in p_availability wp * avail + p_capacity wp * w_capacity w + p_load wp * load_inv
         + p_speed wp * speed_norm + p_energy wp * energy_norm + p_tier wp * tier_norm
         + p_skills wp * w_skills w + p_compute wp * w_compute w + p_reasoning wp * reasoning_norm)"

text \<open>\<^verbatim>\<open>intent_profiles.h\<close>.\<close>

definition profile_for_intent :: "weight_profile \<Rightarrow> intent \<Rightarrow> weight_profile" where
  "profile_for_intent p i =
     (case i of
        Checkpoint \<Rightarrow> p\<lparr>p_capacity := max (p_capacity p) (4/10), p_speed := max (p_speed p) (4/10),
                       p_tier := 0\<rparr>
      | Embedding \<Rightarrow> p\<lparr>p_tier := max (p_tier p) (4/10), p_speed := max (p_speed p) (3/10)\<rparr>
      | ModelWeight \<Rightarrow> p\<lparr>p_tier := max (p_tier p) (4/10), p_speed := max (p_speed p) (3/10)\<rparr>
      | ReasoningTrace \<Rightarrow> p\<lparr>p_tier := max (p_tier p) (5/10)\<rparr>
      | KVCache \<Rightarrow> p\<lparr>p_tier := max (p_tier p) (5/10)\<rparr>
      | Cache \<Rightarrow> p\<lparr>p_speed := max (p_speed p) (4/10), p_load := max (p_load p) (3/10)\<rparr>
      | Intermediate \<Rightarrow> p\<lparr>p_load := max (p_load p) (2/10),
                         p_availability := max (p_availability p) (5/10)\<rparr>
      | _ \<Rightarrow> p)"

subsection \<open>Assignments\<close>

type_synonym 'l assignment = "(int \<times> 'l list) list"

definition assigned :: "'l assignment \<Rightarrow> int \<Rightarrow> 'l list" where
  "assigned a w = (case map_of a w of None \<Rightarrow> [] | Some ls \<Rightarrow> ls)"

text \<open>Labels pushed one by one to the worker a function of their position picks.\<close>

definition push_all :: "(nat \<Rightarrow> int) \<Rightarrow> 'l list \<Rightarrow> 'l assignment \<Rightarrow> 'l assignment" where
  "push_all pick labels acc = fold (\<lambda>(i, l). push_group (pick i) l) (enumerate 0 labels) acc"

subsection \<open>Round robin\<close>

definition available_ids :: "worker_info list \<Rightarrow> int list" where
  "available_ids ws = map w_id (filter w_available ws)"

fun deal :: "int list \<Rightarrow> nat \<Rightarrow> 'l list \<Rightarrow> 'l assignment \<Rightarrow> 'l assignment \<times> nat" where
  "deal ids next [] acc = (acc, next)"
| "deal ids next (l # ls) acc =
     deal ids ((next + 1) mod length ids) ls (push_group (ids ! next) l acc)"

definition round_robin_assign ::
    "nat \<Rightarrow> 'l list \<Rightarrow> worker_info list \<Rightarrow> 'l assignment \<times> nat" where
  "round_robin_assign next labels ws =
     (let ids = available_ids ws in
      if ids = [] then ([], next)
      else deal ids (if next \<ge> length ids then 0 else next) labels [])"

subsection \<open>Random\<close>

text \<open>
  \<open>draw r n\<close> stands for \<^verbatim>\<open>std::uniform_int_distribution(0, n - 1)\<close> on the Mersenne twister:
  a value below \<open>n\<close> and the generator's next state.
\<close>

fun random_deal ::
    "('r \<Rightarrow> nat \<Rightarrow> nat \<times> 'r) \<Rightarrow> worker_info list \<Rightarrow> 'r \<Rightarrow> 'l list \<Rightarrow> 'l assignment \<Rightarrow> 'l assignment \<times> 'r"
  where
  "random_deal draw ws r [] acc = (acc, r)"
| "random_deal draw ws r (l # ls) acc =
     (let (k, r') = draw r (length ws) in random_deal draw ws r' ls (push_group (w_id (ws ! k)) l acc))"

definition random_assign ::
    "('r \<Rightarrow> nat \<Rightarrow> nat \<times> 'r) \<Rightarrow> 'r \<Rightarrow> 'l list \<Rightarrow> worker_info list \<Rightarrow> 'l assignment \<times> 'r" where
  "random_assign draw r labels ws =
     (if ws = [] then ([], r) else random_deal draw ws r labels [])"

subsection \<open>Constraint\<close>

definition labels_per_worker :: nat where
  "labels_per_worker = 50"

text \<open>\<^verbatim>\<open>std::sort\<close> by descending score, as a stable sort by the negated score.\<close>

definition scored_ids :: "(worker_info \<Rightarrow> rat) \<Rightarrow> worker_info list \<Rightarrow> int list" where
  "scored_ids score ws = map w_id (sort_key (\<lambda>w. - score w) (filter w_available ws))"

definition workers_needed :: "nat \<Rightarrow> nat \<Rightarrow> nat" where
  "workers_needed n_scored n_labels =
     min n_scored (max 1 ((n_labels + labels_per_worker - 1) div labels_per_worker))"

definition constraint_assign :: "weight_profile \<Rightarrow> 'l list \<Rightarrow> worker_info list \<Rightarrow> 'l assignment" where
  "constraint_assign profile labels ws =
     (if ws = [] \<or> labels = [] then []
      else let scored = scored_ids (\<lambda>w. compute_score w profile) ws in
           if scored = [] then []
           else let n_workers = workers_needed (length scored) (length labels)
                in push_all (\<lambda>i. scored ! (i mod n_workers)) labels [])"

subsection \<open>Minmax\<close>

definition profit :: "worker_info \<Rightarrow> rat" where
  "profit w =
     (let speed_norm = of_int (w_speed w) / 5; energy_norm = max (of_int (w_energy w) / 5) (1/100)
      in speed_norm * w_capacity w * (1 - w_load w) / energy_norm)"

text \<open>
  \<^verbatim>\<open>static_cast<size_t>(std::round(x))\<close> of a non-negative \<open>x\<close>. (A negative \<open>x\<close>, which needs a
  capacity or load outside [0,1], is undefined in C++ and counts as zero here.)
\<close>

definition round_nat :: "rat \<Rightarrow> nat" where
  "round_nat x = nat \<lfloor>x + 1/2\<rfloor>"

text \<open>One worker's share of the labels left, \<open>n_labels\<close> being the size of the whole batch.\<close>

definition minmax_share :: "rat \<Rightarrow> nat \<Rightarrow> nat \<Rightarrow> nat \<Rightarrow> worker_info \<Rightarrow> nat" where
  "minmax_share tot n_scored n_labels left w =
     (let fraction = (if tot > 0 then profit w / tot else 1 / of_nat n_scored);
          n = min (round_nat (fraction * of_nat n_labels)) left
      in if n = 0 \<and> left > 0 then 1 else n)"

fun minmax_fill ::
    "rat \<Rightarrow> nat \<Rightarrow> nat \<Rightarrow> worker_info list \<Rightarrow> 'l list \<Rightarrow> 'l assignment \<Rightarrow> 'l assignment \<times> 'l list" where
  "minmax_fill tot n_scored n_labels [] left acc = (acc, left)"
| "minmax_fill tot n_scored n_labels (w # ws) left acc =
     (if left = [] then (acc, left)
      else let n = minmax_share tot n_scored n_labels (length left) w
           in minmax_fill tot n_scored n_labels ws (drop n left)
                (fold (push_group (w_id w)) (take n left) acc))"

definition minmax_assign :: "'l list \<Rightarrow> worker_info list \<Rightarrow> 'l assignment" where
  "minmax_assign labels ws =
     (if ws = [] \<or> labels = [] then []
      else let scored = sort_key (\<lambda>w. - profit w) (filter w_available ws) in
           if scored = [] then []
           else let tot = sum_list (map profit scored);
                    (acc, left) = minmax_fill tot (length scored) (length labels) scored labels []
                in fold (push_group (w_id (hd scored))) left acc)"

subsection \<open>The contract of a solver\<close>

lemma disjoint_values:
  assumes "distinct (concat (map snd a))" "(w, ls) \<in> set a" "(w', ls') \<in> set a" "w \<noteq> w'"
  shows "set ls \<inter> set ls' = {}"
  using assms by (induction a) (auto, force+)

text \<open>
  What the dispatcher relies on when it publishes an assignment: it keeps the labels exactly,
  uses only workers of the pool, and has one entry per worker, none of them empty. A solver has
  internal state \<open>'s\<close> (the round-robin cursor, the random generator).
\<close>

locale label_solver =
  fixes assign :: "'s \<Rightarrow> 'l list \<Rightarrow> worker_info list \<Rightarrow> 'l assignment \<times> 's"
    and pool :: "worker_info list \<Rightarrow> int list"
  assumes conserves: "pool ws \<noteq> [] \<Longrightarrow> all_grouped (fst (assign s labels ws)) = mset labels"
    and eligible: "fst ` set (fst (assign s labels ws)) \<subseteq> set (pool ws)"
    and one_entry: "distinct (map fst (fst (assign s labels ws)))"
    and no_empty: "list_all (\<lambda>(w, ls). ls \<noteq> []) (fst (assign s labels ws))"
begin

lemma empty_pool: "pool ws = [] \<Longrightarrow> fst (assign s labels ws) = []"
  using eligible [of s labels ws] by simp

lemma every_label_assigned:
  assumes "pool ws \<noteq> []" "l \<in> set labels"
  obtains w where "w \<in> set (pool ws)" "l \<in> set (assigned (fst (assign s labels ws)) w)"
proof -
  have "l \<in># all_grouped (fst (assign s labels ws))"
    using conserves [OF assms(1), of s labels] assms(2) by simp
  then obtain w ls where e: "(w, ls) \<in> set (fst (assign s labels ws))" "l \<in> set ls"
    by (auto simp: all_grouped_def)
  then have "map_of (fst (assign s labels ws)) w = Some ls"
    using one_entry [of s labels ws] by simp
  then show thesis
    using e eligible [of s labels ws] by (intro that [of w]) (force simp: assigned_def)+
qed

lemma no_label_twice:
  assumes "distinct labels" "w \<noteq> w'"
  shows "set (assigned (fst (assign s labels ws)) w) \<inter> set (assigned (fst (assign s labels ws)) w') = {}"
proof (cases "pool ws = []")
  case True
  then show ?thesis by (simp add: empty_pool assigned_def)
next
  case False
  let ?a = "fst (assign s labels ws)"
  have "mset (concat (map snd ?a)) = mset labels"
    using conserves [OF False, of s labels] by (simp add: all_grouped_def)
  then have d: "distinct (concat (map snd ?a))"
    using assms(1) mset_eq_imp_distinct_iff by blast
  have False if x: "x \<in> set (assigned ?a w)" "x \<in> set (assigned ?a w')" for x
  proof -
    obtain ls where ls: "map_of ?a w = Some ls" "x \<in> set ls"
      using x(1) by (cases "map_of ?a w") (auto simp: assigned_def)
    obtain ls' where ls': "map_of ?a w' = Some ls'" "x \<in> set ls'"
      using x(2) by (cases "map_of ?a w'") (auto simp: assigned_def)
    show False
      using disjoint_values [OF d map_of_SomeD [OF ls(1)] map_of_SomeD [OF ls'(1)] assms(2)] ls ls' by blast
  qed
  then show ?thesis by blast
qed

end

subsection \<open>The solvers keep the contract\<close>

lemma keys_fold_push_group:
  "fst ` set (fold (\<lambda>(k, x). push_group k x) ps gs) = fst ` set gs \<union> fst ` set ps"
  by (induction ps arbitrary: gs) (simp_all add: set_keys_push_group case_prod_beta)

lemma deal_push: "\<exists>ps. map snd ps = ls \<and> fst (deal ids n ls acc) = fold (\<lambda>(k, x). push_group k x) ps acc \<and>
    (n < length ids \<longrightarrow> fst ` set ps \<subseteq> set ids)"
proof (induction ids n ls acc rule: deal.induct)
  case (1 ids nxt acc)
  show ?case by (intro exI [of _ "[]"]) simp
next
  case (2 ids nxt l ls acc)
  then obtain ps where ps: "map snd ps = ls"
    "fst (deal ids ((nxt + 1) mod length ids) ls (push_group (ids ! nxt) l acc)) =
       fold (\<lambda>(k, x). push_group k x) ps (push_group (ids ! nxt) l acc)"
    "(nxt + 1) mod length ids < length ids \<longrightarrow> fst ` set ps \<subseteq> set ids"
    by blast
  have "fst ` set ((ids ! nxt, l) # ps) \<subseteq> set ids" if "nxt < length ids"
  proof -
    have "(nxt + 1) mod length ids < length ids" using that by (intro mod_less_divisor) linarith
    then show ?thesis using ps(3) that by simp
  qed
  then show ?case using ps by (intro exI [of _ "(ids ! nxt, l) # ps"]) simp
qed

lemma random_deal_push:
  assumes "\<forall>r n. 0 < n \<longrightarrow> fst (draw r n) < n" "ws \<noteq> []"
  shows "\<exists>ps. map snd ps = ls \<and>
    fst (random_deal draw ws r ls acc) = fold (\<lambda>(k, x). push_group k x) ps acc \<and>
    fst ` set ps \<subseteq> w_id ` set ws"
  using assms
proof (induction draw ws r ls acc rule: random_deal.induct)
  case (1 draw ws r acc)
  show ?case by (intro exI [of _ "[]"]) simp
next
  case (2 draw ws r l ls acc)
  obtain k r' where k: "draw r (length ws) = (k, r')" by fastforce
  obtain ps where ps: "map snd ps = ls" "fst ` set ps \<subseteq> w_id ` set ws"
    "fst (random_deal draw ws r' ls (push_group (w_id (ws ! k)) l acc)) =
       fold (\<lambda>(k, x). push_group k x) ps (push_group (w_id (ws ! k)) l acc)"
    using 2 k by fastforce
  have "k < length ws" using 2(2,3) k by (metis fst_conv length_greater_0_conv)
  then show ?case using ps k by (intro exI [of _ "(w_id (ws ! k), l) # ps"]) simp
qed

lemma push_all_push:
  "push_all pick ls acc = fold (\<lambda>(k, x). push_group k x) (map (\<lambda>(i, l). (pick i, l)) (enumerate 0 ls)) acc"
  unfolding push_all_def fold_map by (intro fold_cong) auto

lemma minmax_fill_push:
  "\<exists>ps. fst (minmax_fill tot k n ws left acc) = fold (\<lambda>(k, x). push_group k x) ps acc \<and>
     map snd ps @ snd (minmax_fill tot k n ws left acc) = left \<and> fst ` set ps \<subseteq> w_id ` set ws"
proof (induction tot k n ws left acc rule: minmax_fill.induct)
  case (1 tot k n left acc)
  show ?case by (intro exI [of _ "[]"]) simp
next
  case (2 tot k n w ws left acc)
  show ?case
  proof (cases "left = []")
    case True
    then show ?thesis by (intro exI [of _ "[]"]) simp
  next
    case False
    let ?m = "minmax_share tot k n (length left) w"
    obtain ps where ps:
      "fst (minmax_fill tot k n ws (drop ?m left) (fold (push_group (w_id w)) (take ?m left) acc)) =
        fold (\<lambda>(k, x). push_group k x) ps (fold (push_group (w_id w)) (take ?m left) acc)"
      "map snd ps @ snd (minmax_fill tot k n ws (drop ?m left)
        (fold (push_group (w_id w)) (take ?m left) acc)) = drop ?m left"
      "fst ` set ps \<subseteq> w_id ` set ws"
      using 2 False by blast
    have "fold (push_group (w_id w)) xs acc = fold (\<lambda>(k, x). push_group k x) (map (Pair (w_id w)) xs) acc"
      for xs by (simp add: fold_map comp_def)
    then show ?thesis
      using ps False
      by (intro exI [of _ "map (Pair (w_id w)) (take ?m left) @ ps"]) (auto simp: comp_def Let_def)
  qed
qed

text \<open>Any fold of pushes keeps what the contract asks for.\<close>

lemma pushes_contract:
  assumes "a = fold (\<lambda>(k, x). push_group k x) ps []"
  shows "all_grouped a = mset (map snd ps)" "fst ` set a = fst ` set ps" "distinct (map fst a)"
    "list_all (\<lambda>(w, ls). ls \<noteq> []) a"
proof -
  have "all_grouped (fold (\<lambda>(k, x). push_group k x) ps gs) = all_grouped gs + mset (map snd ps)" for gs
    by (induction ps arbitrary: gs) (auto simp: group_simps)
  then show "all_grouped a = mset (map snd ps)" using assms by (simp add: all_grouped_def)
  show "fst ` set a = fst ` set ps" using assms by (simp add: keys_fold_push_group)
  have "distinct (map fst gs) \<Longrightarrow> distinct (map fst (fold (\<lambda>(k, x). push_group k x) ps gs))" for gs
    by (induction ps arbitrary: gs) (auto simp: group_simps)
  then show "distinct (map fst a)" using assms by simp
  have "list_all (\<lambda>(w, ls). ls \<noteq> []) gs \<Longrightarrow>
      list_all (\<lambda>(w, ls). ls \<noteq> []) (fold (\<lambda>(k, x). push_group k x) ps gs)" for gs
    by (induction ps arbitrary: gs) (auto simp: group_simps)
  then show "list_all (\<lambda>(w, ls). ls \<noteq> []) a" using assms by simp
qed

interpretation rr: label_solver round_robin_assign available_ids
proof
  fix s :: nat and labels :: "'l list" and ws :: "worker_info list"
  let ?n = "if s \<ge> length (available_ids ws) then 0 else s"
  obtain ps where ps: "map snd ps = labels"
    "fst (deal (available_ids ws) ?n labels []) = fold (\<lambda>(k, x). push_group k x) ps []"
    "?n < length (available_ids ws) \<longrightarrow> fst ` set ps \<subseteq> set (available_ids ws)"
    using deal_push [of labels "available_ids ws" ?n "[]"] by metis
  note c = pushes_contract [OF ps(2)]
  have a: "fst (round_robin_assign s labels ws) =
      (if available_ids ws = [] then [] else fst (deal (available_ids ws) ?n labels []))"
    by (simp add: round_robin_assign_def Let_def)
  show "available_ids ws \<noteq> [] \<Longrightarrow> all_grouped (fst (round_robin_assign s labels ws)) = mset labels"
    unfolding a using c(1) ps(1) by simp
  show "fst ` set (fst (round_robin_assign s labels ws)) \<subseteq> set (available_ids ws)"
    unfolding a using c(2) ps(3) by (auto split: if_splits)
  show "distinct (map fst (fst (round_robin_assign s labels ws)))"
    unfolding a using c(3) by simp
  show "list_all (\<lambda>(w, ls). ls \<noteq> []) (fst (round_robin_assign s labels ws))"
    unfolding a using c(4) by simp
qed

text \<open>The random solver's pool is every worker, \<open>draw\<close> being any generator within range.\<close>

definition ranged_draw :: "('r \<Rightarrow> nat \<Rightarrow> nat \<times> 'r) \<Rightarrow> 'r \<Rightarrow> nat \<Rightarrow> nat \<times> 'r" where
  "ranged_draw draw r n = (let (k, r') = draw r n in (k mod n, r'))"

interpretation rnd: label_solver "random_assign (ranged_draw draw)" "map w_id" for draw
proof
  fix s and labels :: "'l list" and ws :: "worker_info list"
  let ?a = "fst (random_assign (ranged_draw draw) s labels ws)"
  have r: "\<forall>r n. 0 < n \<longrightarrow> fst (ranged_draw draw r n) < n"
    by (simp add: ranged_draw_def split: prod.split)
  have "\<exists>ps. ?a = fold (\<lambda>(k, x). push_group k x) ps [] \<and> (ws \<noteq> [] \<longrightarrow> map snd ps = labels) \<and>
      fst ` set ps \<subseteq> w_id ` set ws"
  proof (cases "ws = []")
    case True
    then show ?thesis by (intro exI [of _ "[]"]) (simp add: random_assign_def)
  next
    case False
    then show ?thesis using random_deal_push [OF r False, of labels s "[]"]
      by (auto simp: random_assign_def)
  qed
  then obtain ps where ps: "?a = fold (\<lambda>(k, x). push_group k x) ps []"
    "ws \<noteq> [] \<longrightarrow> map snd ps = labels" "fst ` set ps \<subseteq> w_id ` set ws" by blast
  note c = pushes_contract [OF ps(1)]
  show "map w_id ws \<noteq> [] \<Longrightarrow> all_grouped ?a = mset labels" using c(1) ps(2) by simp
  show "fst ` set ?a \<subseteq> set (map w_id ws)" using c(2) ps(3) by simp
  show "distinct (map fst ?a)" "list_all (\<lambda>(w, ls). ls \<noteq> []) ?a" using c(3,4) by simp_all
qed

lemma set_scored_ids: "set (scored_ids score ws) = set (available_ids ws)"
  by (auto simp: scored_ids_def available_ids_def)

lemma scored_ids_empty: "scored_ids score ws = [] \<longleftrightarrow> available_ids ws = []"
  by (metis set_scored_ids set_empty)

definition constraint_step ::
    "weight_profile \<Rightarrow> unit \<Rightarrow> 'l list \<Rightarrow> worker_info list \<Rightarrow> 'l assignment \<times> unit" where
  "constraint_step profile s labels ws = (constraint_assign profile labels ws, ())"

lemma workers_needed_bounds:
  "0 < k \<Longrightarrow> 0 < workers_needed k n" "workers_needed k n \<le> k"
  by (simp_all add: workers_needed_def)

interpretation con: label_solver "constraint_step profile" available_ids for profile
proof
  fix s :: unit and labels :: "'l list" and ws :: "worker_info list"
  let ?a = "fst (constraint_step profile s labels ws)"
  let ?sc = "scored_ids (\<lambda>w. compute_score w profile) ws"
  have "\<exists>ps. ?a = fold (\<lambda>(k, x). push_group k x) ps [] \<and>
      (available_ids ws \<noteq> [] \<longrightarrow> map snd ps = labels) \<and> fst ` set ps \<subseteq> set (available_ids ws)"
  proof (cases "ws = [] \<or> labels = [] \<or> ?sc = []")
    case True
    then show ?thesis
      by (intro exI [of _ "[]"])
         (auto simp: constraint_step_def constraint_assign_def Let_def scored_ids_empty available_ids_def)
  next
    case False
    let ?n = "workers_needed (length ?sc) (length labels)"
    let ?ps = "map (\<lambda>(i, l). (?sc ! (i mod ?n), l)) (enumerate 0 labels)"
    have lt: "i mod ?n < length ?sc" for i
      using False workers_needed_bounds [of "length ?sc" "length labels"]
        workers_needed_bounds(2) [of "length ?sc" "length labels"] mod_less_divisor [of ?n i]
      by (metis length_greater_0_conv order_less_le_trans)
    have "?a = fold (\<lambda>(k, x). push_group k x) ?ps []"
      using False by (simp add: constraint_step_def constraint_assign_def Let_def push_all_push)
    moreover have "map snd ?ps = labels" by (simp add: comp_def case_prod_beta)
    moreover have "fst ` set ?ps \<subseteq> set (available_ids ws)"
    proof -
      have "?sc ! (i mod ?n) \<in> set ?sc" for i using lt by (rule nth_mem)
      then show ?thesis unfolding set_scored_ids by (force simp: case_prod_beta)
    qed
    ultimately show ?thesis by blast
  qed
  then obtain ps where ps: "?a = fold (\<lambda>(k, x). push_group k x) ps []"
    "available_ids ws \<noteq> [] \<longrightarrow> map snd ps = labels" "fst ` set ps \<subseteq> set (available_ids ws)" by blast
  note c = pushes_contract [OF ps(1)]
  show "available_ids ws \<noteq> [] \<Longrightarrow> all_grouped ?a = mset labels" using c(1) ps(2) by simp
  show "fst ` set ?a \<subseteq> set (available_ids ws)" using c(2) ps(3) by simp
  show "distinct (map fst ?a)" "list_all (\<lambda>(w, ls). ls \<noteq> []) ?a" using c(3,4) by simp_all
qed

definition minmax_step :: "unit \<Rightarrow> 'l list \<Rightarrow> worker_info list \<Rightarrow> 'l assignment \<times> unit" where
  "minmax_step s labels ws = (minmax_assign labels ws, ())"

lemma fold_push_const:
  "fold (push_group k) xs acc = fold (\<lambda>(k, x). push_group k x) (map (Pair k) xs) acc"
  by (simp add: fold_map comp_def)

interpretation mm: label_solver minmax_step available_ids
proof
  fix s :: unit and labels :: "'l list" and ws :: "worker_info list"
  let ?a = "fst (minmax_step s labels ws)"
  let ?sc = "sort_key (\<lambda>w. - profit w) (filter w_available ws)"
  have ids: "w_id ` set ?sc = set (available_ids ws)" by (simp add: available_ids_def)
  have "\<exists>ps. ?a = fold (\<lambda>(k, x). push_group k x) ps [] \<and>
      (available_ids ws \<noteq> [] \<longrightarrow> map snd ps = labels) \<and> fst ` set ps \<subseteq> set (available_ids ws)"
  proof (cases "ws = [] \<or> labels = [] \<or> ?sc = []")
    case True
    moreover have "?sc = [] \<longleftrightarrow> available_ids ws = []"
      using ids by (metis image_is_empty set_empty)
    ultimately have "?a = []" "available_ids ws \<noteq> [] \<longrightarrow> labels = []"
      by (auto simp: minmax_step_def minmax_assign_def Let_def available_ids_def)
    then show ?thesis by (intro exI [of _ "[]"]) simp
  next
    case False
    let ?f = "minmax_fill (sum_list (map profit ?sc)) (length ?sc) (length labels) ?sc labels []"
    obtain ps where ps: "fst ?f = fold (\<lambda>(k, x). push_group k x) ps []"
      "map snd ps @ snd ?f = labels" "fst ` set ps \<subseteq> w_id ` set ?sc"
      using minmax_fill_push by blast
    have "?a = fold (push_group (w_id (hd ?sc))) (snd ?f) (fst ?f)"
      using False by (simp add: minmax_step_def minmax_assign_def Let_def case_prod_beta)
    then have "?a = fold (\<lambda>(k, x). push_group k x) (ps @ map (Pair (w_id (hd ?sc))) (snd ?f)) []"
      using ps(1) by (simp add: fold_push_const)
    moreover have "map snd (ps @ map (Pair (w_id (hd ?sc))) (snd ?f)) = labels"
      using ps(2) by (simp add: comp_def)
    moreover have "fst ` set (ps @ map (Pair (w_id (hd ?sc))) (snd ?f)) \<subseteq> set (available_ids ws)"
      using ps(3) False ids hd_in_set [of ?sc] by auto
    ultimately show ?thesis by blast
  qed
  then obtain ps where ps: "?a = fold (\<lambda>(k, x). push_group k x) ps []"
    "available_ids ws \<noteq> [] \<longrightarrow> map snd ps = labels" "fst ` set ps \<subseteq> set (available_ids ws)" by blast
  note c = pushes_contract [OF ps(1)]
  show "available_ids ws \<noteq> [] \<Longrightarrow> all_grouped ?a = mset labels" using c(1) ps(2) by simp
  show "fst ` set ?a \<subseteq> set (available_ids ws)" using c(2) ps(3) by simp
  show "distinct (map fst ?a)" "list_all (\<lambda>(w, ls). ls \<noteq> []) ?a" using c(3,4) by simp_all
qed

text \<open>
  C13: No solver loses or invents a label: when at least one worker is available, round robin,
  constraint and minmax each hand out exactly the labels they were given, and only to available
  workers.
\<close>

theorem solvers_assign_every_label:
  assumes "available_ids ws \<noteq> []"
    and "a \<in> {fst (round_robin_assign cursor labels ws), constraint_assign profile labels ws,
              minmax_assign labels ws}"
  shows "all_grouped a = mset labels \<and> fst ` set a \<subseteq> set (available_ids ws)"
proof -
  have "constraint_assign profile labels ws = fst (constraint_step profile () labels ws)"
    "minmax_assign labels ws = fst (minmax_step () labels ws)"
    by (simp_all add: constraint_step_def minmax_step_def)
  then consider "a = fst (round_robin_assign cursor labels ws)"
    | "a = fst (constraint_step profile () labels ws)" | "a = fst (minmax_step () labels ws)"
    using assms(2) by auto
  then show ?thesis
    using rr.conserves [OF assms(1), of cursor labels] rr.eligible [of cursor labels ws]
      con.conserves [OF assms(1), of profile "()" labels] con.eligible [of profile "()" labels ws]
      mm.conserves [OF assms(1), of "()" labels] mm.eligible [of "()" labels ws]
    by cases simp_all
qed

theorem solvers_assign_every_label_witness:
  "all_grouped (minmax_assign [''a'', ''b'', ''c'']
     [default_worker 1, (default_worker 2)\<lparr>w_available := False\<rparr>, default_worker 3])
   = {#''a'', ''b'', ''c''#}"
  using solvers_assign_every_label
    [of "[default_worker 1, (default_worker 2)\<lparr>w_available := False\<rparr>, default_worker 3]"
        "minmax_assign [''a'', ''b'', ''c'']
          [default_worker 1, (default_worker 2)\<lparr>w_available := False\<rparr>, default_worker 3]"
        0 "[''a'', ''b'', ''c'']" default_profile]
  by (simp add: available_ids_def default_worker_def)

subsection \<open>Balance\<close>

lemma assigned_push_group:
  "assigned (push_group k x gs) w = (if w = k then assigned gs w @ [x] else assigned gs w)"
  by (simp add: assigned_def map_of_push_group split: option.splits)

lemma assigned_pushes:
  "assigned (fold (\<lambda>(k, x). push_group k x) ps gs) w = assigned gs w @ map snd (filter (\<lambda>p. fst p = w) ps)"
  by (induction ps arbitrary: gs) (auto simp: assigned_push_group)

lemma length_assigned_push_all:
  "length (assigned (push_all pick ls []) w) = length (filter (\<lambda>i. pick i = w) [0..<length ls])"
proof -
  have e: "map (\<lambda>(i, l). (pick i, l)) xs = map (\<lambda>p. (pick (fst p), snd p)) xs" for xs
    by (simp add: case_prod_beta)
  have "length (filter (\<lambda>p. pick (fst p) = w) (enumerate 0 ls)) =
      length (filter (\<lambda>i. pick i = w) (map fst (enumerate 0 ls)))"
    by (simp only: filter_map comp_def length_map)
  then have "length (filter (\<lambda>p. pick (fst p) = w) (enumerate 0 ls)) =
      length (filter (\<lambda>i. pick i = w) [0..<length ls])"
    by simp
  then show ?thesis
    unfolding push_all_push assigned_pushes e
    by (simp add: filter_map comp_def) (simp add: assigned_def)
qed

lemma deal_fold:
  "c < length ids \<Longrightarrow> fst (deal ids c ls acc) =
     fold (\<lambda>(i, l). push_group (ids ! ((c + i) mod length ids)) l) (enumerate 0 ls) acc"
proof (induction ids c ls acc rule: deal.induct)
  case (1 ids nxt acc)
  show ?case by simp
next
  case (2 ids c l ls acc)
  have lt: "(c + 1) mod length ids < length ids" using 2 by (intro mod_less_divisor) linarith
  have e: "enumerate 0 (l # ls) = (0, l) # map (apfst Suc) (enumerate 0 ls)"
    by (simp add: enumerate_Suc_eq)
  have "((c + 1) mod length ids + i) mod length ids = (c + Suc i) mod length ids" for i
    by (simp add: mod_add_left_eq)
  then show ?case
    using 2 lt unfolding e by (simp add: fold_map comp_def case_prod_beta)
qed

text \<open>How often a residue occurs among the first numbers.\<close>

lemma residue_zero:
  fixes m n k :: nat
  assumes "k < n"
  shows "(m + n - k) mod n = 0 \<longleftrightarrow> m mod n = k"
proof -
  define r where "r = m mod n"
  have r: "r < n" using assms by (simp add: r_def)
  have "n * (m div n) + r = m" by (simp add: r_def)
  then have "m + n - k = (r + n - k) + n * (m div n)" using assms by linarith
  then have e: "(m + n - k) mod n = (r + n - k) mod n" by (simp only: mod_mult_self2)
  show ?thesis
  proof (cases "k \<le> r")
    case True
    then have "r + n - k = (r - k) + n" "r - k < n" using r by linarith+
    then have "(r + n - k) mod n = r - k" by (simp only: mod_add_self2 mod_less)
    then show ?thesis using True e by (auto simp: r_def)
  next
    case False
    then have "r + n - k < n" "r + n - k \<noteq> 0" using assms by linarith+
    then show ?thesis using False e by (auto simp: r_def)
  qed
qed

lemma residue_count:
  fixes n k :: nat
  assumes "k < n"
  shows "length (filter (\<lambda>i. i mod n = k) [0..<m]) = (m + n - 1 - k) div n"
proof (induction m)
  case 0
  then show ?case using assms by simp
next
  case (Suc m)
  have x: "Suc m + n - 1 - k = Suc (m + n - 1 - k)" "Suc (m + n - 1 - k) = m + n - k"
    using assms by linarith+
  show ?case
    using Suc residue_zero [OF assms, of m] unfolding x(1) div_Suc unfolding x(2) by simp
qed

lemma residue_window:
  fixes n k c :: nat
  assumes "k < n"
  shows "m div n \<le> length (filter (\<lambda>i. (c + i) mod n = k) [0..<m])"
    and "length (filter (\<lambda>i. (c + i) mod n = k) [0..<m]) \<le> (m + n - 1) div n"
proof -
  let ?f = "\<lambda>i. i mod n = k"
  let ?x = "c + n - 1 - k"
  have "[0..<c + m] = [0..<c] @ map (\<lambda>i. c + i) [0..<m]"
    by (intro nth_equalityI) (auto simp: nth_append)
  then have "length (filter ?f [0..<c + m]) =
      length (filter ?f [0..<c]) + length (filter (\<lambda>i. (c + i) mod n = k) [0..<m])"
    by (simp add: filter_map comp_def)
  moreover have "c + m + n - 1 - k = ?x + m" using assms by linarith
  ultimately have c: "length (filter (\<lambda>i. (c + i) mod n = k) [0..<m]) = (?x + m) div n - ?x div n"
    by (simp only: residue_count [OF assms] add_diff_cancel_left')
  have d: "(?x + m) div n = ?x div n + m div n + (?x mod n + m mod n) div n"
    by (rule div_add1_eq)
  show "m div n \<le> length (filter (\<lambda>i. (c + i) mod n = k) [0..<m])"
    unfolding c d by linarith
  have "?x mod n < n" using assms by (intro mod_less_divisor) linarith
  then have "?x mod n + m mod n \<le> m mod n + (n - 1)" by linarith
  then have "(?x mod n + m mod n) div n \<le> (m mod n + (n - 1)) div n" by (rule div_le_mono)
  moreover have "(m + n - 1) div n = m div n + (m mod n + (n - 1)) div n"
  proof -
    have "n * (m div n) + m mod n = m" by simp
    then have e: "m + n - 1 = (m mod n + (n - 1)) + n * (m div n)" using assms by linarith
    have "n \<noteq> 0" using assms by linarith
    then show ?thesis unfolding e by (rule div_mult_self2)
  qed
  ultimately show "length (filter (\<lambda>i. (c + i) mod n = k) [0..<m]) \<le> (m + n - 1) div n"
    unfolding c d by linarith
qed

lemma position_unique:
  assumes "distinct ids" "w \<in> set ids"
  obtains k where "k < length ids" "\<And>j. j < length ids \<Longrightarrow> ids ! j = w \<longleftrightarrow> j = k"
proof -
  obtain k where k: "k < length ids" "ids ! k = w" using assms(2) by (auto simp: in_set_conv_nth)
  then show thesis using assms(1) by (intro that [of k]) (auto simp: nth_eq_iff_index_eq)
qed

text \<open>How many labels a worker gets when labels are dealt from position \<open>c\<close>.\<close>

lemma dealt_window:
  assumes "distinct ids" "w \<in> set ids" "0 < n" "n \<le> length ids" "w \<in> set (take n ids)"
  shows "length ls div n \<le> length (assigned (push_all (\<lambda>i. ids ! ((c + i) mod n)) ls []) w)"
    and "length (assigned (push_all (\<lambda>i. ids ! ((c + i) mod n)) ls []) w) \<le> (length ls + n - 1) div n"
proof -
  have "distinct (take n ids)" using assms(1) by simp
  then obtain k where k: "k < length (take n ids)"
    "\<And>j. j < length (take n ids) \<Longrightarrow> take n ids ! j = w \<longleftrightarrow> j = k"
    using position_unique [OF _ assms(5)] by metis
  have kn: "k < n" using k assms by simp
  have "ids ! ((c + i) mod n) = w \<longleftrightarrow> (c + i) mod n = k" for i
  proof -
    have lt: "(c + i) mod n < n" using assms by simp
    then show ?thesis using k(2) [of "(c + i) mod n"] assms by simp
  qed
  then have "length (assigned (push_all (\<lambda>i. ids ! ((c + i) mod n)) ls []) w) =
      length (filter (\<lambda>i. (c + i) mod n = k) [0..<length ls])"
    by (simp add: length_assigned_push_all)
  then show "length ls div n \<le> length (assigned (push_all (\<lambda>i. ids ! ((c + i) mod n)) ls []) w)"
    "length (assigned (push_all (\<lambda>i. ids ! ((c + i) mod n)) ls []) w) \<le> (length ls + n - 1) div n"
    using residue_window(1) [OF kn, where m = "length ls" and c = c]
      residue_window(2) [OF kn, where m = "length ls" and c = c] by simp_all
qed

lemma round_robin_push_all:
  assumes "available_ids ws \<noteq> []"
  shows "\<exists>c. fst (round_robin_assign nxt ls ws) =
    push_all (\<lambda>i. available_ids ws ! ((c + i) mod length (available_ids ws))) ls []"
proof -
  let ?c = "if nxt \<ge> length (available_ids ws) then 0 else nxt"
  have "?c < length (available_ids ws)" using assms by simp
  from deal_fold [OF this, of ls "[]"] show ?thesis
    using assms unfolding push_all_def by (intro exI [of _ ?c]) (simp add: round_robin_assign_def Let_def)
qed

text \<open>
  Round robin is fair: with distinct worker IDs, the numbers of labels any two available
  workers get from one batch differ by at most one, wherever the cursor stood.
\<close>

lemma round_robin_fair:
  assumes "distinct (available_ids ws)" "a \<in> set (available_ids ws)" "b \<in> set (available_ids ws)"
  shows "length (assigned (fst (round_robin_assign cursor labels ws)) a)
    \<le> length (assigned (fst (round_robin_assign cursor labels ws)) b) + 1"
proof -
  let ?ids = "available_ids ws"
  let ?n = "length ?ids"
  have ne: "?ids \<noteq> []" using assms(2) by auto
  then obtain c where c: "fst (round_robin_assign cursor labels ws) =
      push_all (\<lambda>i. ?ids ! ((c + i) mod ?n)) labels []"
    using round_robin_push_all by blast
  have "0 < ?n" using ne by simp
  then have "(length labels + ?n - 1) div ?n \<le> (length labels + ?n) div ?n"
    by (intro div_le_mono) simp
  also have "\<dots> = length labels div ?n + 1" using \<open>0 < ?n\<close> by simp
  finally show ?thesis
    using dealt_window(2) [OF assms(1) assms(2) \<open>0 < ?n\<close>, where ls = labels and c = c]
      dealt_window(1) [OF assms(1) assms(3) \<open>0 < ?n\<close>, where ls = labels and c = c] assms(2,3)
    unfolding c by simp
qed

lemma div_up_bound: "0 < n \<Longrightarrow> m \<le> k * n \<Longrightarrow> (m + n - 1) div n \<le> (k::nat)"
proof -
  assume a: "0 < n" "m \<le> k * n"
  then have "m + n - 1 \<le> (n - 1) + n * k" by (simp only: mult.commute [of n k])
  then have "(m + n - 1) div n \<le> ((n - 1) + n * k) div n" by (rule div_le_mono)
  also have "\<dots> = k + (n - 1) div n" using a(1) by (intro div_mult_self2) simp
  also have "\<dots> = k" using a(1) by simp
  finally show ?thesis .
qed

lemma div_up_ge: "0 < k \<Longrightarrow> m \<le> k * ((m + k - 1) div (k::nat))"
proof -
  assume k: "0 < k"
  have "k * ((m + k - 1) div k) + (m + k - 1) mod k = m + k - 1" by simp
  moreover have "(m + k - 1) mod k < k" using k by simp
  ultimately show ?thesis by linarith
qed

text \<open>
  The constraint solver keeps its bound: when enough workers are available for the batch
  (one per 50 labels), no worker is handed more than 50 labels.
\<close>

lemma constraint_batch_bound:
  assumes "distinct (available_ids ws)" "length labels \<le> 50 * length (available_ids ws)"
  shows "length (assigned (constraint_assign profile labels ws) w) \<le> 50"
proof (cases "ws = [] \<or> labels = [] \<or> available_ids ws = []")
  case True
  then show ?thesis
    by (auto simp: constraint_assign_def assigned_def Let_def scored_ids_empty)
next
  case False
  let ?sc = "scored_ids (\<lambda>w. compute_score w profile) ws"
  let ?n = "workers_needed (length ?sc) (length labels)"
  have a: "constraint_assign profile labels ws = push_all (\<lambda>i. ?sc ! ((0 + i) mod ?n)) labels []"
    using False by (simp add: constraint_assign_def Let_def scored_ids_empty)
  have len: "length ?sc = length (available_ids ws)"
    by (simp add: scored_ids_def available_ids_def)
  have dist: "distinct ?sc"
    by (metis assms(1) card_distinct distinct_card len set_scored_ids)
  have n: "0 < ?n" "?n \<le> length ?sc"
    using False len workers_needed_bounds by simp_all
  have "length labels \<le> 50 * ?n"
    using assms(2) div_up_ge [of 50 "length labels"]
    by (auto simp: workers_needed_def labels_per_worker_def len min_def max_def)
  then have bound: "(length labels + ?n - 1) div ?n \<le> 50" by (rule div_up_bound [OF n(1)])
  show ?thesis
  proof (cases "w \<in> set (take ?n ?sc)")
    case True
    then have "w \<in> set ?sc" by (rule in_set_takeD)
    from dealt_window(2) [OF dist this n True, where ls = labels and c = 0] bound show ?thesis unfolding a by linarith
  next
    case False
    have "?sc ! ((0 + i) mod ?n) \<noteq> w" for i
    proof -
      have "i mod ?n < ?n" using n by simp
      then have "?sc ! (i mod ?n) \<in> set (take ?n ?sc)"
        using n by (metis in_set_conv_nth length_take min.absorb2 nth_take)
      then show ?thesis using False by auto
    qed
    then show ?thesis unfolding a length_assigned_push_all by simp
  qed
qed

end
