(* ===== verification/WorkerManager.thy ===== *)
theory WorkerManager
  imports Solver "HOL-Library.AList"
begin

text \<open>
  \<^verbatim>\<open>InMemoryWorkerManager\<close> (\<^verbatim>\<open>include/labios/worker_manager.h\<close>,
  \<^verbatim>\<open>src/labios/worker_manager.cpp\<close>): the worker registry with its five score buckets. Every
  method takes the mutex for its whole body, so a method is one function on the state. The
  unordered maps are association lists and the unordered sets lists, in one of the orders the
  C++ container may iterate in; no theorem depends on which. A time point is a number of
  nanoseconds of the steady clock, and a method that reads the clock takes \<open>now\<close>.
\<close>

record worker_manager =
  m_workers :: "(int \<times> worker_info) list"
  m_scores :: "(int \<times> rat) list"
  m_buckets :: "int list list"
  m_last_profile :: weight_profile
  m_next_elastic_id :: int
  m_suspended_since :: "(int \<times> int) list"

definition num_buckets :: nat where
  "num_buckets = 5"

definition new_manager :: worker_manager where
  "new_manager = \<lparr>m_workers = [], m_scores = [], m_buckets = replicate num_buckets [],
     m_last_profile = default_profile, m_next_elastic_id = 100, m_suspended_since = []\<rparr>"

text \<open>\<^verbatim>\<open>static_cast<int>\<close> truncates toward zero.\<close>

definition truncate :: "rat \<Rightarrow> int" where
  "truncate r = (if r < 0 then - \<lfloor>- r\<rfloor> else \<lfloor>r\<rfloor>)"

definition bucket_index :: "rat \<Rightarrow> nat" where
  "bucket_index score =
     (let idx = truncate (score * of_nat num_buckets) in nat (max 0 (min (int num_buckets - 1) idx)))"

definition place_in_bucket :: "int \<Rightarrow> rat \<Rightarrow> worker_manager \<Rightarrow> worker_manager" where
  "place_in_bucket wid score m =
     m\<lparr>m_scores := AList.update wid score (m_scores m),
       m_buckets := (m_buckets m)[bucket_index score := List.insert wid (m_buckets m ! bucket_index score)]\<rparr>"

definition remove_from_buckets :: "int \<Rightarrow> worker_manager \<Rightarrow> worker_manager" where
  "remove_from_buckets wid m =
     (case map_of (m_scores m) wid of
        None \<Rightarrow> m
      | Some s \<Rightarrow> m\<lparr>m_buckets := (m_buckets m)[bucket_index s := removeAll wid (m_buckets m ! bucket_index s)],
                    m_scores := AList.delete wid (m_scores m)\<rparr>)"

definition all_workers :: "worker_manager \<Rightarrow> worker_info list" where
  "all_workers m = map snd (m_workers m)"

definition rebuild_buckets :: "weight_profile \<Rightarrow> worker_manager \<Rightarrow> worker_manager" where
  "rebuild_buckets wp m =
     (let m1 = m\<lparr>m_buckets := replicate num_buckets [], m_scores := []\<rparr>;
          m2 = fold (\<lambda>(wid, w). place_in_bucket wid (compute_score w wp)) (m_workers m1) m1
      in m2\<lparr>m_last_profile := wp\<rparr>)"

text \<open>The buckets from the highest down, and the first \<open>n\<close> of them that are still registered.\<close>

definition ranked_ids :: "worker_manager \<Rightarrow> int list" where
  "ranked_ids m = concat (rev (m_buckets m))"

definition top_n_workers :: "int \<Rightarrow> weight_profile \<Rightarrow> worker_manager \<Rightarrow> worker_info list \<times> worker_manager" where
  "top_n_workers n wp m =
     (let m' = (if wp \<noteq> m_last_profile m then rebuild_buckets wp m else m)
      in (take (nat n) (List.map_filter (map_of (m_workers m')) (ranked_ids m')), m'))"

definition update_score :: "int \<Rightarrow> int \<Rightarrow> worker_info \<Rightarrow> worker_manager \<Rightarrow> worker_manager" where
  "update_score now wid info m =
     (case map_of (m_workers m) wid of
        None \<Rightarrow> m
      | Some old \<Rightarrow>
          let m1 = m\<lparr>m_workers := AList.update wid info (m_workers m)\<rparr>;
              m2 = (if w_available old \<and> \<not> w_available info
                    then m1\<lparr>m_suspended_since := AList.update wid now (m_suspended_since m1)\<rparr>
                    else if \<not> w_available old \<and> w_available info
                    then m1\<lparr>m_suspended_since := AList.delete wid (m_suspended_since m1)\<rparr>
                    else m1)
          in if p_name (m_last_profile m2) \<noteq> []
             then place_in_bucket wid (compute_score info (m_last_profile m2)) (remove_from_buckets wid m2)
             else m2)"

definition register_worker :: "worker_info \<Rightarrow> worker_manager \<Rightarrow> worker_manager" where
  "register_worker info m =
     (let wid = w_id info; m1 = m\<lparr>m_workers := AList.update wid info (m_workers m)\<rparr>
      in if p_name (m_last_profile m1) \<noteq> []
         then place_in_bucket wid (compute_score info (m_last_profile m1)) (remove_from_buckets wid m1)
         else m1)"

definition deregister_worker :: "int \<Rightarrow> worker_manager \<Rightarrow> worker_manager" where
  "deregister_worker wid m =
     (let m1 = remove_from_buckets wid m
      in m1\<lparr>m_workers := AList.delete wid (m_workers m1),
            m_suspended_since := AList.delete wid (m_suspended_since m1)\<rparr>)"

definition worker_count :: "worker_manager \<Rightarrow> nat" where
  "worker_count m = length (m_workers m)"

definition next_worker_id :: "worker_manager \<Rightarrow> int \<times> worker_manager" where
  "next_worker_id m = (m_next_elastic_id m, m\<lparr>m_next_elastic_id := m_next_elastic_id m + 1\<rparr>)"

definition suspended_workers :: "worker_manager \<Rightarrow> int list" where
  "suspended_workers m = map fst (filter (\<lambda>(wid, w). \<not> w_available w) (m_workers m))"

text \<open>\<^verbatim>\<open>duration_cast<milliseconds>\<close> of a steady-clock difference.\<close>

definition elapsed_ms :: "int \<Rightarrow> int \<Rightarrow> int" where
  "elapsed_ms now tp = (now - tp) div 1000000"

definition decommissionable_workers :: "int \<Rightarrow> int \<Rightarrow> worker_manager \<Rightarrow> int list" where
  "decommissionable_workers now threshold m =
     map fst (filter (\<lambda>(wid, tp).
       (case map_of (m_workers m) wid of None \<Rightarrow> False
        | Some w \<Rightarrow> \<not> w_available w \<and> elapsed_ms now tp > threshold)) (m_suspended_since m))"

definition workers_by_tier :: "worker_tier \<Rightarrow> worker_manager \<Rightarrow> worker_info list" where
  "workers_by_tier tier m = filter (\<lambda>w. w_tier w = tier) (all_workers m)"

definition count_by_tier :: "worker_tier \<Rightarrow> worker_manager \<Rightarrow> nat" where
  "count_by_tier tier m = length (workers_by_tier tier m)"

definition suspended_workers_by_tier :: "worker_tier \<Rightarrow> worker_manager \<Rightarrow> int list" where
  "suspended_workers_by_tier tier m =
     map fst (filter (\<lambda>(wid, w). \<not> w_available w \<and> w_tier w = tier) (m_workers m))"

definition decommissionable_workers_by_tier ::
    "worker_tier \<Rightarrow> int \<Rightarrow> int \<Rightarrow> worker_manager \<Rightarrow> int list" where
  "decommissionable_workers_by_tier tier now threshold m =
     map fst (filter (\<lambda>(wid, tp).
       (case map_of (m_workers m) wid of None \<Rightarrow> False
        | Some w \<Rightarrow> \<not> w_available w \<and> w_tier w = tier \<and> elapsed_ms now tp > threshold))
       (m_suspended_since m))"

definition set_suspended_since_for_test :: "int \<Rightarrow> int \<Rightarrow> worker_manager \<Rightarrow> worker_manager" where
  "set_suspended_since_for_test wid tp m =
     m\<lparr>m_suspended_since := AList.update wid tp (m_suspended_since m)\<rparr>"

subsection \<open>The bucket invariant\<close>

text \<open>
  A worker is in a bucket exactly when it has a cached score that falls in that bucket, and no
  bucket holds it twice. Once a named profile is in force, the cached scores are the scores of
  the registered workers under that profile.
\<close>

definition buckets_ok :: "worker_manager \<Rightarrow> bool" where
  "buckets_ok m \<longleftrightarrow>
     length (m_buckets m) = num_buckets \<and>
     (\<forall>b < num_buckets. distinct (m_buckets m ! b) \<and>
        (\<forall>wid. wid \<in> set (m_buckets m ! b) \<longleftrightarrow>
           (\<exists>s. map_of (m_scores m) wid = Some s \<and> bucket_index s = b)))"

definition scores_of :: "weight_profile \<Rightarrow> worker_manager \<Rightarrow> int \<Rightarrow> rat option" where
  "scores_of wp m wid = map_option (\<lambda>w. compute_score w wp) (map_of (m_workers m) wid)"

definition manager_inv :: "worker_manager \<Rightarrow> bool" where
  "manager_inv m \<longleftrightarrow>
     buckets_ok m \<and> distinct (map fst (m_workers m)) \<and> distinct (map fst (m_suspended_since m)) \<and>
     fst ` set (m_suspended_since m) \<subseteq> fst ` set (m_workers m) \<and>
     (p_name (m_last_profile m) \<noteq> [] \<longrightarrow>
        (\<forall>wid. map_of (m_scores m) wid = scores_of (m_last_profile m) m wid))"

lemma bucket_index_less [simp]: "bucket_index s < num_buckets"
  by (simp add: bucket_index_def num_buckets_def Let_def)

lemma map_of_update [simp]: "map_of (AList.update k v xs) = (map_of xs)(k \<mapsto> v)"
  by (rule ext) (simp add: update_conv)

lemma map_of_delete [simp]: "map_of (AList.delete k xs) = (map_of xs)(k := None)"
  by (rule ext) (simp add: delete_conv)

lemma update_new_key: "k \<notin> fst ` set xs \<Longrightarrow> AList.update k v xs = xs @ [(k, v)]"
  by (induction xs) auto

lemma place_in_bucket_fields [simp]:
  "m_next_elastic_id (place_in_bucket i s m) = m_next_elastic_id m"
  "m_workers (place_in_bucket i s m) = m_workers m"
  "m_last_profile (place_in_bucket i s m) = m_last_profile m"
  "m_suspended_since (place_in_bucket i s m) = m_suspended_since m"
  "map_of (m_scores (place_in_bucket i s m)) = (map_of (m_scores m))(i \<mapsto> s)"
  by (simp_all add: place_in_bucket_def)

lemma remove_from_buckets_fields [simp]:
  "m_next_elastic_id (remove_from_buckets i m) = m_next_elastic_id m"
  "m_workers (remove_from_buckets i m) = m_workers m"
  "m_last_profile (remove_from_buckets i m) = m_last_profile m"
  "m_suspended_since (remove_from_buckets i m) = m_suspended_since m"
  "map_of (m_scores (remove_from_buckets i m)) = (map_of (m_scores m))(i := None)"
  by (auto simp: remove_from_buckets_def split: option.splits)

lemma place_in_bucket_ok:
  assumes "buckets_ok m" "map_of (m_scores m) i = None"
  shows "buckets_ok (place_in_bucket i s m)"
  using assms bucket_index_less [of s]
  by (auto simp: buckets_ok_def place_in_bucket_def nth_list_update)

lemma remove_from_buckets_ok:
  assumes "buckets_ok m"
  shows "buckets_ok (remove_from_buckets i m)"
proof (cases "map_of (m_scores m) i")
  case None
  then show ?thesis using assms by (simp add: remove_from_buckets_def)
next
  case (Some s)
  then show ?thesis using assms bucket_index_less [of s]
    by (auto simp: buckets_ok_def remove_from_buckets_def nth_list_update distinct_removeAll)
qed

lemma rebuild_fold:
  assumes "buckets_ok m" "distinct (map fst ws)"
    and "\<forall>i \<in> fst ` set ws. map_of (m_scores m) i = None"
  shows "buckets_ok (fold (\<lambda>(wid, w). place_in_bucket wid (compute_score w wp)) ws m) \<and>
    map_of (m_scores (fold (\<lambda>(wid, w). place_in_bucket wid (compute_score w wp)) ws m)) =
      map_of (m_scores m) ++ (\<lambda>i. map_option (\<lambda>w. compute_score w wp) (map_of ws i)) \<and>
    m_workers (fold (\<lambda>(wid, w). place_in_bucket wid (compute_score w wp)) ws m) = m_workers m \<and>
    m_suspended_since (fold (\<lambda>(wid, w). place_in_bucket wid (compute_score w wp)) ws m) =
      m_suspended_since m"
  using assms
proof (induction ws arbitrary: m)
  case Nil
  then show ?case by (auto simp: map_add_def)
next
  case (Cons p ws)
  obtain i w where p: "p = (i, w)" by fastforce
  let ?m = "place_in_bucket i (compute_score w wp) m"
  have "buckets_ok ?m" using Cons.prems p by (intro place_in_bucket_ok) simp_all
  moreover have "\<forall>j \<in> fst ` set ws. map_of (m_scores ?m) j = None"
    using Cons.prems p by auto
  moreover have "map_of ws i = None" using Cons.prems p by (simp add: map_of_eq_None_iff)
  ultimately show ?case
    using Cons.IH [of ?m] Cons.prems p by (auto simp: map_add_def fun_eq_iff split: option.splits)
qed

lemma buckets_ok_workers [simp]:
  "buckets_ok (m\<lparr>m_workers := ws\<rparr>) = buckets_ok m"
  "buckets_ok (m\<lparr>m_suspended_since := ss\<rparr>) = buckets_ok m"
  "buckets_ok (m\<lparr>m_last_profile := wp\<rparr>) = buckets_ok m"
  "buckets_ok (m\<lparr>m_next_elastic_id := n\<rparr>) = buckets_ok m"
  by (simp_all add: buckets_ok_def)

lemma empty_buckets_ok: "buckets_ok (m\<lparr>m_buckets := replicate num_buckets [], m_scores := []\<rparr>)"
  by (simp add: buckets_ok_def)

lemma rebuild_inv:
  assumes "manager_inv m"
  shows "manager_inv (rebuild_buckets wp m)"
    and "map_of (m_scores (rebuild_buckets wp m)) wid = scores_of wp m wid"
    and "m_workers (rebuild_buckets wp m) = m_workers m"
    and "m_last_profile (rebuild_buckets wp m) = wp"
proof -
  have "distinct (map fst (m_workers m))" using assms by (simp add: manager_inv_def)
  note f = rebuild_fold [OF empty_buckets_ok [of m] this, of wp, simplified]
  then show s: "map_of (m_scores (rebuild_buckets wp m)) wid = scores_of wp m wid"
    and w: "m_workers (rebuild_buckets wp m) = m_workers m"
    and "m_last_profile (rebuild_buckets wp m) = wp" for wid
    by (simp_all add: rebuild_buckets_def scores_of_def)
  show "manager_inv (rebuild_buckets wp m)"
    using assms f s w by (simp add: manager_inv_def rebuild_buckets_def scores_of_def)
qed

subsection \<open>Every operation keeps the invariant\<close>

lemma new_manager_inv: "manager_inv new_manager"
  by (simp add: manager_inv_def buckets_ok_def new_manager_def default_profile_def)

lemma top_n_inv: "manager_inv m \<Longrightarrow> manager_inv (snd (top_n_workers n wp m))"
  by (simp add: top_n_workers_def Let_def rebuild_inv(1))

lemma rebucket_inv:
  assumes "buckets_ok m" "distinct (map fst (m_workers m))" "distinct (map fst (m_suspended_since m))"
    and "fst ` set (m_suspended_since m) \<subseteq> fst ` set (m_workers m)"
    and "scores_of (m_last_profile m) m i = Some s"
    and "\<forall>j. j \<noteq> i \<longrightarrow> map_of (m_scores m) j = scores_of (m_last_profile m) m j"
  shows "manager_inv (place_in_bucket i s (remove_from_buckets i m))"
proof -
  have "buckets_ok (place_in_bucket i s (remove_from_buckets i m))"
    using assms(1) by (intro place_in_bucket_ok remove_from_buckets_ok) simp_all
  moreover have "scores_of wp (place_in_bucket i s (remove_from_buckets i m)) j = scores_of wp m j"
    for wp j by (simp add: scores_of_def)
  ultimately show ?thesis
    using assms by (simp add: manager_inv_def)
qed

lemma keys_update: "fst ` set (AList.update k v xs) = insert k (fst ` set xs)"
  by (metis dom_map_of_conv_image_fst map_of_update dom_fun_upd option.distinct(1))

lemma keys_delete: "fst ` set (AList.delete k xs) = fst ` set xs - {k}"
  by (metis dom_map_of_conv_image_fst map_of_delete dom_fun_upd)

lemma scores_of_fields [simp]:
  "scores_of wp (m\<lparr>m_suspended_since := ss\<rparr>) = scores_of wp m"
  "scores_of wp (m\<lparr>m_last_profile := p\<rparr>) = scores_of wp m"
  "scores_of wp (m\<lparr>m_next_elastic_id := n\<rparr>) = scores_of wp m"
  by (rule ext; simp add: scores_of_def)+

lemma scores_of_workers [simp]:
  "scores_of wp (m\<lparr>m_workers := AList.update i w (m_workers m)\<rparr>) j =
     (if j = i then Some (compute_score w wp) else scores_of wp m j)"
  by (simp add: scores_of_def)

text \<open>The common tail of \<^verbatim>\<open>register_worker\<close> and \<^verbatim>\<open>update_score\<close>.\<close>

lemma store_and_rebucket:
  assumes "manager_inv m" "m' = m\<lparr>m_workers := AList.update i w (m_workers m), m_suspended_since := ss\<rparr>"
    and "distinct (map fst ss)" "fst ` set ss \<subseteq> insert i (fst ` set (m_workers m))"
  shows "manager_inv (if p_name (m_last_profile m') \<noteq> []
     then place_in_bucket i (compute_score w (m_last_profile m')) (remove_from_buckets i m') else m')"
proof -
  have ok: "buckets_ok m'" "distinct (map fst (m_workers m'))" "distinct (map fst (m_suspended_since m'))"
    "fst ` set (m_suspended_since m') \<subseteq> fst ` set (m_workers m')" "m_last_profile m' = m_last_profile m"
    using assms by (simp_all add: manager_inv_def distinct_update keys_update)
  show ?thesis
  proof (cases "p_name (m_last_profile m) = []")
    case True
    then show ?thesis using ok by (simp add: manager_inv_def)
  next
    case False
    have "manager_inv (place_in_bucket i (compute_score w (m_last_profile m')) (remove_from_buckets i m'))"
    proof (rule rebucket_inv [OF ok(1-4)])
      show "scores_of (m_last_profile m') m' i = Some (compute_score w (m_last_profile m'))"
        using assms(2) by (simp add: scores_of_def)
      show "\<forall>j. j \<noteq> i \<longrightarrow> map_of (m_scores m') j = scores_of (m_last_profile m') m' j"
        using assms(1,2) False by (simp add: manager_inv_def scores_of_def)
    qed
    then show ?thesis using False ok(5) by simp
  qed
qed

lemma register_inv: "manager_inv m \<Longrightarrow> manager_inv (register_worker info m)"
  unfolding register_worker_def Let_def
  by (rule store_and_rebucket [where ss = "m_suspended_since m"]) (auto simp: manager_inv_def)

lemma update_score_inv:
  assumes "manager_inv m"
  shows "manager_inv (update_score now i info m)"
proof (cases "map_of (m_workers m) i")
  case None
  then show ?thesis using assms by (simp add: update_score_def)
next
  case (Some old)
  define ss where "ss =
    (if w_available old \<and> \<not> w_available info then AList.update i now (m_suspended_since m)
     else if \<not> w_available old \<and> w_available info then AList.delete i (m_suspended_since m)
     else m_suspended_since m)"
  let ?m = "m\<lparr>m_workers := AList.update i info (m_workers m), m_suspended_since := ss\<rparr>"
  have "update_score now i info m =
      (if p_name (m_last_profile ?m) \<noteq> []
       then place_in_bucket i (compute_score info (m_last_profile ?m)) (remove_from_buckets i ?m) else ?m)"
    using Some by (simp add: update_score_def Let_def ss_def)
  moreover have "distinct (map fst ss)" "fst ` set ss \<subseteq> insert i (fst ` set (m_workers m))"
    using assms by (auto simp: ss_def manager_inv_def distinct_update distinct_delete keys_update
        keys_delete simp del: set_map)
  ultimately show ?thesis
    using store_and_rebucket [OF assms refl, of ss i info] by simp
qed

lemma deregister_inv:
  assumes "manager_inv m"
  shows "manager_inv (deregister_worker i m)"
proof -
  have "buckets_ok (remove_from_buckets i m)"
    using assms by (intro remove_from_buckets_ok) (simp add: manager_inv_def)
  then show ?thesis
    using assms by (auto simp: deregister_worker_def manager_inv_def Let_def distinct_delete keys_delete
        scores_of_def simp del: set_map)
qed

lemma next_worker_id_inv: "manager_inv m \<Longrightarrow> manager_inv (snd (next_worker_id m))"
  by (simp add: next_worker_id_def manager_inv_def)

text \<open>The states the manager can be in: every sequence of its methods.\<close>

inductive reachable :: "worker_manager \<Rightarrow> bool" where
  reach_new: "reachable new_manager"
| reach_register: "reachable m \<Longrightarrow> reachable (register_worker info m)"
| reach_deregister: "reachable m \<Longrightarrow> reachable (deregister_worker wid m)"
| reach_update: "reachable m \<Longrightarrow> reachable (update_score now wid info m)"
| reach_top: "reachable m \<Longrightarrow> reachable (snd (top_n_workers n wp m))"
| reach_next: "reachable m \<Longrightarrow> reachable (snd (next_worker_id m))"

lemma reachable_inv: "reachable m \<Longrightarrow> manager_inv m"
  by (induction rule: reachable.induct)
     (simp_all add: new_manager_inv register_inv deregister_inv update_score_inv top_n_inv next_worker_id_inv)

text \<open>
  C12: In every reachable state of the worker manager, each worker with a cached score is in
  exactly the bucket of that score, no worker is in two buckets, only registered workers are
  tracked as suspended, and under a named profile the cached scores are those of the current
  worker descriptions.
\<close>

theorem worker_manager_invariant:
  assumes "reachable m"
  shows "buckets_ok m \<and> distinct (map fst (m_workers m)) \<and>
    fst ` set (m_suspended_since m) \<subseteq> fst ` set (m_workers m) \<and>
    (p_name (m_last_profile m) \<noteq> [] \<longrightarrow>
       (\<forall>wid. map_of (m_scores m) wid = scores_of (m_last_profile m) m wid))"
  using reachable_inv [OF assms] by (simp add: manager_inv_def)

theorem worker_manager_invariant_witness:
  "buckets_ok (register_worker (default_worker 7) new_manager)"
  using worker_manager_invariant [OF reach_register [OF reach_new], of "default_worker 7"] by blast

subsection \<open>The ranking of top_n_workers\<close>

text \<open>The bucket a worker falls into under a profile.\<close>

definition worker_bucket :: "weight_profile \<Rightarrow> worker_info \<Rightarrow> nat" where
  "worker_bucket wp w = bucket_index (compute_score w wp)"

lemma rev_bucket_nth:
  "length (m_buckets m) = num_buckets \<Longrightarrow> i < num_buckets \<Longrightarrow>
   rev (m_buckets m) ! i = m_buckets m ! (num_buckets - 1 - i)"
  by (simp add: rev_nth)

lemma ranked_sorted:
  assumes "buckets_ok m"
  shows "sorted_wrt (\<lambda>i j. i \<noteq> j \<and> (\<forall>s t. map_of (m_scores m) i = Some s \<longrightarrow>
           map_of (m_scores m) j = Some t \<longrightarrow> bucket_index t \<le> bucket_index s)) (ranked_ids m)"
    (is "sorted_wrt ?P _")
  unfolding ranked_ids_def
proof (rule sorted_wrt_concat)
  have len: "length (m_buckets m) = num_buckets" using assms by (simp add: buckets_ok_def)
  have bkt: "map_of (m_scores m) x = Some s \<Longrightarrow> bucket_index s = num_buckets - 1 - i"
    and dst: "distinct (rev (m_buckets m) ! i)"
    and scored: "\<exists>s. map_of (m_scores m) x = Some s"
    if "i < num_buckets" "x \<in> set (rev (m_buckets m) ! i)" for i x s
    using that assms by (auto simp: rev_bucket_nth [OF len] buckets_ok_def)
  show "\<forall>i < length (rev (m_buckets m)). sorted_wrt ?P (rev (m_buckets m) ! i)"
  proof (intro allI impI)
    fix i assume "i < length (rev (m_buckets m))"
    then have i: "i < num_buckets" using len by simp
    show "sorted_wrt ?P (rev (m_buckets m) ! i)"
    proof (cases "rev (m_buckets m) ! i")
      case Nil
      then show ?thesis by simp
    next
      case (Cons y ys)
      then have "distinct (rev (m_buckets m) ! i)" using dst [OF i, of y] by simp
      then have "sorted_wrt (\<noteq>) (rev (m_buckets m) ! i)"
        by (simp add: distinct_conv_nth sorted_wrt_iff_nth_less)
      then show ?thesis
        by (rule sorted_wrt_mono_rel [rotated]) (use bkt [OF i] in fastforce)
    qed
  qed
  show "\<forall>j < length (rev (m_buckets m)). \<forall>i < j. \<forall>x \<in> set (rev (m_buckets m) ! i).
      \<forall>y \<in> set (rev (m_buckets m) ! j). ?P x y"
  proof (intro allI impI ballI)
    fix j i x y
    assume a: "j < length (rev (m_buckets m))" "i < j" "x \<in> set (rev (m_buckets m) ! i)"
      "y \<in> set (rev (m_buckets m) ! j)"
    then have ij: "i < num_buckets" "j < num_buckets" using len by simp_all
    obtain s where s: "map_of (m_scores m) x = Some s" using scored [OF ij(1) a(3)] by blast
    obtain t where t: "map_of (m_scores m) y = Some t" using scored [OF ij(2) a(4)] by blast
    have "bucket_index s = num_buckets - 1 - i" "bucket_index t = num_buckets - 1 - j"
      using bkt [OF ij(1) a(3) s] bkt [OF ij(2) a(4) t] by simp_all
    then show "?P x y" using s t a(2) ij by auto
  qed
qed

lemma set_ranked:
  assumes "buckets_ok m"
  shows "x \<in> set (ranked_ids m) \<longleftrightarrow> (\<exists>s. map_of (m_scores m) x = Some s)"
proof -
  have len: "length (m_buckets m) = num_buckets"
    and bkt: "\<And>b. b < num_buckets \<Longrightarrow> x \<in> set (m_buckets m ! b) \<longleftrightarrow>
      (\<exists>s. map_of (m_scores m) x = Some s \<and> bucket_index s = b)"
    using assms by (simp_all add: buckets_ok_def)
  have "x \<in> set (ranked_ids m) \<longleftrightarrow> (\<exists>bs \<in> set (m_buckets m). x \<in> set bs)"
    by (simp add: ranked_ids_def)
  also have "\<dots> \<longleftrightarrow> (\<exists>b < num_buckets. x \<in> set (m_buckets m ! b))"
    using len by (metis in_set_conv_nth)
  also have "\<dots> \<longleftrightarrow> (\<exists>s. map_of (m_scores m) x = Some s)"
    using bkt bucket_index_less by blast
  finally show ?thesis .
qed

lemma map_filter_all:
  "\<forall>x \<in> set xs. f x \<noteq> None \<Longrightarrow> List.map_filter f xs = map (the \<circ> f) xs"
  by (induction xs) (auto simp: List.map_filter_simps)

text \<open>With fresh scores, the ranking lists every registered worker once.\<close>

lemma ranked_all:
  assumes "manager_inv m" "\<forall>wid. map_of (m_scores m) wid = scores_of wp m wid"
  shows "distinct (ranked_ids m)" "set (ranked_ids m) = fst ` set (m_workers m)"
    and "mset (map (the \<circ> map_of (m_workers m)) (ranked_ids m)) = mset (all_workers m)"
proof -
  have ok: "buckets_ok m" and dist: "distinct (map fst (m_workers m))"
    using assms(1) by (simp_all add: manager_inv_def)
  show d: "distinct (ranked_ids m)"
    using ranked_sorted [OF ok] by (rule sorted_wrt_neq_distinct)
  have "x \<in> set (ranked_ids m) \<longleftrightarrow> x \<in> dom (map_of (m_workers m))" for x
    using assms(2) by (auto simp: set_ranked [OF ok] scores_of_def)
  then show s: "set (ranked_ids m) = fst ` set (m_workers m)"
    unfolding dom_map_of_conv_image_fst by blast
  have "mset (ranked_ids m) = mset (map fst (m_workers m))"
    using d s dist by (metis list.set_map set_eq_iff_mset_eq_distinct)
  then have "mset (map (the \<circ> map_of (m_workers m)) (ranked_ids m)) =
      mset (map (the \<circ> map_of (m_workers m)) (map fst (m_workers m)))"
    by (metis mset_map)
  also have "map (the \<circ> map_of (m_workers m)) (map fst (m_workers m)) = all_workers m"
    using dist unfolding all_workers_def by (auto simp del: map_of_eq_Some_iff)
  finally show "mset (map (the \<circ> map_of (m_workers m)) (ranked_ids m)) = mset (all_workers m)" .
qed

text \<open>
  C11: Asking any reachable manager for the best n workers under a named profile returns
  min(n, number of workers) registered workers, none twice, and no worker left out falls into a
  higher score bucket than one returned.
\<close>

theorem top_n_ranks:
  assumes "reachable m" "p_name wp \<noteq> []"
  shows "let ws = fst (top_n_workers n wp m)
     in length ws = min (nat n) (worker_count m) \<and> mset ws \<subseteq># mset (all_workers m) \<and>
        (\<forall>v \<in> set ws. \<forall>w \<in># mset (all_workers m) - mset ws. worker_bucket wp w \<le> worker_bucket wp v)"
proof -
  define m' where "m' = (if wp \<noteq> m_last_profile m then rebuild_buckets wp m else m)"
  have inv: "manager_inv m" using assms(1) by (rule reachable_inv)
  have inv': "manager_inv m'" and fresh: "\<forall>wid. map_of (m_scores m') wid = scores_of wp m' wid"
    and w: "m_workers m' = m_workers m"
    using inv assms(2) rebuild_inv [OF inv, of wp]
    by (auto simp: m'_def manager_inv_def scores_of_def)
  note r = ranked_all [OF inv' fresh]
  let ?f = "the \<circ> map_of (m_workers m')"
  let ?r = "ranked_ids m'"
  have def: "fst (top_n_workers n wp m) = take (nat n) (map ?f ?r)"
  proof -
    have "\<forall>x \<in> set ?r. map_of (m_workers m') x \<noteq> None"
      by (metis map_of_eq_None_iff r(2) set_map)
    then show ?thesis by (simp add: top_n_workers_def Let_def m'_def [symmetric] map_filter_all)
  qed
  have all: "mset (map ?f ?r) = mset (all_workers m)"
    using r(3) w by (simp add: all_workers_def)
  then have len: "length ?r = worker_count m"
    by (metis all_workers_def length_map size_mset worker_count_def)
  have rest: "mset (all_workers m) - mset (take (nat n) (map ?f ?r)) = mset (drop (nat n) (map ?f ?r))"
    by (metis all add_diff_cancel_left' append_take_drop_id mset_append)
  have "worker_bucket wp y \<le> worker_bucket wp x"
    if x: "x \<in> set (take (nat n) (map ?f ?r))" and y: "y \<in> set (drop (nat n) (map ?f ?r))" for x y
  proof -
    obtain p where p: "p < nat n" "p < length ?r" "x = ?f (?r ! p)"
      using x by (auto simp: in_set_conv_nth)
    have "\<exists>q. nat n + q < length ?r \<and> y = ?f (?r ! (nat n + q))"
      using y by (force simp: in_set_conv_nth)
    then obtain q where q: "nat n + q < length ?r" "y = ?f (?r ! (nat n + q))" by blast
    have sc: "map_of (m_scores m') i = Some (compute_score (?f i) wp)" if "i \<in> set ?r" for i
      using that fresh unfolding r(2) scores_of_def
      by (metis (no_types, lifting) comp_apply map_of_eq_None_iff not_None_eq option.map(2) option.sel set_map)
    have "?r ! p \<in> set ?r" "?r ! (nat n + q) \<in> set ?r" using p q by simp_all
    moreover have "p < nat n + q" using p by simp
    ultimately show ?thesis
      using ranked_sorted [of m'] inv' p q sc
      by (auto simp: manager_inv_def sorted_wrt_iff_nth_less worker_bucket_def)
  qed
  note rank = this
  have "mset (take (nat n) (map ?f ?r)) \<subseteq># mset (map ?f ?r)"
    by (metis append_take_drop_id mset_append mset_subset_eq_add_left)
  then have sub: "mset (take (nat n) (map ?f ?r)) \<subseteq># mset (all_workers m)" unfolding all .
  have "length (take (nat n) (map ?f ?r)) = min (nat n) (worker_count m)"
    using len by (simp add: min.commute)
  with rank sub show ?thesis unfolding Let_def def rest set_mset_mset by blast
qed

theorem top_n_ranks_witness:
  "length (fst (top_n_workers 1 (default_profile\<lparr>p_name := ''io'', p_speed := 1\<rparr>)
     (register_worker (default_worker 2) (register_worker (default_worker 1) new_manager)))) = 1"
  using top_n_ranks [OF reach_register [OF reach_register [OF reach_new]],
      of "default_profile\<lparr>p_name := ''io'', p_speed := 1\<rparr>" 1 "default_worker 2" "default_worker 1"]
  by (simp add: Let_def worker_count_def register_worker_def new_manager_def default_profile_def
      default_worker_def)

text \<open>
  The default profile defeats the ranking: \<open>last_profile_\<close> starts out equal to the unnamed
  all-zero profile, so on a fresh manager asking with that profile never builds the buckets, and
  the answer is empty whatever workers have registered.
\<close>

lemma top_n_default_profile_empty:
  "fst (top_n_workers n default_profile (fold register_worker infos new_manager)) = []"
proof -
  have "m_last_profile (fold register_worker infos m) = default_profile \<and>
      m_buckets (fold register_worker infos m) = replicate num_buckets []"
    if "m_last_profile m = default_profile" "m_buckets m = replicate num_buckets []" for m
    using that
    by (induction infos arbitrary: m) (simp_all add: register_worker_def default_profile_def Let_def)
  then have "m_last_profile (fold register_worker infos new_manager) = default_profile"
    "ranked_ids (fold register_worker infos new_manager) = []"
    by (simp_all add: new_manager_def ranked_ids_def num_buckets_def)
  then show ?thesis by (simp add: top_n_workers_def List.map_filter_simps)
qed

end
