(* ===== verification/Elastic.thy ===== *)
theory Elastic
  imports WorkerManager
begin

text \<open>
  Elastic scaling: the decision engine (\<^verbatim>\<open>src/labios/elastic/decision_engine.cpp\<close>) and the
  orchestrator (\<^verbatim>\<open>include/labios/elastic/orchestrator.h\<close>) on top of the worker manager and a
  container runtime. Times are nanoseconds, durations milliseconds as in the configuration. The
  runtime is a parameter: a function that creates a container and one that stops it, each of
  which may throw. One call of an operation reads one value of the clock.
\<close>

subsection \<open>The decision engine\<close>

datatype action = ActNone | Commission | Decommission | Resume

record decision =
  d_action :: action
  d_target :: int

record elastic_snapshot =
  e_pressure_count :: int
  e_pressure_threshold :: int
  e_current_workers :: int
  e_min_workers :: int
  e_max_workers :: int
  e_idle :: "int list"
  e_suspended :: "int list"
  e_last_commission :: int
  e_cooldown :: int
  e_energy_budget :: rat
  e_current_energy :: rat

definition ms :: "int \<Rightarrow> int" where
  "ms t = t * 1000000"

definition evaluate :: "int \<Rightarrow> elastic_snapshot \<Rightarrow> decision" where
  "evaluate now st =
     (if e_energy_budget st > 0 \<and> e_current_energy st \<ge> e_energy_budget st
      then (if e_idle st \<noteq> [] then \<lparr>d_action = Decommission, d_target = hd (e_idle st)\<rparr>
            else \<lparr>d_action = ActNone, d_target = 0\<rparr>)
      else if e_pressure_count st \<ge> e_pressure_threshold st \<and> e_current_workers st < e_max_workers st
              \<and> now - e_last_commission st > ms (e_cooldown st)
      then (if e_suspended st \<noteq> [] then \<lparr>d_action = Resume, d_target = hd (e_suspended st)\<rparr>
            else \<lparr>d_action = Commission, d_target = 0\<rparr>)
      else if e_idle st \<noteq> [] \<and> e_current_workers st > e_min_workers st \<and> e_pressure_count st = 0
      then \<lparr>d_action = Decommission, d_target = hd (e_idle st)\<rparr>
      else \<lparr>d_action = ActNone, d_target = 0\<rparr>)"

record queue_breakdown =
  q_total :: int
  q_pipeline :: int
  q_observe :: int

text \<open>The lambda \<^verbatim>\<open>next_int\<close>: skip blanks, read an int, skip one comma.\<close>

definition next_int :: "string \<Rightarrow> int \<times> string" where
  "next_int s =
     (let s1 = dropWhile (\<lambda>c. c = CHR '' '') s;
          (v, s2) = (case from_chars_int s1 of
                       Parsed v r \<Rightarrow> (v, r) | OutOfRange r \<Rightarrow> (0, r) | InvalidArgument \<Rightarrow> (0, s1))
      in (v, if s2 \<noteq> [] \<and> hd s2 = CHR '','' then tl s2 else s2))"

definition parse_queue_breakdown :: "string \<Rightarrow> queue_breakdown" where
  "parse_queue_breakdown msg =
     (let (t, r1) = next_int msg; (p, r2) = next_int r1; (ob, r3) = next_int r2
      in \<lparr>q_total = t, q_pipeline = p, q_observe = ob\<rparr>)"

record tier_state =
  t_active :: int
  t_min :: int
  t_max :: int
  t_idle :: "int list"
  t_suspended :: "int list"

record tiered_snapshot =
  ts_queue :: queue_breakdown
  ts_pressure_count :: int
  ts_pressure_threshold :: int
  ts_databot :: tier_state
  ts_pipeline :: tier_state
  ts_agentic :: tier_state
  ts_last_commission :: int
  ts_cooldown :: int
  ts_energy_budget :: rat
  ts_current_energy :: rat

record scale_decision =
  s_action :: action
  s_tier :: worker_tier
  s_target :: int
  s_reason :: string

abbreviation no_scale :: "worker_tier \<Rightarrow> scale_decision" where
  "no_scale t \<equiv> \<lparr>s_action = ActNone, s_tier = t, s_target = - 1, s_reason = []\<rparr>"

definition try_commission ::
    "int \<Rightarrow> tier_state \<Rightarrow> worker_tier \<Rightarrow> tiered_snapshot \<Rightarrow> string \<Rightarrow> scale_decision" where
  "try_commission now ts tier st reason =
     (if t_active ts \<ge> t_max ts then no_scale tier
      else if now - ts_last_commission st \<le> ms (ts_cooldown st) then no_scale tier
      else if t_suspended ts \<noteq> []
      then \<lparr>s_action = Resume, s_tier = tier, s_target = hd (t_suspended ts),
            s_reason = ''resume '' @ reason\<rparr>
      else \<lparr>s_action = Commission, s_tier = tier, s_target = - 1, s_reason = ''commission '' @ reason\<rparr>)"

definition try_decommission :: "tier_state \<Rightarrow> worker_tier \<Rightarrow> string \<Rightarrow> scale_decision" where
  "try_decommission ts tier reason =
     (if t_idle ts = [] \<or> t_active ts \<le> t_min ts then no_scale tier
      else \<lparr>s_action = Decommission, s_tier = tier, s_target = hd (t_idle ts),
            s_reason = ''decommission idle '' @ reason\<rparr>)"

text \<open>\<^verbatim>\<open>if (d.action != Action::None) return d;\<close>, with what follows as the second argument.\<close>

definition or_else :: "scale_decision \<Rightarrow> scale_decision \<Rightarrow> scale_decision" where
  "or_else d rest = (if s_action d \<noteq> ActNone then d else rest)"

definition evaluate_tiered :: "int \<Rightarrow> tiered_snapshot \<Rightarrow> scale_decision" where
  "evaluate_tiered now st =
     (if ts_energy_budget st > 0 \<and> ts_current_energy st \<ge> ts_energy_budget st
      then or_else (try_decommission (ts_databot st) Databot ''energy budget exceeded'')
          (or_else (try_decommission (ts_pipeline st) Pipeline ''energy budget exceeded'')
          (or_else (try_decommission (ts_agentic st) Agentic ''energy budget exceeded'')
             \<lparr>s_action = ActNone, s_tier = Databot, s_target = - 1,
              s_reason = ''energy budget exceeded, no idle workers''\<rparr>))
      else
        let under_pressure = ts_pressure_count st \<ge> ts_pressure_threshold st;
            has_pipeline_demand = q_pipeline (ts_queue st) > 0;
            decommission =
              (if ts_pressure_count st = 0
               then or_else (try_decommission (ts_databot st) Databot ''databot'')
                   (or_else (try_decommission (ts_pipeline st) Pipeline ''pipeline'')
                   (or_else (try_decommission (ts_agentic st) Agentic ''agentic'') (no_scale Databot)))
               else no_scale Databot);
            overflow =
              (if has_pipeline_demand
               then or_else (try_commission now (ts_pipeline st) Pipeline st ''pipeline worker (overflow)'')
                      decommission
               else decommission);
            general =
              or_else (try_commission now (ts_databot st) Databot st ''databot for I/O pressure'') overflow
        in if under_pressure
           then (if has_pipeline_demand \<and> t_active (ts_pipeline st) + t_active (ts_agentic st) = 0
                 then or_else (try_commission now (ts_pipeline st) Pipeline st
                        ''pipeline worker for SDS labels'') general
                 else general)
           else decommission)"

definition tier_of :: "tiered_snapshot \<Rightarrow> worker_tier \<Rightarrow> tier_state" where
  "tier_of st t = (case t of Databot \<Rightarrow> ts_databot st | Pipeline \<Rightarrow> ts_pipeline st | Agentic \<Rightarrow> ts_agentic st)"

text \<open>What a decision may ask for: the bounds of its tier, a target of the right list.\<close>

definition justified :: "int \<Rightarrow> tiered_snapshot \<Rightarrow> scale_decision \<Rightarrow> bool" where
  "justified now st d \<longleftrightarrow>
     (let ts = tier_of st (s_tier d) in
      case s_action d of
        ActNone \<Rightarrow> True
      | Commission \<Rightarrow> t_active ts < t_max ts \<and> t_suspended ts = [] \<and> s_tier d \<noteq> Agentic
          \<and> now - ts_last_commission st > ms (ts_cooldown st)
          \<and> ts_pressure_threshold st \<le> ts_pressure_count st
      | Resume \<Rightarrow> t_active ts < t_max ts \<and> s_target d \<in> set (t_suspended ts) \<and> s_tier d \<noteq> Agentic
          \<and> now - ts_last_commission st > ms (ts_cooldown st)
          \<and> ts_pressure_threshold st \<le> ts_pressure_count st
      | Decommission \<Rightarrow> t_min ts < t_active ts \<and> s_target d \<in> set (t_idle ts)
          \<and> (ts_pressure_count st = 0 \<or>
             ts_energy_budget st > 0 \<and> ts_current_energy st \<ge> ts_energy_budget st))"

lemma justified_no_scale [simp]: "justified now st (no_scale t)"
  by (simp add: justified_def Let_def)

lemma justified_or_else: "justified now st a \<Longrightarrow> justified now st b \<Longrightarrow> justified now st (or_else a b)"
  by (simp add: or_else_def)

lemma justified_commission:
  "t \<noteq> Agentic \<Longrightarrow> ts_pressure_threshold st \<le> ts_pressure_count st \<Longrightarrow>
   justified now st (try_commission now (tier_of st t) t st r)"
  by (auto simp: justified_def try_commission_def Let_def)

lemma justified_decommission:
  "ts_pressure_count st = 0 \<or> ts_energy_budget st > 0 \<and> ts_current_energy st \<ge> ts_energy_budget st \<Longrightarrow>
   justified now st (try_decommission (tier_of st t) t r)"
  by (auto simp: justified_def try_decommission_def Let_def)

lemma tier_of_simps [simp]:
  "tier_of st Databot = ts_databot st" "tier_of st Pipeline = ts_pipeline st"
  "tier_of st Agentic = ts_agentic st"
  by (simp_all add: tier_of_def)

lemmas commission_rules =
  justified_commission [of Databot, simplified] justified_commission [of Pipeline, simplified]
lemmas decommission_rules =
  justified_decommission [of _ _ Databot, simplified] justified_decommission [of _ _ Pipeline, simplified]
  justified_decommission [of _ _ Agentic, simplified]

text \<open>
  Tier-aware scaling keeps its bounds: a worker is commissioned or resumed only under
  sustained pressure, after the cooldown, in a tier below its maximum and never in the agentic
  tier; a worker is decommissioned only if it is idle, its tier is above its minimum, and there is
  no pressure or the energy budget is exhausted.
\<close>

lemma evaluate_tiered_justified: "justified now st (evaluate_tiered now st)"
  unfolding evaluate_tiered_def Let_def
  by (auto intro!: justified_or_else commission_rules decommission_rules simp: justified_def [of _ _ "\<lparr>s_action = ActNone, s_tier = _, s_target = _, s_reason = _\<rparr>"] Let_def)

end
