(* ===== verification/Config.thy ===== *)
theory Config
  imports Solver
begin

text \<open>
  \<^verbatim>\<open>src/labios/config.cpp\<close>: the configuration, read from a TOML file and overridden by
  environment variables. The TOML library is a parameter: the file is a table whose typed lookups
  (\<^verbatim>\<open>tbl[section][key].value<T>()\<close>) answer \<open>None\<close> when there is no value of that type. The
  environment is a function. \<^verbatim>\<open>std::strtod\<close> is modelled on decimal numbers (its hexadecimal,
  infinity and NaN forms are not), with \<open>rat\<close> for \<^verbatim>\<open>double\<close>.
\<close>

record elastic_config =
  el_enabled :: bool
  el_min_workers :: int
  el_max_workers :: int
  el_pressure_threshold :: int
  el_worker_idle_timeout_ms :: int
  el_decommission_timeout_ms :: int
  el_commission_cooldown_ms :: int
  el_eval_interval_ms :: int
  el_docker_socket :: string
  el_docker_image :: string
  el_docker_network :: string
  el_worker_speed :: int
  el_worker_energy :: int
  el_worker_capacity :: string
  el_min_databot_workers :: int
  el_max_databot_workers :: int
  el_min_pipeline_workers :: int
  el_max_pipeline_workers :: int
  el_min_agentic_workers :: int
  el_max_agentic_workers :: int

record config =
  c_nats_url :: string
  c_redis_host :: string
  c_redis_port :: int
  c_worker_id :: int
  c_worker_speed :: int
  c_worker_capacity :: string
  c_service_name :: string
  c_label_min_size :: u64
  c_label_max_size :: u64
  c_cache_flush_interval_ms :: int
  c_cache_read_policy :: string
  c_intercept_prefixes :: "string list"
  c_reply_timeout_ms :: int
  c_dispatcher_batch_size :: int
  c_dispatcher_batch_timeout_ms :: int
  c_dispatcher_aggregation_enabled :: bool
  c_dispatcher_dep_granularity :: string
  c_scheduler_policy :: string
  c_scheduler_profile_path :: string
  c_scheduler_worker_refresh_ms :: int
  c_worker_energy :: int
  c_worker_tier :: int
  c_max_worker_capacity :: u64
  c_elastic :: elastic_config

definition default_elastic :: elastic_config where
  "default_elastic = \<lparr>el_enabled = False,
     el_min_workers = 1,
     el_max_workers = 10,
     el_pressure_threshold = 5,
     el_worker_idle_timeout_ms = 30000,
     el_decommission_timeout_ms = 60000,
     el_commission_cooldown_ms = 5000,
     el_eval_interval_ms = 2000,
     el_docker_socket = ''/var/run/docker.sock'',
     el_docker_image = [],
     el_docker_network = [],
     el_worker_speed = 3,
     el_worker_energy = 3,
     el_worker_capacity = ''50GB'',
     el_min_databot_workers = 1,
     el_max_databot_workers = 10,
     el_min_pipeline_workers = 0,
     el_max_pipeline_workers = 5,
     el_min_agentic_workers = 0,
     el_max_agentic_workers = 2\<rparr>"

definition default_cfg :: config where
  "default_cfg = \<lparr>c_nats_url = ''nats://localhost:4222'',
     c_redis_host = ''localhost'',
     c_redis_port = 6379,
     c_worker_id = 0,
     c_worker_speed = 1,
     c_worker_capacity = ''1GB'',
     c_service_name = [],
     c_label_min_size = 65536,
     c_label_max_size = 1048576,
     c_cache_flush_interval_ms = 500,
     c_cache_read_policy = ''read-through'',
     c_intercept_prefixes = [''/labios''],
     c_reply_timeout_ms = 30000,
     c_dispatcher_batch_size = 100,
     c_dispatcher_batch_timeout_ms = 50,
     c_dispatcher_aggregation_enabled = True,
     c_dispatcher_dep_granularity = ''per-file'',
     c_scheduler_policy = ''round-robin'',
     c_scheduler_profile_path = [],
     c_scheduler_worker_refresh_ms = 5000,
     c_worker_energy = 1,
     c_worker_tier = 0,
     c_max_worker_capacity = 1099511627776,
     c_elastic = default_elastic\<rparr>"

subsection \<open>Numbers in text\<close>

definition is_space :: "char \<Rightarrow> bool" where
  "is_space c \<longleftrightarrow> c = CHR '' '' \<or> c = CHR 0x09 \<or> c = CHR 0x0A \<or> c = CHR 0x0B \<or> c = CHR 0x0C \<or> c = CHR 0x0D"

definition trim_ascii :: "string \<Rightarrow> string" where
  "trim_ascii s = rev (dropWhile is_space (rev (dropWhile is_space s)))"

text \<open>An optional sign; the rest.\<close>

definition split_sign :: "string \<Rightarrow> bool \<times> string" where
  "split_sign s =
     (case s of c # r \<Rightarrow> if c = CHR ''-'' then (True, r) else if c = CHR ''+'' then (False, r) else (False, s)
      | [] \<Rightarrow> (False, []))"

text \<open>\<^verbatim>\<open>std::stoi\<close>: its two exceptions are the two left values.\<close>

definition stoi :: "string \<Rightarrow> int result" where
  "stoi s =
     (let (neg, body) = split_sign (dropWhile is_space s); ds = takeWhile is_digit body;
          v = (if neg then - int (digits_val ds) else int (digits_val ds))
      in if ds = [] then Inl ''stoi: invalid argument''
         else if v < - (2 ^ 31) \<or> v \<ge> 2 ^ 31 then Inl ''stoi: out of range''
         else Inr v)"

text \<open>\<^verbatim>\<open>std::stoull\<close>: a minus sign negates modulo 2^64.\<close>

definition stoull :: "string \<Rightarrow> u64 result" where
  "stoull s =
     (let (neg, body) = split_sign (dropWhile is_space s); ds = takeWhile is_digit body
      in if ds = [] then Inl ''stoull: invalid argument''
         else if digits_val ds \<ge> 2 ^ 64 then Inl ''stoull: out of range''
         else Inr (if neg then - of_nat (digits_val ds) else of_nat (digits_val ds)))"

text \<open>The exponent part of a decimal number, if there is a complete one.\<close>

definition split_exponent :: "string \<Rightarrow> int \<times> string" where
  "split_exponent s =
     (case s of
        [] \<Rightarrow> (0, [])
      | c # r \<Rightarrow>
          if c = CHR ''e'' \<or> c = CHR ''E''
          then (let (neg, body) = split_sign r; ds = takeWhile is_digit body
                in if ds = [] then (0, s)
                   else (if neg then - int (digits_val ds) else int (digits_val ds),
                         dropWhile is_digit body))
          else (0, s))"

definition rat_pow10 :: "int \<Rightarrow> rat" where
  "rat_pow10 e = (if e \<ge> 0 then 10 ^ nat e else 1 / 10 ^ nat (- e))"

text \<open>
  \<^verbatim>\<open>std::strtod\<close>: the value and the text after it, \<open>None\<close> when no number starts there. The flag
  is \<^verbatim>\<open>ERANGE\<close> for a value too large for a double.
\<close>

definition strtod :: "string \<Rightarrow> (rat \<times> bool \<times> string) option" where
  "strtod s =
     (let (neg, body) = split_sign (dropWhile is_space s);
          ip = takeWhile is_digit body; r1 = dropWhile is_digit body;
          (fp, r2) = (case r1 of
                        c # r \<Rightarrow> if c = CHR ''.'' then (takeWhile is_digit r, dropWhile is_digit r) else ([], r1)
                      | [] \<Rightarrow> ([], []))
      in if ip = [] \<and> fp = [] then None
         else let (ex, r3) = split_exponent r2;
                  v = of_nat (digits_val (ip @ fp)) * rat_pow10 (ex - int (length fp));
                  v = (if neg then - v else v)
              in Some (v, \<bar>v\<bar> \<ge> 2 ^ 1024, r3))"

text \<open>\<^verbatim>\<open>static_cast<uint64_t>\<close> of a non-negative double (undefined in C++ from 2^64 up).\<close>

definition to_u64 :: "rat \<Rightarrow> u64" where
  "to_u64 v = of_nat (nat \<lfloor>v\<rfloor>)"

definition to_upper :: "char \<Rightarrow> char" where
  "to_upper c = (if 97 \<le> (of_char c :: nat) \<and> (of_char c :: nat) \<le> 122 then char_of (of_char c - 32 :: nat) else c)"

definition parse_size :: "string \<Rightarrow> u64" where
  "parse_size s0 =
     (let s = trim_ascii s0 in
      if s = [] then 0
      else case strtod s of
        None \<Rightarrow> 0
      | Some (v, erange, rest) \<Rightarrow>
          if erange \<or> v < 0 then 0
          else let suffix = map to_upper (trim_ascii rest) in
               if suffix = [] \<or> suffix = ''B'' then to_u64 v
               else if suffix = ''KB'' then to_u64 (v * 1024)
               else if suffix = ''MB'' then to_u64 (v * 1024 * 1024)
               else if suffix = ''GB'' then to_u64 (v * 1024 * 1024 * 1024)
               else to_u64 v)"

subsection \<open>The file\<close>

record toml_table =
  toml_str :: "string \<Rightarrow> string \<Rightarrow> string option"
  toml_int :: "string \<Rightarrow> string \<Rightarrow> int option"
  toml_bool :: "string \<Rightarrow> string \<Rightarrow> bool option"
  toml_float :: "string \<Rightarrow> string \<Rightarrow> rat option"
  toml_array :: "string \<Rightarrow> string \<Rightarrow> string option list option"

abbreviation value_or :: "'a option \<Rightarrow> 'a \<Rightarrow> 'a" where
  "value_or v d \<equiv> (case v of Some x \<Rightarrow> x | None \<Rightarrow> d)"

definition elastic_from_toml :: "toml_table \<Rightarrow> elastic_config \<Rightarrow> elastic_config" where
  "elastic_from_toml t e = e\<lparr>
     el_enabled := value_or (toml_bool t ''elastic'' ''enabled'') (el_enabled e),
     el_min_workers := value_or (toml_int t ''elastic'' ''min_workers'') (el_min_workers e),
     el_max_workers := value_or (toml_int t ''elastic'' ''max_workers'') (el_max_workers e),
     el_pressure_threshold := value_or (toml_int t ''elastic'' ''pressure_threshold'') (el_pressure_threshold e),
     el_worker_idle_timeout_ms := value_or (toml_int t ''elastic'' ''worker_idle_timeout_ms'') (el_worker_idle_timeout_ms e),
     el_decommission_timeout_ms := value_or (toml_int t ''elastic'' ''decommission_timeout_ms'') (el_decommission_timeout_ms e),
     el_commission_cooldown_ms := value_or (toml_int t ''elastic'' ''commission_cooldown_ms'') (el_commission_cooldown_ms e),
     el_eval_interval_ms := value_or (toml_int t ''elastic'' ''eval_interval_ms'') (el_eval_interval_ms e),
     el_docker_socket := value_or (toml_str t ''elastic'' ''docker_socket'') (el_docker_socket e),
     el_docker_image := value_or (toml_str t ''elastic'' ''docker_image'') (el_docker_image e),
     el_docker_network := value_or (toml_str t ''elastic'' ''docker_network'') (el_docker_network e),
     el_worker_speed := value_or (toml_int t ''elastic'' ''elastic_worker_speed'') (el_worker_speed e),
     el_worker_energy := value_or (toml_int t ''elastic'' ''elastic_worker_energy'') (el_worker_energy e),
     el_worker_capacity := value_or (toml_str t ''elastic'' ''elastic_worker_capacity'') (el_worker_capacity e),
     el_min_databot_workers := value_or (toml_int t ''elastic'' ''min_databot_workers'') (el_min_databot_workers e),
     el_max_databot_workers := value_or (toml_int t ''elastic'' ''max_databot_workers'') (el_max_databot_workers e),
     el_min_pipeline_workers := value_or (toml_int t ''elastic'' ''min_pipeline_workers'') (el_min_pipeline_workers e),
     el_max_pipeline_workers := value_or (toml_int t ''elastic'' ''max_pipeline_workers'') (el_max_pipeline_workers e),
     el_min_agentic_workers := value_or (toml_int t ''elastic'' ''min_agentic_workers'') (el_min_agentic_workers e),
     el_max_agentic_workers := value_or (toml_int t ''elastic'' ''max_agentic_workers'') (el_max_agentic_workers e)\<rparr>"

definition config_from_toml :: "toml_table \<Rightarrow> config \<Rightarrow> config" where
  "config_from_toml t c = c\<lparr>
     c_nats_url := value_or (toml_str t ''nats'' ''url'') (c_nats_url c),
     c_redis_host := value_or (toml_str t ''redis'' ''host'') (c_redis_host c),
     c_redis_port := value_or (toml_int t ''redis'' ''port'') (c_redis_port c),
     c_worker_id := value_or (toml_int t ''worker'' ''id'') (c_worker_id c),
     c_worker_speed := value_or (toml_int t ''worker'' ''speed'') (c_worker_speed c),
     c_worker_capacity := value_or (toml_str t ''worker'' ''capacity'') (c_worker_capacity c),
     c_label_min_size := (case toml_str t ''label'' ''min_size'' of Some v \<Rightarrow> parse_size v | None \<Rightarrow> c_label_min_size c),
     c_label_max_size := (case toml_str t ''label'' ''max_size'' of Some v \<Rightarrow> parse_size v | None \<Rightarrow> c_label_max_size c),
     c_cache_flush_interval_ms := value_or (toml_int t ''cache'' ''flush_interval_ms'') (c_cache_flush_interval_ms c),
     c_cache_read_policy := value_or (toml_str t ''cache'' ''default_read_policy'') (c_cache_read_policy c),
     c_intercept_prefixes := (case toml_array t ''intercept'' ''prefixes'' of Some vs \<Rightarrow> List.map_filter id vs
       | None \<Rightarrow> c_intercept_prefixes c),
     c_reply_timeout_ms := value_or (toml_int t ''client'' ''reply_timeout_ms'') (c_reply_timeout_ms c),
     c_dispatcher_batch_size := value_or (toml_int t ''dispatcher'' ''batch_size'') (c_dispatcher_batch_size c),
     c_dispatcher_batch_timeout_ms := value_or (toml_int t ''dispatcher'' ''batch_timeout_ms'') (c_dispatcher_batch_timeout_ms c),
     c_dispatcher_aggregation_enabled := value_or (toml_bool t ''dispatcher'' ''aggregation_enabled'') (c_dispatcher_aggregation_enabled c),
     c_dispatcher_dep_granularity := value_or (toml_str t ''dispatcher'' ''dep_granularity'') (c_dispatcher_dep_granularity c),
     c_scheduler_policy := value_or (toml_str t ''scheduler'' ''policy'') (c_scheduler_policy c),
     c_scheduler_profile_path := value_or (toml_str t ''scheduler'' ''profile_path'') (c_scheduler_profile_path c),
     c_scheduler_worker_refresh_ms := value_or (toml_int t ''scheduler'' ''worker_refresh_ms'') (c_scheduler_worker_refresh_ms c),
     c_worker_energy := value_or (toml_int t ''worker'' ''energy'') (c_worker_energy c),
     c_worker_tier := value_or (toml_int t ''worker'' ''tier'') (c_worker_tier c),
     c_max_worker_capacity := (case toml_str t ''manager'' ''max_worker_capacity'' of Some v \<Rightarrow> parse_size v | None \<Rightarrow> c_max_worker_capacity c),
     c_elastic := elastic_from_toml t (c_elastic c)\<rparr>"

subsection \<open>The environment\<close>

type_synonym environment = "string \<Rightarrow> string option"

definition env_or :: "environment \<Rightarrow> string \<Rightarrow> string \<Rightarrow> string" where
  "env_or env name fallback =
     (case env name of Some v \<Rightarrow> if v \<noteq> [] then v else fallback | None \<Rightarrow> fallback)"

definition env_int_or :: "environment \<Rightarrow> string \<Rightarrow> int \<Rightarrow> int" where
  "env_int_or env name fallback =
     (case env name of
        Some v \<Rightarrow> if v \<noteq> [] then (case stoi v of Inr i \<Rightarrow> i | Inl _ \<Rightarrow> fallback) else fallback
      | None \<Rightarrow> fallback)"

definition env_size :: "environment \<Rightarrow> string \<Rightarrow> u64 \<Rightarrow> u64" where
  "env_size env name fallback =
     (case env name of Some v \<Rightarrow> if v \<noteq> [] then parse_size v else fallback | None \<Rightarrow> fallback)"

text \<open>The comma-separated prefixes, empty tokens dropped.\<close>

function split_prefixes :: "string \<Rightarrow> string list" where
  "split_prefixes s =
     (if s = [] then []
      else let token = takeWhile (\<lambda>c. c \<noteq> CHR '','') s;
               rest = drop (length token + 1) s
           in (if token \<noteq> [] then [token] else []) @ split_prefixes rest)"
  by pat_completeness auto
termination by (relation "measure length") (auto simp: Let_def)

declare split_prefixes.simps [simp del]

definition elastic_from_env :: "environment \<Rightarrow> elastic_config \<Rightarrow> elastic_config" where
  "elastic_from_env env e = e\<lparr>
     el_enabled := (case env ''LABIOS_ELASTIC_ENABLED'' of
        Some v \<Rightarrow> v = ''true'' \<or> v = ''1'' | None \<Rightarrow> el_enabled e),
     el_docker_socket := env_or env ''LABIOS_DOCKER_SOCKET'' (el_docker_socket e),
     el_docker_image := env_or env ''LABIOS_DOCKER_IMAGE'' (el_docker_image e),
     el_docker_network := env_or env ''LABIOS_DOCKER_NETWORK'' (el_docker_network e),
     el_min_workers := env_int_or env ''LABIOS_ELASTIC_MIN_WORKERS'' (el_min_workers e),
     el_max_workers := env_int_or env ''LABIOS_ELASTIC_MAX_WORKERS'' (el_max_workers e),
     el_worker_speed := env_int_or env ''LABIOS_ELASTIC_WORKER_SPEED'' (el_worker_speed e),
     el_worker_energy := env_int_or env ''LABIOS_ELASTIC_WORKER_ENERGY'' (el_worker_energy e),
     el_worker_capacity := env_or env ''LABIOS_ELASTIC_WORKER_CAPACITY'' (el_worker_capacity e),
     el_worker_idle_timeout_ms := env_int_or env ''LABIOS_WORKER_IDLE_TIMEOUT_MS'' (el_worker_idle_timeout_ms e)\<rparr>"

definition config_from_env :: "environment \<Rightarrow> config \<Rightarrow> config" where
  "config_from_env env c = c\<lparr>
     c_nats_url := env_or env ''LABIOS_NATS_URL'' (c_nats_url c),
     c_redis_host := env_or env ''LABIOS_REDIS_HOST'' (c_redis_host c),
     c_redis_port := env_int_or env ''LABIOS_REDIS_PORT'' (c_redis_port c),
     c_worker_id := env_int_or env ''LABIOS_WORKER_ID'' (c_worker_id c),
     c_worker_speed := env_int_or env ''LABIOS_WORKER_SPEED'' (c_worker_speed c),
     c_worker_capacity := env_or env ''LABIOS_WORKER_CAPACITY'' (c_worker_capacity c),
     c_label_min_size := env_size env ''LABIOS_LABEL_MIN_SIZE'' (c_label_min_size c),
     c_label_max_size := env_size env ''LABIOS_LABEL_MAX_SIZE'' (c_label_max_size c),
     c_cache_flush_interval_ms := env_int_or env ''LABIOS_CACHE_FLUSH_MS'' (c_cache_flush_interval_ms c),
     c_cache_read_policy := env_or env ''LABIOS_CACHE_READ_POLICY'' (c_cache_read_policy c),
     c_intercept_prefixes := (case env ''LABIOS_INTERCEPT_PREFIXES'' of
        Some v \<Rightarrow> if v \<noteq> [] then split_prefixes v else c_intercept_prefixes c
      | None \<Rightarrow> c_intercept_prefixes c),
     c_reply_timeout_ms := env_int_or env ''LABIOS_REPLY_TIMEOUT_MS'' (c_reply_timeout_ms c),
     c_dispatcher_batch_size := env_int_or env ''LABIOS_DISPATCHER_BATCH_SIZE'' (c_dispatcher_batch_size c),
     c_dispatcher_batch_timeout_ms := env_int_or env ''LABIOS_DISPATCHER_BATCH_TIMEOUT_MS'' (c_dispatcher_batch_timeout_ms c),
     c_dispatcher_aggregation_enabled := (case env ''LABIOS_DISPATCHER_AGGREGATION'' of
        Some v \<Rightarrow> if v \<noteq> [] then v = ''true'' \<or> v = ''1'' else c_dispatcher_aggregation_enabled c
      | None \<Rightarrow> c_dispatcher_aggregation_enabled c),
     c_dispatcher_dep_granularity := env_or env ''LABIOS_DISPATCHER_DEP_GRANULARITY'' (c_dispatcher_dep_granularity c),
     c_scheduler_policy := env_or env ''LABIOS_SCHEDULER_POLICY'' (c_scheduler_policy c),
     c_scheduler_profile_path := env_or env ''LABIOS_SCHEDULER_PROFILE'' (c_scheduler_profile_path c),
     c_scheduler_worker_refresh_ms := env_int_or env ''LABIOS_SCHEDULER_WORKER_REFRESH_MS'' (c_scheduler_worker_refresh_ms c),
     c_worker_energy := env_int_or env ''LABIOS_WORKER_ENERGY'' (c_worker_energy c),
     c_worker_tier := env_int_or env ''LABIOS_WORKER_TIER'' (c_worker_tier c),
     c_max_worker_capacity := env_size env ''LABIOS_MAX_WORKER_CAPACITY'' (c_max_worker_capacity c),
     c_elastic := elastic_from_env env (c_elastic c)\<rparr>"

text \<open>\<open>file\<close>: \<open>None\<close> when the path does not exist, \<open>Inl\<close> when parsing throws.\<close>

definition load_config :: "toml_table result option \<Rightarrow> environment \<Rightarrow> config result" where
  "load_config file env =
     (case file of
        None \<Rightarrow> Inr (config_from_env env default_cfg)
      | Some (Inl e) \<Rightarrow> Inl e
      | Some (Inr t) \<Rightarrow> Inr (config_from_env env (config_from_toml t default_cfg)))"

text \<open>\<^verbatim>\<open>Config::set\<close>: the flag is false for an unknown key; a malformed number throws.\<close>

definition config_set :: "string \<Rightarrow> string \<Rightarrow> config \<Rightarrow> (bool \<times> config) result" where
  "config_set key v c =
     (let number = (\<lambda>upd. case stoi v of Inl e \<Rightarrow> Inl e | Inr i \<Rightarrow> Inr (True, upd i)) in
      if key = ''batch_size'' then number (\<lambda>i. c\<lparr>c_dispatcher_batch_size := i\<rparr>)
      else if key = ''batch_timeout_ms'' then number (\<lambda>i. c\<lparr>c_dispatcher_batch_timeout_ms := i\<rparr>)
      else if key = ''scheduler_policy'' then Inr (True, c\<lparr>c_scheduler_policy := v\<rparr>)
      else if key = ''aggregation_enabled'' then Inr (True, c\<lparr>c_dispatcher_aggregation_enabled := (v = ''true'')\<rparr>)
      else if key = ''reply_timeout_ms'' then number (\<lambda>i. c\<lparr>c_reply_timeout_ms := i\<rparr>)
      else if key = ''cache_flush_interval_ms'' then number (\<lambda>i. c\<lparr>c_cache_flush_interval_ms := i\<rparr>)
      else if key = ''cache_read_policy'' then Inr (True, c\<lparr>c_cache_read_policy := v\<rparr>)
      else Inr (False, c))"

definition load_weight_profile :: "string \<Rightarrow> toml_table result option \<Rightarrow> weight_profile result" where
  "load_weight_profile stem file =
     (let wp = default_profile\<lparr>p_name := stem\<rparr> in
      case file of
        None \<Rightarrow> Inr wp
      | Some (Inl e) \<Rightarrow> Inl e
      | Some (Inr t) \<Rightarrow>
          (let w = (\<lambda>k. value_or (toml_float t ''weights'' k) 0) in
           Inr (wp\<lparr>p_availability := w ''availability'', p_capacity := w ''capacity'', p_load := w ''load'',
                   p_speed := w ''speed'', p_energy := w ''energy'', p_tier := w ''tier'',
                   p_skills := w ''skills'', p_compute := w ''compute'', p_reasoning := w ''reasoning''\<rparr>)))"

subsection \<open>What loading guarantees\<close>

lemma number_start:
  "split_sign (nat_to_string n @ t) = (False, nat_to_string n @ t)"
  "dropWhile is_space (nat_to_string n @ t) = nat_to_string n @ t"
proof -
  have h: "hd (nat_to_string n) \<noteq> CHR ''-''" "hd (nat_to_string n) \<noteq> CHR ''+''"
    "\<not> is_space (hd (nat_to_string n))"
    using nat_to_string_hd [of n] by (auto simp: is_digit_def is_space_def)
  obtain c r where "nat_to_string n = c # r" by (cases "nat_to_string n") auto
  then show "split_sign (nat_to_string n @ t) = (False, nat_to_string n @ t)"
    "dropWhile is_space (nat_to_string n @ t) = nat_to_string n @ t"
    using h by (simp_all add: split_sign_def)
qed

lemma stoull_print: "stoull (u64_to_string w) = Inr w"
proof -
  have tw: "takeWhile is_digit (u64_to_string w) = u64_to_string w"
    using takeWhile_digits(1) [of "[]" "unat w"] by simp
  have "unat w < 2 ^ 64" using unsigned_less [of w] by simp
  then show ?thesis
    using number_start [of "unat w" "[]"]
    by (simp add: stoull_def digits_val_nat_to_string Let_def tw)
qed

lemma stoi_print:
  assumes "- (2 ^ 31) \<le> i" "i < 2 ^ 31"
  shows "stoi (int_to_string i) = Inr i"
proof -
  have h: "hd (nat_to_string n) \<noteq> CHR ''-''" "hd (nat_to_string n) \<noteq> CHR ''+''"
    "\<not> is_space (hd (nat_to_string n))" for n
    using nat_to_string_hd [of n] by (auto simp: is_digit_def is_space_def)
  have dw: "dropWhile is_space (nat_to_string n) = nat_to_string n" for n
    using h(3) [of n] by (cases "nat_to_string n") auto
  have sg: "split_sign (nat_to_string n) = (False, nat_to_string n)" for n
    using h(1,2) [of n] by (cases "nat_to_string n") (auto simp: split_sign_def)
  have tw: "takeWhile is_digit (nat_to_string n) = nat_to_string n" for n
    using takeWhile_digits(1) [of "[]" n] by simp
  show ?thesis
  proof (cases "i < 0")
    case True
    have "\<not> is_space (CHR ''-'')" by (simp add: is_space_def)
    then show ?thesis
      using True assms
      by (simp add: stoi_def int_to_string_def split_sign_def tw digits_val_nat_to_string)
  next
    case False
    then show ?thesis
      using assms by (simp add: stoi_def int_to_string_def dw sg tw digits_val_nat_to_string)
  qed
qed

lemma env_or_set: "env name = Some v \<Longrightarrow> v \<noteq> [] \<Longrightarrow> env_or env name d = v"
  by (simp add: env_or_def)

text \<open>The size of a decimal number with a unit.\<close>

definition unit_factor :: "string \<Rightarrow> nat option" where
  "unit_factor u =
     (if u = [] \<or> u = ''B'' then Some 1 else if u = ''KB'' then Some 1024
      else if u = ''MB'' then Some (1024 * 1024) else if u = ''GB'' then Some (1024 * 1024 * 1024)
      else None)"

lemma unit_facts:
  assumes "unit_factor u = Some k"
  shows "trim_ascii u = u" "map to_upper u = u" "u = [] \<or> \<not> is_digit (hd u) \<and> hd u \<noteq> CHR ''.'' \<and> \<not> is_space (last u)"
    and "split_exponent u = (0, u)"
  using assms
  by (auto simp: unit_factor_def trim_ascii_def is_space_def to_upper_def is_digit_def split_exponent_def
      split: if_splits)

lemma strtod_print:
  assumes "unit_factor u = Some k" "n < 2 ^ 1024"
  shows "strtod (nat_to_string n @ u) = Some (of_nat n, False, u)"
proof -
  have h: "hd (nat_to_string n) \<noteq> CHR ''-''" "hd (nat_to_string n) \<noteq> CHR ''+''"
    "\<not> is_space (hd (nat_to_string n))"
    using nat_to_string_hd [of n] by (auto simp: is_digit_def is_space_def)
  obtain c r where cr: "nat_to_string n = c # r" by (cases "nat_to_string n") auto
  have dw: "dropWhile is_space (nat_to_string n @ u) = nat_to_string n @ u"
    and sg: "split_sign (nat_to_string n @ u) = (False, nat_to_string n @ u)"
    using h by (simp_all add: cr split_sign_def)
  have tw: "takeWhile is_digit (nat_to_string n @ u) = nat_to_string n"
    "dropWhile is_digit (nat_to_string n @ u) = u"
    using takeWhile_digits [of u n] unit_facts(3) [OF assms(1)] by auto
  have fp: "(case u of [] \<Rightarrow> ([], []) | c # r \<Rightarrow>
      if c = CHR ''.'' then (takeWhile is_digit r, dropWhile is_digit r) else ([], u)) = ([], u)"
    using unit_facts(3) [OF assms(1)] by (cases u) auto
  have "(of_nat n :: rat) < 2 ^ 1024"
    using assms(2) by (metis of_nat_less_iff of_nat_numeral of_nat_power)
  then show ?thesis
    unfolding strtod_def Let_def dw sg case_prod_conv tw fp unit_facts(4) [OF assms(1)]
    by (simp add: digits_val_nat_to_string rat_pow10_def del: power_numeral)
qed

lemma to_u64_nat: "to_u64 (of_nat n) = of_nat n"
  by (simp add: to_u64_def)

text \<open>
  A size written as a number and a unit (none, B, KB, MB or GB) is read as that many bytes,
  for every number whose size fits 64 bits.
\<close>

lemma parse_size_units:
  assumes "unit_factor u = Some k" "n * k < 2 ^ 64"
  shows "parse_size (nat_to_string n @ u) = of_nat (n * k)"
proof -
  have k: "0 < k" "to_u64 (of_nat n * of_nat k) = of_nat (n * k)"
    using assms(1) to_u64_nat [of "n * k"] by (auto simp: unit_factor_def split: if_splits)
  then have "n \<le> n * k" by simp
  then have "n < 2 ^ 64" using assms(2) by linarith
  then have n: "n < 2 ^ 1024" using power_increasing [of 64 1024 "2::nat"] by linarith
  have dig: "\<not> is_space c" if "is_digit c" for c
    using that by (auto simp: is_digit_def is_space_def)
  have "is_digit (last (nat_to_string n))"
    using nat_to_string_digits [of n] last_in_set [of "nat_to_string n"] by (auto simp: list_all_iff)
  then have "\<not> is_space (hd (nat_to_string n @ u))" "\<not> is_space (last (nat_to_string n @ u))"
    using unit_facts(3) [OF assms(1)] dig nat_to_string_hd [of n] by (auto simp: last_append)
  then have "dropWhile is_space (nat_to_string n @ u) = nat_to_string n @ u"
    "dropWhile is_space (rev (nat_to_string n @ u)) = rev (nat_to_string n @ u)"
    by (simp_all only: dropWhile_eq_self_iff hd_rev simp_thms)
  then have trim: "trim_ascii (nat_to_string n @ u) = nat_to_string n @ u"
    by (simp only: trim_ascii_def rev_rev_ident)
  have "parse_size (nat_to_string n @ u) =
      (let v = of_nat n in
       if u = [] \<or> u = ''B'' then to_u64 v
       else if u = ''KB'' then to_u64 (v * 1024)
       else if u = ''MB'' then to_u64 (v * 1024 * 1024)
       else if u = ''GB'' then to_u64 (v * 1024 * 1024 * 1024)
       else to_u64 v)"
    using strtod_print [OF assms(1) n] unit_facts(1,2) [OF assms(1)]
    by (simp add: parse_size_def trim Let_def)
  then show ?thesis
    using assms(1) k(2) by (auto simp: unit_factor_def to_u64_nat mult.assoc Let_def split: if_splits)
qed

end
