(* ===== verification/Orchestrator.thy ===== *)
theory Orchestrator
  imports Elastic Config
begin

text \<open>
  \<^verbatim>\<open>Orchestrator<Runtime>\<close> of \<^verbatim>\<open>include/labios/elastic/orchestrator.h\<close> over the worker manager,
  with the container runtime as its parameter, and the handling of its decisions. The runtime's
  interface is the locale \<open>container_runtime\<close>; \<^verbatim>\<open>MockRuntime\<close> of
  \<^verbatim>\<open>include/labios/elastic/docker_client.h\<close> provides it.
\<close>

record container_spec =
  cs_image :: string
  cs_name :: string
  cs_env :: "string list"
  cs_network :: string

text \<open>A runtime: creating returns a container ID or throws, stopping returns or throws.\<close>

type_synonym 'r creator = "container_spec \<Rightarrow> 'r \<Rightarrow> string result \<times> 'r"
type_synonym 'r stopper = "string \<Rightarrow> 'r \<Rightarrow> unit result \<times> 'r"

record 'r orchestrator =
  o_mgr :: worker_manager
  o_runtime :: 'r
  o_pressure :: int
  o_queue :: queue_breakdown
  o_last_commission :: int
  o_commissioned :: "(int \<times> string) list"
  o_pending_resume :: int

definition new_orchestrator :: "worker_manager \<Rightarrow> 'r \<Rightarrow> 'r orchestrator" where
  "new_orchestrator mgr rt = \<lparr>o_mgr = mgr, o_runtime = rt, o_pressure = 0,
     o_queue = \<lparr>q_total = 0, q_pipeline = 0, q_observe = 0\<rparr>, o_last_commission = 0,
     o_commissioned = [], o_pending_resume = 0\<rparr>"

definition update_queue_depth :: "config \<Rightarrow> int \<Rightarrow> 'r orchestrator \<Rightarrow> 'r orchestrator" where
  "update_queue_depth cfg depth ob =
     (if depth \<ge> c_dispatcher_batch_size cfg then ob\<lparr>o_pressure := o_pressure ob + 1\<rparr>
      else ob\<lparr>o_pressure := 0\<rparr>)"

definition update_queue_breakdown :: "config \<Rightarrow> queue_breakdown \<Rightarrow> 'r orchestrator \<Rightarrow> 'r orchestrator" where
  "update_queue_breakdown cfg qb ob = update_queue_depth cfg (q_total qb) (ob\<lparr>o_queue := qb\<rparr>)"

definition commission_spec :: "config \<Rightarrow> worker_tier \<Rightarrow> int \<Rightarrow> container_spec" where
  "commission_spec cfg tier wid =
     \<lparr>cs_image = el_docker_image (c_elastic cfg),
      cs_name = ''labios-elastic-worker-'' @ int_to_string wid,
      cs_env = [
        ''LABIOS_NATS_URL='' @ c_nats_url cfg,
        ''LABIOS_REDIS_HOST='' @ c_redis_host cfg,
        ''LABIOS_WORKER_ID='' @ int_to_string wid,
        ''LABIOS_WORKER_SPEED='' @ int_to_string (el_worker_speed (c_elastic cfg)),
        ''LABIOS_WORKER_ENERGY='' @ int_to_string (el_worker_energy (c_elastic cfg)),
        ''LABIOS_WORKER_CAPACITY='' @ el_worker_capacity (c_elastic cfg),
        ''LABIOS_CONFIG_PATH=/etc/labios/labios.toml'',
        ''LABIOS_WORKER_IDLE_TIMEOUT_MS='' @ int_to_string (el_worker_idle_timeout_ms (c_elastic cfg)),
        ''LABIOS_WORKER_TIER='' @ nat_to_string (tier_num tier)],
      cs_network = el_docker_network (c_elastic cfg)\<rparr>"

definition commission_worker ::
    "'r creator \<Rightarrow> config \<Rightarrow> int \<Rightarrow> worker_tier \<Rightarrow> 'r orchestrator \<Rightarrow> 'r orchestrator" where
  "commission_worker create cfg now tier ob =
     (let (wid, mgr) = next_worker_id (o_mgr ob);
          (res, rt) = create (commission_spec cfg tier wid) (o_runtime ob);
          o1 = ob\<lparr>o_mgr := mgr, o_runtime := rt\<rparr>
      in case res of
           Inl e \<Rightarrow> o1
         | Inr cid \<Rightarrow> o1\<lparr>o_commissioned := AList.update wid cid (o_commissioned o1),
                        o_last_commission := now, o_pressure := 0\<rparr>)"

definition decommission_worker :: "'r stopper \<Rightarrow> int \<Rightarrow> 'r orchestrator \<Rightarrow> 'r orchestrator" where
  "decommission_worker stop wid ob =
     (case map_of (o_commissioned ob) wid of
        None \<Rightarrow> ob
      | Some cid \<Rightarrow>
          (let (res, rt) = stop cid (o_runtime ob)
           in ob\<lparr>o_commissioned := AList.delete wid (o_commissioned ob),
                o_mgr := deregister_worker wid (o_mgr ob), o_runtime := rt\<rparr>))"

definition elastic_snapshot_of :: "config \<Rightarrow> int \<Rightarrow> 'r orchestrator \<Rightarrow> elastic_snapshot" where
  "elastic_snapshot_of cfg now ob =
     (let el = c_elastic cfg;
          idle = decommissionable_workers now (el_decommission_timeout_ms el) (o_mgr ob)
      in \<lparr>e_pressure_count = o_pressure ob, e_pressure_threshold = el_pressure_threshold el,
          e_current_workers = int (worker_count (o_mgr ob)),
          e_min_workers = el_min_workers el, e_max_workers = el_max_workers el,
          e_idle = filter (\<lambda>wid. map_of (o_commissioned ob) wid \<noteq> None) idle,
          e_suspended = suspended_workers (o_mgr ob),
          e_last_commission = o_last_commission ob,
          e_cooldown = el_commission_cooldown_ms el,
          e_energy_budget = 0, e_current_energy = 0\<rparr>)"

definition evaluate_once ::
    "'r creator \<Rightarrow> 'r stopper \<Rightarrow> config \<Rightarrow> int \<Rightarrow> 'r orchestrator \<Rightarrow> 'r orchestrator" where
  "evaluate_once create stop cfg now ob =
     (let d = evaluate now (elastic_snapshot_of cfg now ob) in
      case d_action d of
        Commission \<Rightarrow> commission_worker create cfg now Databot ob
      | Decommission \<Rightarrow> decommission_worker stop (d_target d) ob
      | Resume \<Rightarrow> ob\<lparr>o_pending_resume := d_target d\<rparr>
      | ActNone \<Rightarrow> ob)"

definition build_tier ::
    "config \<Rightarrow> int \<Rightarrow> 'r orchestrator \<Rightarrow> worker_tier \<Rightarrow> int \<Rightarrow> int \<Rightarrow> tier_state" where
  "build_tier cfg now ob tier min_w max_w =
     \<lparr>t_active = int (count_by_tier tier (o_mgr ob)), t_min = min_w, t_max = max_w,
      t_idle = filter (\<lambda>wid. map_of (o_commissioned ob) wid \<noteq> None)
        (decommissionable_workers_by_tier tier now (el_decommission_timeout_ms (c_elastic cfg)) (o_mgr ob)),
      t_suspended = suspended_workers_by_tier tier (o_mgr ob)\<rparr>"

definition tiered_snapshot_of :: "config \<Rightarrow> int \<Rightarrow> 'r orchestrator \<Rightarrow> tiered_snapshot" where
  "tiered_snapshot_of cfg now ob =
     (let el = c_elastic cfg in
      \<lparr>ts_queue = o_queue ob, ts_pressure_count = o_pressure ob,
       ts_pressure_threshold = el_pressure_threshold el,
       ts_databot = build_tier cfg now ob Databot (el_min_databot_workers el) (el_max_databot_workers el),
       ts_pipeline = build_tier cfg now ob Pipeline (el_min_pipeline_workers el) (el_max_pipeline_workers el),
       ts_agentic = build_tier cfg now ob Agentic (el_min_agentic_workers el) (el_max_agentic_workers el),
       ts_last_commission = o_last_commission ob, ts_cooldown = el_commission_cooldown_ms el,
       ts_energy_budget = 0, ts_current_energy = 0\<rparr>)"

definition evaluate_tiered_once ::
    "'r creator \<Rightarrow> 'r stopper \<Rightarrow> config \<Rightarrow> int \<Rightarrow> 'r orchestrator \<Rightarrow> 'r orchestrator" where
  "evaluate_tiered_once create stop cfg now ob =
     (let sd = evaluate_tiered now (tiered_snapshot_of cfg now ob) in
      case s_action sd of
        Commission \<Rightarrow> commission_worker create cfg now (s_tier sd) ob
      | Decommission \<Rightarrow> decommission_worker stop (s_target sd) ob
      | Resume \<Rightarrow> ob\<lparr>o_pending_resume := s_target sd\<rparr>
      | ActNone \<Rightarrow> ob)"

definition record_commissioned :: "int \<Rightarrow> string \<Rightarrow> 'r orchestrator \<Rightarrow> 'r orchestrator" where
  "record_commissioned wid cid ob =
     ob\<lparr>o_commissioned := AList.update wid cid (o_commissioned ob)\<rparr>"

definition consume_pending_resume :: "'r orchestrator \<Rightarrow> int \<times> 'r orchestrator" where
  "consume_pending_resume ob = (o_pending_resume ob, ob\<lparr>o_pending_resume := 0\<rparr>)"

text \<open>
  \<^verbatim>\<open>run\<close>: one evaluation per clock reading, until the stop request (the end of the list).
\<close>

definition run_orchestrator ::
    "'r creator \<Rightarrow> 'r stopper \<Rightarrow> config \<Rightarrow> int list \<Rightarrow> 'r orchestrator \<Rightarrow> 'r orchestrator" where
  "run_orchestrator create stop cfg nows ob = fold (evaluate_once create stop cfg) nows ob"

text \<open>
  The elastic thread of \<^verbatim>\<open>labios-manager.cpp\<close>: the body of its loop is \<^verbatim>\<open>run\<close>, which returns
  only at the stop request, and then the resume command, if one is pending. The result is the
  list of the subjects published.
\<close>

definition elastic_thread ::
    "'r creator \<Rightarrow> 'r stopper \<Rightarrow> config \<Rightarrow> int list \<Rightarrow> 'r orchestrator \<Rightarrow> string list \<times> 'r orchestrator" where
  "elastic_thread create stop cfg nows ob =
     (let (rid, o1) = consume_pending_resume (run_orchestrator create stop cfg nows ob)
      in (if rid > 0 then [''labios.worker.resume.'' @ int_to_string rid] else [], o1))"

subsection \<open>The runtime's contract\<close>

text \<open>
  \<open>live r\<close> is the set of containers that exist. Creating a container yields a fresh one; a
  failed creation leaves none behind; stopping one that exists removes it or throws; no call
  touches another container. \<open>ok\<close> is an invariant of the runtime's own state.
\<close>

locale container_runtime =
  fixes create :: "'r creator" and stop :: "'r stopper"
    and live :: "'r \<Rightarrow> string set" and ok :: "'r \<Rightarrow> bool"
  assumes create_ok: "ok r \<Longrightarrow> create spec r = (Inr cid, r') \<Longrightarrow>
      cid \<notin> live r \<and> live r' = insert cid (live r) \<and> ok r'"
    and create_fails: "ok r \<Longrightarrow> create spec r = (Inl e, r') \<Longrightarrow> live r' = live r \<and> ok r'"
    and stop_keeps: "ok r \<Longrightarrow> cid \<in> live r \<Longrightarrow> stop cid r = (res, r') \<Longrightarrow>
      live r - {cid} \<subseteq> live r' \<and> live r' \<subseteq> live r \<and> ok r'"
begin

text \<open>
  The orchestrator's own invariant: it knows each worker once, each has a container of its own,
  that container is live, and the IDs it has handed out are below the manager's next one.
\<close>

definition owns_live :: "'r orchestrator \<Rightarrow> bool" where
  "owns_live ob \<longleftrightarrow> ok (o_runtime ob) \<and> distinct (map fst (o_commissioned ob)) \<and>
     distinct (map snd (o_commissioned ob)) \<and> snd ` set (o_commissioned ob) \<subseteq> live (o_runtime ob) \<and>
     (\<forall>wid \<in> fst ` set (o_commissioned ob). wid < m_next_elastic_id (o_mgr ob))"

lemma commission_owns:
  assumes "owns_live ob"
  shows "owns_live (commission_worker create cfg now tier ob)"
proof -
  let ?wid = "m_next_elastic_id (o_mgr ob)"
  obtain res rt where c: "create (commission_spec cfg tier ?wid) (o_runtime ob) = (res, rt)" by fastforce
  have new: "?wid \<notin> fst ` set (o_commissioned ob)" using assms by (auto simp: owns_live_def)
  have okr: "ok (o_runtime ob)" using assms by (simp add: owns_live_def)
  show ?thesis
  proof (cases res)
    case (Inl e)
    then show ?thesis using assms create_fails [OF okr] c
      by (auto simp: commission_worker_def next_worker_id_def owns_live_def)
  next
    case (Inr cid)
    have u: "AList.update ?wid cid (o_commissioned ob) = o_commissioned ob @ [(?wid, cid)]"
      using new by (rule update_new_key)
    show ?thesis using assms create_ok [OF okr] c Inr new
      by (auto simp: commission_worker_def next_worker_id_def owns_live_def u)
  qed
qed

lemma decommission_owns:
  assumes "owns_live ob"
  shows "owns_live (decommission_worker stop wid ob)"
proof (cases "map_of (o_commissioned ob) wid")
  case None
  then show ?thesis using assms by (simp add: decommission_worker_def)
next
  case (Some cid)
  obtain res rt where c: "stop cid (o_runtime ob) = (res, rt)" by fastforce
  have inv: "ok (o_runtime ob)" "distinct (map fst (o_commissioned ob))" "distinct (map snd (o_commissioned ob))"
    "snd ` set (o_commissioned ob) \<subseteq> live (o_runtime ob)"
    using assms by (simp_all add: owns_live_def)
  have mem: "(wid, cid) \<in> set (o_commissioned ob)" using Some by (rule map_of_SomeD)
  have "snd ` set (AList.delete wid (o_commissioned ob)) \<subseteq> live (o_runtime ob) - {cid}"
  proof
    fix x assume "x \<in> snd ` set (AList.delete wid (o_commissioned ob))"
    then obtain w where w: "(w, x) \<in> set (o_commissioned ob)" "w \<noteq> wid"
      by (auto simp: AList.delete_eq)
    then have "x \<noteq> cid"
      using inv(3) mem by (metis distinct_map inj_onD prod.inject snd_conv)
    then show "x \<in> live (o_runtime ob) - {cid}" using w inv(4) by force
  qed
  moreover have "live (o_runtime ob) - {cid} \<subseteq> live rt" "ok rt"
    using stop_keeps [OF inv(1) _ c] mem inv(4) by force+
  moreover have "distinct (map snd (AList.delete wid (o_commissioned ob)))"
    using inv(3) by (simp add: AList.delete_eq distinct_map_filter)
  ultimately show ?thesis
    using assms Some c distinct_delete [OF inv(2), of wid]
    by (auto simp: decommission_worker_def owns_live_def keys_delete deregister_worker_def Let_def
        simp del: set_map)
qed

lemma evaluate_once_owns: "owns_live ob \<Longrightarrow> owns_live (evaluate_once create stop cfg now ob)"
  using commission_owns [of ob cfg now Databot] decommission_owns [of ob]
  by (auto simp: evaluate_once_def Let_def owns_live_def [of "ob\<lparr>o_pending_resume := _\<rparr>"]
      owns_live_def [of ob] split: action.splits)

lemma evaluate_tiered_once_owns:
  "owns_live ob \<Longrightarrow> owns_live (evaluate_tiered_once create stop cfg now ob)"
  using commission_owns [of ob cfg now] decommission_owns [of ob]
  by (auto simp: evaluate_tiered_once_def Let_def owns_live_def [of "ob\<lparr>o_pending_resume := _\<rparr>"]
      owns_live_def [of ob] split: action.splits)

lemma run_owns: "owns_live ob \<Longrightarrow> owns_live (run_orchestrator create stop cfg nows ob)"
  unfolding run_orchestrator_def
  by (induction nows arbitrary: ob) (simp_all add: evaluate_once_owns)

lemma new_owns: "ok rt \<Longrightarrow> owns_live (new_orchestrator mgr rt)"
  by (simp add: owns_live_def new_orchestrator_def)

end

subsection \<open>The mock runtime\<close>

record mock_runtime =
  mk_created :: "container_spec list"
  mk_stopped :: "string list"
  mk_counter :: nat

definition mock_id :: "nat \<Rightarrow> string" where
  "mock_id n = ''mock-container-'' @ nat_to_string n"

definition mock_create :: "mock_runtime creator" where
  "mock_create spec r =
     (Inr (mock_id (mk_counter r)),
      r\<lparr>mk_created := mk_created r @ [spec], mk_counter := mk_counter r + 1\<rparr>)"

definition mock_stop :: "mock_runtime stopper" where
  "mock_stop cid r = (Inr (), r\<lparr>mk_stopped := mk_stopped r @ [cid]\<rparr>)"

definition mock_live :: "mock_runtime \<Rightarrow> string set" where
  "mock_live r = mock_id ` {..<mk_counter r} - set (mk_stopped r)"

definition mock_ok :: "mock_runtime \<Rightarrow> bool" where
  "mock_ok r \<longleftrightarrow> set (mk_stopped r) \<subseteq> mock_id ` {..<mk_counter r}"

definition new_mock :: mock_runtime where
  "new_mock = \<lparr>mk_created = [], mk_stopped = [], mk_counter = 0\<rparr>"

lemma mock_id_inj: "mock_id m = mock_id n \<longleftrightarrow> m = n"
  by (simp add: mock_id_def)

lemma mock_ids_Suc:
  "mock_id ` {..<Suc n} = insert (mock_id n) (mock_id ` {..<n})" "mock_id n \<notin> mock_id ` {..<n}"
  by (simp add: lessThan_Suc) (auto simp: mock_id_inj)

interpretation mock: container_runtime mock_create mock_stop mock_live mock_ok
proof
  fix r r' :: mock_runtime and spec cid e res
  show "cid \<notin> mock_live r \<and> mock_live r' = insert cid (mock_live r) \<and> mock_ok r'"
    if "mock_ok r" "mock_create spec r = (Inr cid, r')"
  proof -
    have c: "cid = mock_id (mk_counter r)" "mk_counter r' = Suc (mk_counter r)" "mk_stopped r' = mk_stopped r"
      using that(2) by (auto simp: mock_create_def)
    then show ?thesis
      using that(1) mock_ids_Suc(2) [of "mk_counter r"]
      unfolding mock_ok_def mock_live_def c mock_ids_Suc(1) by blast
  qed
  show "mock_ok r \<Longrightarrow> mock_create spec r = (Inl e, r') \<Longrightarrow> mock_live r' = mock_live r \<and> mock_ok r'"
    by (simp add: mock_create_def)
  show "mock_ok r \<Longrightarrow> cid \<in> mock_live r \<Longrightarrow> mock_stop cid r = (res, r') \<Longrightarrow>
      mock_live r - {cid} \<subseteq> mock_live r' \<and> mock_live r' \<subseteq> mock_live r \<and> mock_ok r'"
    by (auto simp: mock_ok_def mock_stop_def mock_live_def)
qed

subsection \<open>What one evaluation may do\<close>

lemma decommissionable_registered:
  "wid \<in> set (decommissionable_workers now t m) \<Longrightarrow> wid \<in> fst ` set (m_workers m)"
  by (auto simp: decommissionable_workers_def split: option.splits)
     (metis fst_conv image_eqI map_of_SomeD)

lemma next_worker_id_workers [simp]: "m_workers (snd (next_worker_id m)) = m_workers m"
  by (simp add: next_worker_id_def)

lemma commission_workers: "m_workers (o_mgr (commission_worker create cfg now tier ob)) = m_workers (o_mgr ob)"
  by (simp add: commission_worker_def next_worker_id_def Let_def split: prod.split sum.split)

lemma decommission_workers:
  "m_workers (o_mgr (decommission_worker stop wid ob)) =
     (if map_of (o_commissioned ob) wid = None then m_workers (o_mgr ob)
      else AList.delete wid (m_workers (o_mgr ob)))"
  by (simp add: decommission_worker_def deregister_worker_def Let_def split: option.split prod.split)

lemma evaluate_decommission:
  "d_action (evaluate now st) = Decommission \<Longrightarrow> e_energy_budget st \<le> 0 \<Longrightarrow>
   d_target (evaluate now st) \<in> set (e_idle st) \<and> e_min_workers st < e_current_workers st \<and>
   e_pressure_count st = 0"
  by (auto simp: evaluate_def split: if_splits)

lemma snapshot_fields:
  "e_energy_budget (elastic_snapshot_of cfg now ob) = 0"
  "e_min_workers (elastic_snapshot_of cfg now ob) = el_min_workers (c_elastic cfg)"
  "e_current_workers (elastic_snapshot_of cfg now ob) = int (worker_count (o_mgr ob))"
  "e_pressure_count (elastic_snapshot_of cfg now ob) = o_pressure ob"
  by (simp_all add: elastic_snapshot_of_def Let_def)

lemma evaluate_snapshot_cases:
  assumes "d = evaluate now (elastic_snapshot_of cfg now ob)" "d_action d = Decommission"
  shows "d_target d \<in> set (e_idle (elastic_snapshot_of cfg now ob))"
    and "el_min_workers (c_elastic cfg) < int (worker_count (o_mgr ob))" "o_pressure ob = 0"
  using evaluate_decommission [of now "elastic_snapshot_of cfg now ob"] assms
  by (simp_all only: snapshot_fields order_refl)

lemma length_delete:
  "distinct (map fst xs) \<Longrightarrow> k \<in> fst ` set xs \<Longrightarrow> length (AList.delete k xs) + 1 = length xs"
  by (induction xs) (auto simp: image_iff)

text \<open>
  C17: Elastic scaling leaves the static workers alone: whatever the decision engine says, a worker
  the orchestrator did not commission stays registered as it was, and an evaluation never takes
  the number of registered workers below the configured minimum, nor changes it by more than one.
\<close>

theorem evaluate_once_spares_static_workers:
  assumes "distinct (map fst (m_workers (o_mgr ob)))"
  shows "(\<forall>wid. map_of (o_commissioned ob) wid = None \<longrightarrow>
       map_of (m_workers (o_mgr (evaluate_once create stop cfg now ob))) wid = map_of (m_workers (o_mgr ob)) wid) \<and>
     min (int (worker_count (o_mgr ob))) (el_min_workers (c_elastic cfg))
       \<le> int (worker_count (o_mgr (evaluate_once create stop cfg now ob))) \<and>
     worker_count (o_mgr (evaluate_once create stop cfg now ob)) \<in> {worker_count (o_mgr ob) - 1, worker_count (o_mgr ob)}"
proof -
  define d where "d = evaluate now (elastic_snapshot_of cfg now ob)"
  have e: "evaluate_once create stop cfg now ob =
      (case d_action d of Commission \<Rightarrow> commission_worker create cfg now Databot ob
       | Decommission \<Rightarrow> decommission_worker stop (d_target d) ob
       | Resume \<Rightarrow> ob\<lparr>o_pending_resume := d_target d\<rparr> | ActNone \<Rightarrow> ob)"
    by (simp only: evaluate_once_def Let_def d_def)
  show ?thesis
  proof (cases "d_action d")
    case Decommission
    note c = evaluate_snapshot_cases [OF d_def Decommission]
    have "d_target d \<in> fst ` set (m_workers (o_mgr ob))" "map_of (o_commissioned ob) (d_target d) \<noteq> None"
      using c(1) decommissionable_registered by (auto simp: elastic_snapshot_of_def Let_def)
    moreover from this have
      "length (AList.delete (d_target d) (m_workers (o_mgr ob))) + 1 = length (m_workers (o_mgr ob))"
      using length_delete [OF assms] by blast
    ultimately show ?thesis
      using c(2) by (auto simp: e Decommission decommission_workers worker_count_def)
  qed (simp_all add: e commission_workers worker_count_def)
qed

definition sample_orchestrator :: "mock_runtime orchestrator" where
  "sample_orchestrator =
     (new_orchestrator (register_worker (default_worker 1) new_manager) new_mock)\<lparr>o_pressure := 9\<rparr>"

theorem evaluate_once_spares_static_workers_witness:
  "map_of (m_workers (o_mgr (evaluate_once mock_create mock_stop default_cfg 9000000000 sample_orchestrator))) 1
   = Some (default_worker 1)"
proof -
  let ?o = sample_orchestrator
  have w: "m_workers (o_mgr ?o) = [(1, default_worker 1)]" "o_commissioned ?o = []"
    by (simp_all add: sample_orchestrator_def new_orchestrator_def register_worker_def new_manager_def
        default_worker_def default_profile_def)
  show ?thesis
    using evaluate_once_spares_static_workers [of ?o mock_create mock_stop default_cfg 9000000000] w by simp
qed

text \<open>
  The orchestrator never loses a container: with the mock runtime, after any number of
  evaluations from a fresh start, every worker it believes commissioned has a container of its
  own that is still alive.
\<close>

lemma commissioned_containers_live:
  "let ob = run_orchestrator mock_create mock_stop cfg nows (new_orchestrator mgr new_mock)
   in distinct (map fst (o_commissioned ob)) \<and> distinct (map snd (o_commissioned ob)) \<and>
      snd ` set (o_commissioned ob) \<subseteq> mock_live (o_runtime ob)"
proof -
  have "mock.owns_live (new_orchestrator mgr new_mock)"
    by (rule mock.new_owns) (simp add: mock_ok_def new_mock_def)
  from mock.run_owns [OF this, of cfg nows] show ?thesis
    by (simp add: mock.owns_live_def Let_def)
qed

text \<open>
  The elastic thread sends at most one resume command in its whole life: \<^verbatim>\<open>run\<close> loops until
  the stop request, so a pending resume waits for shutdown, however many evaluations decided to
  resume a suspended worker.
\<close>

lemma resume_only_at_shutdown:
  "length (fst (elastic_thread create stop cfg nows ob)) \<le> 1"
  by (simp add: elastic_thread_def split: prod.split)

end
