(* ===== verification/Redis.thy ===== *)
theory Redis
  imports Config "HOL-Library.AList"
begin

text \<open>
  \<^verbatim>\<open>RedisConnection\<close> of \<^verbatim>\<open>src/labios/transport/redis.cpp\<close>. The Redis server and the
  hiredis client are external: \<open>'s server\<close> is a function that takes a command as its list of
  arguments and the server's state, and answers with a reply (\<open>Inl errstr\<close> when hiredis returns
  no reply, which the code turns into an exception). The documented behaviour of the commands the
  code uses is the locale \<open>redis_server\<close>, over an abstraction of the server's state as a map
  from keys to typed values; a reference server shows it can be met. Every public method holds
  the connection mutex, so a method is one function on the state.

  Keys do not expire within a modelled run (\<^verbatim>\<open>EXPIRE\<close> keeps the abstraction), and a sorted
  set's scores are \<open>rat\<close> for \<^verbatim>\<open>double\<close>.
\<close>

subsection \<open>The connection\<close>

datatype redis_reply =
    RNil | RStatus string | RError string | RStr string | RInt int | RArr "redis_reply list"

type_synonym 's server = "string list \<Rightarrow> 's \<Rightarrow> (string + redis_reply) \<times> 's"
type_synonym ('s, 'a) redis_op = "'s \<Rightarrow> 'a result \<times> 's"

definition ret :: "'a \<Rightarrow> ('s, 'a) redis_op" where
  "ret x s = (Inr x, s)"

definition throw :: "string \<Rightarrow> ('s, 'a) redis_op" where
  "throw e s = (Inl e, s)"

definition op_bind :: "('s, 'a) redis_op \<Rightarrow> ('a \<Rightarrow> ('s, 'b) redis_op) \<Rightarrow> ('s, 'b) redis_op" where
  "op_bind m f s = (case m s of (Inl e, s') \<Rightarrow> (Inl e, s') | (Inr x, s') \<Rightarrow> f x s')"

fun op_each :: "('a \<Rightarrow> ('s, unit) redis_op) \<Rightarrow> 'a list \<Rightarrow> ('s, unit) redis_op" where
  "op_each f [] = ret ()"
| "op_each f (x # xs) = op_bind (f x) (\<lambda>_. op_each f xs)"

definition redis_call :: "string \<Rightarrow> 's server \<Rightarrow> string list \<Rightarrow> (redis_reply \<Rightarrow> 'a) \<Rightarrow> ('s, 'a) redis_op" where
  "redis_call name exec cmd f s =
     (case exec cmd s of
        (Inl e, s') \<Rightarrow> (Inl (''redis '' @ name @ '' failed: '' @ e), s')
      | (Inr r, s') \<Rightarrow> (Inr (f r), s'))"

definition reply_string :: "redis_reply \<Rightarrow> string option" where
  "reply_string r = (case r of RStr v \<Rightarrow> Some v | _ \<Rightarrow> None)"

text \<open>\<^verbatim>\<open>reply->str\<close>, \<^verbatim>\<open>reply->len\<close> and \<^verbatim>\<open>reply->integer\<close> of an arbitrary reply (hiredis
  leaves a field it does not use zero).\<close>

definition reply_text :: "redis_reply \<Rightarrow> string" where
  "reply_text r = (case r of RStr v \<Rightarrow> v | RStatus v \<Rightarrow> v | RError v \<Rightarrow> v | _ \<Rightarrow> [])"

definition reply_integer :: "redis_reply \<Rightarrow> int" where
  "reply_integer r = (case r of RInt i \<Rightarrow> i | _ \<Rightarrow> 0)"

definition redis_set :: "'s server \<Rightarrow> string \<Rightarrow> string \<Rightarrow> ('s, unit) redis_op" where
  "redis_set exec key v = redis_call ''SET'' exec [''SET'', key, v] (\<lambda>_. ())"

definition redis_get :: "'s server \<Rightarrow> string \<Rightarrow> ('s, string option) redis_op" where
  "redis_get exec key = redis_call ''GET'' exec [''GET'', key] reply_string"

definition redis_set_binary :: "'s server \<Rightarrow> string \<Rightarrow> bytes \<Rightarrow> ('s, unit) redis_op" where
  "redis_set_binary exec key data =
     redis_call ''SET (binary)'' exec [''SET'', key, string_of_bytes data] (\<lambda>_. ())"

definition redis_get_binary :: "'s server \<Rightarrow> string \<Rightarrow> ('s, bytes) redis_op" where
  "redis_get_binary exec key = redis_call ''GET (binary)'' exec [''GET'', key]
     (\<lambda>r. case reply_string r of Some v \<Rightarrow> bytes_of_string v | None \<Rightarrow> [])"

definition redis_del :: "'s server \<Rightarrow> string \<Rightarrow> ('s, unit) redis_op" where
  "redis_del exec key = redis_call ''DEL'' exec [''DEL'', key] (\<lambda>_. ())"

definition redis_hset :: "'s server \<Rightarrow> string \<Rightarrow> string \<Rightarrow> string \<Rightarrow> ('s, unit) redis_op" where
  "redis_hset exec key field v = redis_call ''HSET'' exec [''HSET'', key, field, v] (\<lambda>_. ())"

definition redis_hget :: "'s server \<Rightarrow> string \<Rightarrow> string \<Rightarrow> ('s, string option) redis_op" where
  "redis_hget exec key field = redis_call ''HGET'' exec [''HGET'', key, field] reply_string"

definition redis_sadd :: "'s server \<Rightarrow> string \<Rightarrow> string \<Rightarrow> ('s, unit) redis_op" where
  "redis_sadd exec key m = redis_call ''SADD'' exec [''SADD'', key, m] (\<lambda>_. ())"

definition redis_srem :: "'s server \<Rightarrow> string \<Rightarrow> string \<Rightarrow> ('s, unit) redis_op" where
  "redis_srem exec key m = redis_call ''SREM'' exec [''SREM'', key, m] (\<lambda>_. ())"

definition redis_smembers :: "'s server \<Rightarrow> string \<Rightarrow> ('s, string list) redis_op" where
  "redis_smembers exec key = redis_call ''SMEMBERS'' exec [''SMEMBERS'', key]
     (\<lambda>r. case r of RArr rs \<Rightarrow> map reply_text rs | _ \<Rightarrow> [])"

definition redis_hincrby :: "'s server \<Rightarrow> string \<Rightarrow> string \<Rightarrow> int \<Rightarrow> ('s, int) redis_op" where
  "redis_hincrby exec key field n =
     redis_call ''HINCRBY'' exec [''HINCRBY'', key, field, int_to_string n] reply_integer"

definition redis_expire :: "'s server \<Rightarrow> string \<Rightarrow> u32 \<Rightarrow> ('s, unit) redis_op" where
  "redis_expire exec key seconds =
     redis_call ''EXPIRE'' exec [''EXPIRE'', key, nat_to_string (unat seconds)] (\<lambda>_. ())"

text \<open>
  The \<^verbatim>\<open>SCAN\<close> loop: until the cursor the server returns is 0, or a reply is not a pair. Whether
  it ends is up to the server, so it has fuel; \<open>None\<close> is running out of it.
\<close>

definition scan_page :: "redis_reply \<Rightarrow> (string \<times> string list) option" where
  "scan_page r =
     (case r of RArr [c, RArr ks] \<Rightarrow> Some (reply_text c, map reply_text ks)
      | RArr [c, _] \<Rightarrow> Some (reply_text c, []) | _ \<Rightarrow> None)"

fun scan_loop ::
    "nat \<Rightarrow> 's server \<Rightarrow> string \<Rightarrow> u64 \<Rightarrow> string list \<Rightarrow> 's \<Rightarrow> (string list result \<times> 's) option" where
  "scan_loop 0 exec pattern cursor keys s = None"
| "scan_loop (Suc n) exec pattern cursor keys s =
     (case exec [''SCAN'', u64_to_string cursor, ''MATCH'', pattern, ''COUNT'', ''100''] s of
        (Inl e, s') \<Rightarrow> Some (Inl (''redis SCAN failed: '' @ e), s')
      | (Inr r, s') \<Rightarrow>
          (case scan_page r of
             None \<Rightarrow> Some (Inr keys, s')
           | Some (t, ks) \<Rightarrow>
               (case stoull t of
                  Inl e \<Rightarrow> Some (Inl e, s')
                | Inr c \<Rightarrow>
                    if c = 0 then Some (Inr (keys @ ks), s')
                    else scan_loop n exec pattern c (keys @ ks) s')))"

text \<open>\<^verbatim>\<open>std::to_string(double)\<close> of a non-negative number: six decimals.\<close>

definition fixed6 :: "rat \<Rightarrow> string" where
  "fixed6 r =
     (let n = nat \<lfloor>r * 1000000 + 1/2\<rfloor>; frac = nat_to_string (n mod 1000000)
      in nat_to_string (n div 1000000) @ ''.'' @ replicate (6 - length frac) (CHR ''0'') @ frac)"

definition redis_zadd :: "'s server \<Rightarrow> string \<Rightarrow> rat \<Rightarrow> string \<Rightarrow> ('s, unit) redis_op" where
  "redis_zadd exec key score m = redis_call ''ZADD'' exec [''ZADD'', key, fixed6 score, m] (\<lambda>_. ())"

text \<open>The members of a \<^verbatim>\<open>WITHSCORES\<close> answer (no caller uses the scores).\<close>

fun every_other :: "redis_reply list \<Rightarrow> string list" where
  "every_other (m # sc # rs) = reply_text m # every_other rs"
| "every_other rs = []"

definition redis_zrangebyscore :: "'s server \<Rightarrow> string \<Rightarrow> rat \<Rightarrow> rat \<Rightarrow> ('s, string list) redis_op" where
  "redis_zrangebyscore exec key lo hi =
     redis_call ''ZRANGEBYSCORE'' exec [''ZRANGEBYSCORE'', key, fixed6 lo, fixed6 hi, ''WITHSCORES'']
       (\<lambda>r. case r of RArr rs \<Rightarrow> every_other rs | _ \<Rightarrow> [])"

text \<open>
  A pipeline: the commands are queued and sent together; \<^verbatim>\<open>pipeline_exec\<close> reads one reply per
  command and throws at the first missing one, after reading the rest.
\<close>

definition pipeline_exec :: "'s server \<Rightarrow> string list list \<Rightarrow> ('s, unit) redis_op" where
  "pipeline_exec exec cmds s =
     (let (replies, s') = fold (\<lambda>cmd (rs, s). let (r, s') = exec cmd s in (rs @ [r], s')) cmds ([], s)
      in (case find (\<lambda>(i, r). \<exists>e. r = Inl e) (enumerate 0 replies) of
            None \<Rightarrow> Inr ()
          | Some (i, r) \<Rightarrow> Inl (''redis pipeline exec failed at command '' @ nat_to_string i), s'))"

definition pipeline_hset :: "string \<Rightarrow> string \<Rightarrow> string \<Rightarrow> string list" where
  "pipeline_hset key field v = [''HSET'', key, field, v]"

definition pipeline_set :: "string \<Rightarrow> string \<Rightarrow> string list" where
  "pipeline_set key v = [''SET'', key, v]"

definition pipeline_set_binary :: "string \<Rightarrow> bytes \<Rightarrow> string list" where
  "pipeline_set_binary key data = [''SET'', key, string_of_bytes data]"

definition pipeline_del :: "string \<Rightarrow> string list" where
  "pipeline_del key = [''DEL'', key]"

subsection \<open>What the commands do, on the abstraction\<close>

datatype redis_value =
    VStr string | VHash "string \<Rightarrow> string option" | VSet "string set" | VZset "string \<Rightarrow> rat option"

type_synonym redis_db = "string \<Rightarrow> redis_value option"

definition db_get :: "redis_db \<Rightarrow> string \<Rightarrow> string option" where
  "db_get d k = (case d k of Some (VStr v) \<Rightarrow> Some v | _ \<Rightarrow> None)"

definition db_hash :: "redis_db \<Rightarrow> string \<Rightarrow> string \<Rightarrow> string option" where
  "db_hash d k f = (case d k of Some (VHash h) \<Rightarrow> h f | _ \<Rightarrow> None)"

definition db_set_members :: "redis_db \<Rightarrow> string \<Rightarrow> string set" where
  "db_set_members d k = (case d k of Some (VSet S) \<Rightarrow> S | _ \<Rightarrow> {})"

definition db_scores :: "redis_db \<Rightarrow> string \<Rightarrow> string \<Rightarrow> rat option" where
  "db_scores d k m = (case d k of Some (VZset z) \<Rightarrow> z m | _ \<Rightarrow> None)"

text \<open>A command on a key of another type answers \<^verbatim>\<open>WRONGTYPE\<close> and changes nothing.\<close>

definition db_hset :: "string \<Rightarrow> string \<Rightarrow> string \<Rightarrow> redis_db \<Rightarrow> redis_db" where
  "db_hset k f v d =
     (case d k of
        None \<Rightarrow> d(k \<mapsto> VHash [f \<mapsto> v])
      | Some (VHash h) \<Rightarrow> d(k \<mapsto> VHash (h(f \<mapsto> v)))
      | _ \<Rightarrow> d)"

definition db_sadd :: "string \<Rightarrow> string \<Rightarrow> redis_db \<Rightarrow> redis_db" where
  "db_sadd k m d =
     (case d k of None \<Rightarrow> d(k \<mapsto> VSet {m}) | Some (VSet S) \<Rightarrow> d(k \<mapsto> VSet (insert m S)) | _ \<Rightarrow> d)"

definition db_srem :: "string \<Rightarrow> string \<Rightarrow> redis_db \<Rightarrow> redis_db" where
  "db_srem k m d =
     (case d k of
        Some (VSet S) \<Rightarrow> if S - {m} = {} then d(k := None) else d(k \<mapsto> VSet (S - {m}))
      | _ \<Rightarrow> d)"

definition db_zadd :: "string \<Rightarrow> rat \<Rightarrow> string \<Rightarrow> redis_db \<Rightarrow> redis_db" where
  "db_zadd k score m d =
     (case d k of
        None \<Rightarrow> d(k \<mapsto> VZset [m \<mapsto> score])
      | Some (VZset z) \<Rightarrow> d(k \<mapsto> VZset (z(m \<mapsto> score)))
      | _ \<Rightarrow> d)"

text \<open>The number a text is the decimal form of.\<close>

definition decimal :: "string \<Rightarrow> int option" where
  "decimal t =
     (let neg = (t \<noteq> [] \<and> hd t = CHR ''-''); ds = (if neg then tl t else t)
      in if ds \<noteq> [] \<and> list_all is_digit ds
         then Some (if neg then - int (digits_val ds) else int (digits_val ds)) else None)"

text \<open>\<^verbatim>\<open>HINCRBY\<close>: an absent field counts as 0, a field that is no number is an error.\<close>

definition db_counter :: "redis_db \<Rightarrow> string \<Rightarrow> string \<Rightarrow> int option" where
  "db_counter d k f =
     (case d k of
        None \<Rightarrow> Some 0
      | Some (VHash h) \<Rightarrow> (case h f of None \<Rightarrow> Some 0 | Some t \<Rightarrow> decimal t)
      | _ \<Rightarrow> None)"

definition db_hincrby :: "string \<Rightarrow> string \<Rightarrow> int \<Rightarrow> redis_db \<Rightarrow> redis_db" where
  "db_hincrby k f n d =
     (case db_counter d k f of None \<Rightarrow> d | Some i \<Rightarrow> db_hset k f (int_to_string (i + n)) d)"

text \<open>Glob matching with \<open>*\<close> and \<open>?\<close> (character classes and escapes are not modelled).\<close>

fun glob :: "string \<Rightarrow> string \<Rightarrow> bool" where
  "glob [] s = (s = [])"
| "glob (p # ps) [] = (p = CHR ''*'' \<and> glob ps [])"
| "glob (p # ps) (c # cs) =
     (if p = CHR ''*'' then glob ps (c # cs) \<or> glob (p # ps) cs
      else (p = CHR ''?'' \<or> p = c) \<and> glob ps cs)"

lemma decimal_print [text_simps]: "decimal (int_to_string i) = Some i"
proof (cases "i < 0")
  case True
  then show ?thesis
    by (simp add: decimal_def int_to_string_def nat_to_string_digits digits_val_nat_to_string Let_def)
next
  case False
  have "hd (nat_to_string (nat i)) \<noteq> CHR ''-''"
    using nat_to_string_hd [of "nat i"] by (auto simp: is_digit_def)
  with False show ?thesis
    by (simp add: decimal_def int_to_string_def nat_to_string_digits digits_val_nat_to_string Let_def)
qed

lemma db_simps [simp]:
  "db_get (d(k \<mapsto> VStr v)) k' = (if k' = k then Some v else db_get d k')"
  "db_hash (d(k \<mapsto> VHash h)) k' f = (if k' = k then h f else db_hash d k' f)"
  "db_get (d(k := None)) k' = (if k' = k then None else db_get d k')"
  "db_hash (d(k := None)) k' f = (if k' = k then None else db_hash d k' f)"
  "db_scores (d(k := None)) k' m = (if k' = k then None else db_scores d k' m)"
  "db_scores (d(k \<mapsto> VStr v)) k' m = (if k' = k then None else db_scores d k' m)"
  "db_hash (d(k \<mapsto> VStr v)) k' f = (if k' = k then None else db_hash d k' f)"
  by (simp_all add: db_get_def db_hash_def db_scores_def)

text \<open>A key that holds a hash, or nothing.\<close>

definition hash_key :: "redis_db \<Rightarrow> string \<Rightarrow> bool" where
  "hash_key d k \<longleftrightarrow> d k = None \<or> (\<exists>h. d k = Some (VHash h))"

definition zset_key :: "redis_db \<Rightarrow> string \<Rightarrow> bool" where
  "zset_key d k \<longleftrightarrow> d k = None \<or> (\<exists>z. d k = Some (VZset z))"

definition set_key :: "redis_db \<Rightarrow> string \<Rightarrow> bool" where
  "set_key d k \<longleftrightarrow> d k = None \<or> (\<exists>S. d k = Some (VSet S))"

lemma db_hset_simps [simp]:
  "hash_key d k \<Longrightarrow> db_hash (db_hset k f v d) k f' = (if f' = f then Some v else db_hash d k f')"
  "k' \<noteq> k \<Longrightarrow> db_hset k f v d k' = d k'"
  "hash_key d k' \<Longrightarrow> hash_key (db_hset k f v d) k'"
  by (auto simp: hash_key_def db_hash_def db_hset_def split: option.splits redis_value.splits)

lemma hash_key_del [simp]: "hash_key d k \<Longrightarrow> hash_key (d(k' := None)) k"
  by (simp add: hash_key_def)

lemma db_zadd_simps [simp]:
  "zset_key d k \<Longrightarrow> db_scores (db_zadd k r m d) k m' = (if m' = m then Some r else db_scores d k m')"
  "k' \<noteq> k \<Longrightarrow> db_zadd k r m d k' = d k'"
  by (auto simp: zset_key_def db_scores_def db_zadd_def split: option.splits redis_value.splits)

lemma db_other [simp]:
  "k' \<noteq> k \<Longrightarrow> db_sadd k m d k' = d k'" "k' \<noteq> k \<Longrightarrow> db_srem k m d k' = d k'"
  "k' \<noteq> k \<Longrightarrow> db_hincrby k f n d k' = d k'"
  by (auto simp: db_sadd_def db_srem_def db_hincrby_def split: option.splits redis_value.splits)

subsection \<open>Operations against the abstraction\<close>

text \<open>
  \<open>yields db m d r d'\<close>: in every server state that stands for \<open>d\<close>, the operation gives \<open>r\<close> and
  leaves a state that stands for \<open>d'\<close>.
\<close>

definition yields :: "('s \<Rightarrow> 'd) \<Rightarrow> ('s, 'a) redis_op \<Rightarrow> 'd \<Rightarrow> 'a result \<Rightarrow> 'd \<Rightarrow> bool" where
  "yields db m d r d' \<longleftrightarrow> (\<forall>s. db s = d \<longrightarrow> fst (m s) = r \<and> db (snd (m s)) = d')"

named_theorems yields_rules \<open>what each operation yields\<close>

lemma yields_ret [yields_rules]: "yields db (ret x) d (Inr x) d"
  by (simp add: yields_def ret_def)

lemma yields_retI: "r = Inr x \<Longrightarrow> yields db (ret x) d r d"
  by (simp add: yields_ret)

lemma yields_throw [yields_rules]: "yields db (throw e) d (Inl e) d"
  by (simp add: yields_def throw_def)

lemma yields_bind:
  "yields db m d (Inr x) d' \<Longrightarrow> yields db (f x) d' r d'' \<Longrightarrow> yields db (op_bind m f) d r d''"
  by (auto simp: yields_def op_bind_def split: prod.splits sum.splits)

lemma yields_bind_Inl: "yields db m d (Inl e) d' \<Longrightarrow> yields db (op_bind m f) d (Inl e) d'"
  by (auto simp: yields_def op_bind_def split: prod.splits sum.splits)

lemma yields_run: "yields v m d r d' \<Longrightarrow> v s = d \<Longrightarrow> \<exists>s'. m s = (r, s') \<and> v s' = d'"
  by (metis yields_def prod.collapse)

lemma yields_each:
  "(\<And>x d. x \<in> set xs \<Longrightarrow> yields db (f x) d (Inr ()) (g x d)) \<Longrightarrow>
   yields db (op_each f xs) d (Inr ()) (fold g xs d)"
  by (induction xs arbitrary: d) (auto intro!: yields_ret yields_bind)

text \<open>The text of a whole-number score reads back as that number.\<close>

lemma strtod_fixed6: "n < 2 ^ 64 \<Longrightarrow> strtod (fixed6 (of_nat n)) = Some (of_nat n, False, [])"
proof -
  assume n: "n < 2 ^ 64"
  let ?z = "''000000''"
  have "\<lfloor>(of_nat n :: rat) * 1000000 + 1 / 2\<rfloor> = int (n * 1000000)"
    by (rule floor_unique) simp_all
  then have fl: "nat \<lfloor>(of_nat n :: rat) * 1000000 + 1 / 2\<rfloor> = n * 1000000"
    by (simp only: nat_int)
  have "nat_to_string 0 = ''0''" by code_simp
  then have f: "fixed6 (of_nat n) = nat_to_string n @ ''.'' @ ?z"
  proof -
    have "n * 1000000 mod 1000000 = 0" "n * 1000000 div 1000000 = n" by simp_all
    moreover have "replicate (6 - length ''0'') (CHR ''0'') @ ''0'' = ?z"
      by (simp add: eval_nat_numeral)
    ultimately show ?thesis
      unfolding fixed6_def Let_def fl using \<open>nat_to_string 0 = ''0''\<close> by (simp only:)
  qed
  have h: "hd (nat_to_string n) \<noteq> CHR ''-''" "hd (nat_to_string n) \<noteq> CHR ''+''"
    "\<not> is_space (hd (nat_to_string n))"
    using nat_to_string_hd [of n] by (auto simp: is_digit_def is_space_def)
  obtain c r where cr: "nat_to_string n = c # r" by (cases "nat_to_string n") auto
  have dw: "dropWhile is_space (nat_to_string n @ u) = nat_to_string n @ u"
    and sg: "split_sign (nat_to_string n @ u) = (False, nat_to_string n @ u)" for u
    using h by (simp_all add: cr split_sign_def)
  have nd: "\<not> is_digit (CHR ''.'')" by (simp add: is_digit_def)
  have tw: "takeWhile is_digit (nat_to_string n @ ''.'' @ ?z) = nat_to_string n"
    "dropWhile is_digit (nat_to_string n @ ''.'' @ ?z) = CHR ''.'' # ?z"
    using takeWhile_digits [of "''.'' @ ?z" n] nd by simp_all
  have zd: "is_digit (CHR ''0'')" by (simp add: is_digit_def)
  then have tz: "takeWhile is_digit ?z = ?z" "dropWhile is_digit ?z = []" by simp_all
  have "digits_val (s @ ?z) = digits_val s * 1000000" for s
    by (simp add: digits_val_def digit_val_def)
  then have dv: "digits_val (nat_to_string n @ ?z) = n * 1000000"
    by (simp add: digits_val_nat_to_string)
  have p: "rat_pow10 (- 6) = 1 / 1000000" by (simp add: rat_pow10_def)
  have "(2::nat) ^ 64 < 2 ^ 1024" by (rule power_strict_increasing) simp_all
  then have "n < 2 ^ 1024" using n by linarith
  then have big: "(of_nat n :: rat) < 2 ^ 1024"
    by (metis of_nat_less_iff of_nat_numeral of_nat_power)
  show ?thesis
    unfolding f strtod_def Let_def dw sg case_prod_conv tw list.case if_True tz split_exponent_def
    using big by (simp add: dv p del: power_numeral)
qed

lemma pipeline_fold:
  assumes "\<And>cmd s. cmd \<in> set cmds \<Longrightarrow>
      (\<exists>r. fst (exec cmd s) = Inr r) \<and> db (snd (exec cmd s)) = eff cmd (db s)"
    and "\<forall>r \<in> set rs. \<exists>x. r = Inr x"
  shows "(\<forall>r \<in> set (fst (fold (\<lambda>cmd (rs, s). let (r, s') = exec cmd s in (rs @ [r], s')) cmds (rs, s))).
       \<exists>x. r = Inr x) \<and>
     db (snd (fold (\<lambda>cmd (rs, s). let (r, s') = exec cmd s in (rs @ [r], s')) cmds (rs, s))) =
       fold eff cmds (db s)"
  using assms
proof (induction cmds arbitrary: rs s)
  case Nil
  then show ?case by simp
next
  case (Cons cmd cmds)
  obtain r s' where e: "exec cmd s = (r, s')" by fastforce
  then have x: "\<exists>x. r = Inr x" and s': "db s' = eff cmd (db s)"
    using Cons.prems(1) [of cmd s] by auto
  have rs: "\<forall>r' \<in> set (rs @ [r]). \<exists>x. r' = Inr x" using Cons.prems(2) x by auto
  let ?f = "\<lambda>cmd (rs, s). let (r, s') = exec cmd s in (rs @ [r], s')"
  have u: "fold ?f (cmd # cmds) (rs, s) = fold ?f cmds (rs @ [r], s')"
    by (simp only: fold_simps comp_apply case_prod_conv e Let_def)
  have "fold eff (cmd # cmds) (db s) = fold eff cmds (db s')" by (simp add: s')
  moreover have "(\<forall>r \<in> set (fst (fold ?f cmds (rs @ [r], s'))). \<exists>x. r = Inr x) \<and>
      db (snd (fold ?f cmds (rs @ [r], s'))) = fold eff cmds (db s')"
    by (rule Cons.IH [OF _ rs]) (rule Cons.prems(1), simp)
  ultimately show ?case unfolding u by metis
qed

lemma yields_pipeline:
  assumes "\<And>cmd s. cmd \<in> set cmds \<Longrightarrow>
      (\<exists>r. fst (exec cmd s) = Inr r) \<and> db (snd (exec cmd s)) = eff cmd (db s)"
  shows "yields db (pipeline_exec exec cmds) d (Inr ()) (fold eff cmds d)"
  unfolding yields_def
proof (intro allI impI)
  fix s assume d: "db s = d"
  let ?f = "fold (\<lambda>cmd (rs, s). let (r, s') = exec cmd s in (rs @ [r], s')) cmds ([], s)"
  have f: "\<forall>r \<in> set (fst ?f). \<exists>x. r = Inr x" "db (snd ?f) = fold eff cmds d"
    using pipeline_fold [of cmds exec db eff "[]" s] assms d by auto
  have "r \<in> set (fst ?f)" if "(i, r) \<in> set (enumerate 0 (fst ?f))" for i r
    using that by (metis enumerate_eq_zip set_zip_rightD)
  then have "find (\<lambda>(i, r). \<exists>e. r = Inl e) (enumerate 0 (fst ?f)) = None"
    using f(1) unfolding find_None_iff by fastforce
  then show "fst (pipeline_exec exec cmds s) = Inr () \<and> db (snd (pipeline_exec exec cmds s)) = fold eff cmds d"
    using f(2) by (simp add: pipeline_exec_def Let_def case_prod_beta)
qed

text \<open>The documented behaviour of the commands, for a server that answers.\<close>

locale redis_server =
  fixes exec :: "'s server" and db :: "'s \<Rightarrow> redis_db"
  assumes set_law: "\<exists>r. fst (exec [''SET'', k, v] s) = Inr r"
      "db (snd (exec [''SET'', k, v] s)) = (db s)(k \<mapsto> VStr v)"
    and get_law: "\<exists>r. fst (exec [''GET'', k] s) = Inr r \<and> reply_string r = db_get (db s) k"
      "db (snd (exec [''GET'', k] s)) = db s"
    and del_law: "\<exists>r. fst (exec [''DEL'', k] s) = Inr r"
      "db (snd (exec [''DEL'', k] s)) = (db s)(k := None)"
    and hset_law: "\<exists>r. fst (exec [''HSET'', k, f, v] s) = Inr r"
      "db (snd (exec [''HSET'', k, f, v] s)) = db_hset k f v (db s)"
    and hget_law: "\<exists>r. fst (exec [''HGET'', k, f] s) = Inr r \<and> reply_string r = db_hash (db s) k f"
      "db (snd (exec [''HGET'', k, f] s)) = db s"
    and sadd_law: "\<exists>r. fst (exec [''SADD'', k, m] s) = Inr r"
      "db (snd (exec [''SADD'', k, m] s)) = db_sadd k m (db s)"
    and srem_law: "\<exists>r. fst (exec [''SREM'', k, m] s) = Inr r"
      "db (snd (exec [''SREM'', k, m] s)) = db_srem k m (db s)"
    and hincrby_law: "\<exists>r. fst (exec [''HINCRBY'', k, f, int_to_string n] s) = Inr r \<and>
        reply_integer r = (case db_counter (db s) k f of Some i \<Rightarrow> i + n | None \<Rightarrow> 0)"
      "db (snd (exec [''HINCRBY'', k, f, int_to_string n] s)) = db_hincrby k f n (db s)"
    and expire_law: "\<exists>r. fst (exec [''EXPIRE'', k, t] s) = Inr r"
      "db (snd (exec [''EXPIRE'', k, t] s)) = db s"
    and smembers_law: "\<exists>r. fst (exec [''SMEMBERS'', k] s) = Inr r \<and>
        (case r of RArr rs \<Rightarrow> set (map reply_text rs) | _ \<Rightarrow> {}) = db_set_members (db s) k"
      "db (snd (exec [''SMEMBERS'', k] s)) = db s"
    and zadd_law: "strtod t = Some (score, False, []) \<Longrightarrow> \<exists>r. fst (exec [''ZADD'', k, t, m] s) = Inr r"
      "strtod t = Some (score, False, []) \<Longrightarrow>
         db (snd (exec [''ZADD'', k, t, m] s)) = db_zadd k score m (db s)"
    and zrange_law: "strtod t = Some (lo, False, []) \<Longrightarrow> strtod u = Some (hi, False, []) \<Longrightarrow>
        \<exists>r. fst (exec [''ZRANGEBYSCORE'', k, t, u, ''WITHSCORES''] s) = Inr r \<and>
          (let ms = (case r of RArr rs \<Rightarrow> every_other rs | _ \<Rightarrow> []) in
           set ms = {m. \<exists>sc. db_scores (db s) k m = Some sc \<and> lo \<le> sc \<and> sc \<le> hi} \<and>
           sorted_wrt (\<lambda>a b. the (db_scores (db s) k a) \<le> the (db_scores (db s) k b)) ms)"
      "db (snd (exec [''ZRANGEBYSCORE'', k, t, u, ''WITHSCORES''] s)) = db s"
    and scan_law: "CHR ''['' \<notin> set p \<Longrightarrow> CHR 0x5C \<notin> set p \<Longrightarrow> \<exists>n keys s'. scan_loop n exec p 0 [] s = Some (Inr keys, s') \<and> db s' = db s \<and>
        set keys = {k. db s k \<noteq> None \<and> glob p k}"
begin

lemma yields_call:
  assumes "\<And>s. db s = d \<Longrightarrow> \<exists>r. fst (exec cmd s) = Inr r \<and> f r = x"
    and "\<And>s. db s = d \<Longrightarrow> db (snd (exec cmd s)) = d'"
  shows "yields db (redis_call name exec cmd f) d (Inr x) d'"
  unfolding yields_def redis_call_def
  using assms by (fastforce split: prod.split sum.split)

lemma yields_set [yields_rules]: "yields db (redis_set exec k v) d (Inr ()) (d(k \<mapsto> VStr v))"
  unfolding redis_set_def using set_law by (intro yields_call) auto

lemma yields_get [yields_rules]: "yields db (redis_get exec k) d (Inr (db_get d k)) d"
  unfolding redis_get_def using get_law by (intro yields_call) auto

lemma yields_set_binary [yields_rules]:
  "yields db (redis_set_binary exec k b) d (Inr ()) (d(k \<mapsto> VStr (string_of_bytes b)))"
  unfolding redis_set_binary_def using set_law by (intro yields_call) auto

lemma yields_get_binary [yields_rules]:
  "yields db (redis_get_binary exec k) d
     (Inr (case db_get d k of Some v \<Rightarrow> bytes_of_string v | None \<Rightarrow> [])) d"
  unfolding redis_get_binary_def using get_law by (intro yields_call) metis+

lemma yields_del [yields_rules]: "yields db (redis_del exec k) d (Inr ()) (d(k := None))"
  unfolding redis_del_def using del_law by (intro yields_call) auto

lemma yields_hset [yields_rules]: "yields db (redis_hset exec k f v) d (Inr ()) (db_hset k f v d)"
  unfolding redis_hset_def using hset_law by (intro yields_call) auto

lemma yields_hget [yields_rules]: "yields db (redis_hget exec k f) d (Inr (db_hash d k f)) d"
  unfolding redis_hget_def using hget_law by (intro yields_call) auto

lemma yields_sadd [yields_rules]: "yields db (redis_sadd exec k m) d (Inr ()) (db_sadd k m d)"
  unfolding redis_sadd_def using sadd_law by (intro yields_call) auto

lemma yields_srem [yields_rules]: "yields db (redis_srem exec k m) d (Inr ()) (db_srem k m d)"
  unfolding redis_srem_def using srem_law by (intro yields_call) auto

lemma yields_hincrby [yields_rules]:
  "yields db (redis_hincrby exec k f n) d
     (Inr (case db_counter d k f of Some i \<Rightarrow> i + n | None \<Rightarrow> 0)) (db_hincrby k f n d)"
  unfolding redis_hincrby_def using hincrby_law by (intro yields_call) auto

lemma yields_expire [yields_rules]: "yields db (redis_expire exec k t) d (Inr ()) d"
  unfolding redis_expire_def using expire_law by (intro yields_call) auto

lemma smembers_answer:
  obtains ms where "fst (redis_smembers exec k s) = Inr ms" "set ms = db_set_members (db s) k"
    "db (snd (redis_smembers exec k s)) = db s"
proof -
  obtain r where r: "fst (exec [''SMEMBERS'', k] s) = Inr r"
    "(case r of RArr rs \<Rightarrow> set (map reply_text rs) | _ \<Rightarrow> {}) = db_set_members (db s) k"
    using smembers_law(1) by blast
  show thesis
    using r smembers_law(2) [of k s]
    by (intro that [of "case r of RArr rs \<Rightarrow> map reply_text rs | _ \<Rightarrow> []"])
       (auto simp: redis_smembers_def redis_call_def split: prod.split redis_reply.splits)
qed

lemma yields_zadd [yields_rules]:
  "n < 2 ^ 64 \<Longrightarrow> yields db (redis_zadd exec k (of_nat n) m) d (Inr ()) (db_zadd k (of_nat n) m d)"
  unfolding redis_zadd_def
  using zadd_law [OF strtod_fixed6] by (intro yields_call) auto

lemma zrange_answer:
  assumes "lo < 2 ^ 64" "hi < 2 ^ 64"
  obtains ms where "fst (redis_zrangebyscore exec k (of_nat lo) (of_nat hi) s) = Inr ms"
    "set ms = {m. \<exists>sc. db_scores (db s) k m = Some sc \<and> of_nat lo \<le> sc \<and> sc \<le> of_nat hi}"
    "sorted_wrt (\<lambda>a b. the (db_scores (db s) k a) \<le> the (db_scores (db s) k b)) ms"
    "db (snd (redis_zrangebyscore exec k (of_nat lo) (of_nat hi) s)) = db s"
proof -
  note law = zrange_law(1) [OF strtod_fixed6 [OF assms(1)] strtod_fixed6 [OF assms(2)], of k s]
    zrange_law(2) [of k "fixed6 (of_nat lo)" "fixed6 (of_nat hi)" s]
  obtain r where r: "fst (exec [''ZRANGEBYSCORE'', k, fixed6 (of_nat lo), fixed6 (of_nat hi), ''WITHSCORES''] s) = Inr r"
    "set (case r of RArr rs \<Rightarrow> every_other rs | _ \<Rightarrow> []) =
      {m. \<exists>sc. db_scores (db s) k m = Some sc \<and> of_nat lo \<le> sc \<and> sc \<le> of_nat hi}"
    "sorted_wrt (\<lambda>a b. the (db_scores (db s) k a) \<le> the (db_scores (db s) k b))
      (case r of RArr rs \<Rightarrow> every_other rs | _ \<Rightarrow> [])"
    using law(1) by (auto simp: Let_def)
  show thesis
    using r law(2)
    by (intro that [of "case r of RArr rs \<Rightarrow> every_other rs | _ \<Rightarrow> []"])
       (auto simp: redis_zrangebyscore_def redis_call_def split: prod.split)
qed

lemma yields_pipeline_hset:
  "(\<And>cmd. cmd \<in> set cmds \<Longrightarrow> \<exists>k f v. cmd = pipeline_hset k f v) \<Longrightarrow>
   yields db (pipeline_exec exec cmds) d (Inr ())
     (fold (\<lambda>cmd. db_hset (cmd ! 1) (cmd ! 2) (cmd ! 3)) cmds d)"
  using hset_law by (intro yields_pipeline) (fastforce simp: pipeline_hset_def)

end

subsection \<open>A reference server\<close>

text \<open>The commands above on finite values, one page per scan.\<close>

datatype ref_value =
    LStr string | LHash "(string \<times> string) list" | LSet "string list" | LZset "(string \<times> rat) list"

type_synonym ref_state = "(string \<times> ref_value) list"

fun ref_abs :: "ref_value \<Rightarrow> redis_value" where
  "ref_abs (LStr v) = VStr v"
| "ref_abs (LHash h) = VHash (map_of h)"
| "ref_abs (LSet xs) = VSet (set xs)"
| "ref_abs (LZset z) = VZset (map_of z)"

definition ref_db :: "ref_state \<Rightarrow> redis_db" where
  "ref_db s k = map_option ref_abs (map_of s k)"

definition wrong_type :: "(string + redis_reply)" where
  "wrong_type = Inr (RError ''WRONGTYPE Operation against a key holding the wrong kind of value'')"

definition ref_hset :: "string \<Rightarrow> string \<Rightarrow> string \<Rightarrow> ref_state \<Rightarrow> (string + redis_reply) \<times> ref_state" where
  "ref_hset k f v s =
     (case map_of s k of
        None \<Rightarrow> (Inr (RInt 1), AList.update k (LHash [(f, v)]) s)
      | Some (LHash h) \<Rightarrow> (Inr (RInt (if map_of h f = None then 1 else 0)), AList.update k (LHash (AList.update f v h)) s)
      | _ \<Rightarrow> (wrong_type, s))"

definition ref_exec :: "ref_state server" where
  "ref_exec cmd s =
     (let name = cmd ! 0; k = cmd ! 1; a2 = cmd ! 2; a3 = cmd ! 3; v = map_of s k in
      if name = ''SET'' then (Inr (RStatus ''OK''), AList.update k (LStr a2) s)
      else if name = ''GET'' then
        (case v of None \<Rightarrow> Inr RNil | Some (LStr t) \<Rightarrow> Inr (RStr t) | _ \<Rightarrow> wrong_type, s)
      else if name = ''DEL'' then (Inr (RInt (if v = None then 0 else 1)), AList.delete k s)
      else if name = ''HSET'' then ref_hset k a2 a3 s
      else if name = ''HGET'' then
        (case v of
           None \<Rightarrow> Inr RNil
         | Some (LHash h) \<Rightarrow> (case map_of h a2 of None \<Rightarrow> Inr RNil | Some t \<Rightarrow> Inr (RStr t))
         | _ \<Rightarrow> wrong_type, s)
      else if name = ''SADD'' then
        (case v of
           None \<Rightarrow> (Inr (RInt 1), AList.update k (LSet [a2]) s)
         | Some (LSet xs) \<Rightarrow> (Inr (RInt 1), AList.update k (LSet (List.insert a2 xs)) s)
         | _ \<Rightarrow> (wrong_type, s))
      else if name = ''SREM'' then
        (case v of
           None \<Rightarrow> (Inr (RInt 0), s)
         | Some (LSet xs) \<Rightarrow>
             (Inr (RInt 1), if removeAll a2 xs = [] then AList.delete k s
                            else AList.update k (LSet (removeAll a2 xs)) s)
         | _ \<Rightarrow> (wrong_type, s))
      else if name = ''SMEMBERS'' then
        (case v of None \<Rightarrow> Inr (RArr []) | Some (LSet xs) \<Rightarrow> Inr (RArr (map RStr xs)) | _ \<Rightarrow> wrong_type, s)
      else if name = ''HINCRBY'' then
        (case db_counter (ref_db s) k a2 of
           None \<Rightarrow> (wrong_type, s)
         | Some i \<Rightarrow>
             (let n = i + (case decimal a3 of Some n \<Rightarrow> n | None \<Rightarrow> 0)
              in (Inr (RInt n), snd (ref_hset k a2 (int_to_string n) s))))
      else if name = ''EXPIRE'' then (Inr (RInt (if v = None then 0 else 1)), s)
      else if name = ''ZADD'' then
        (case strtod a2 of
           Some (score, False, []) \<Rightarrow>
             (case v of
                None \<Rightarrow> (Inr (RInt 1), AList.update k (LZset [(a3, score)]) s)
              | Some (LZset z) \<Rightarrow> (Inr (RInt 1), AList.update k (LZset (AList.update a3 score z)) s)
              | _ \<Rightarrow> (wrong_type, s))
         | _ \<Rightarrow> (Inr (RError ''ERR value is not a valid float''), s))
      else if name = ''ZRANGEBYSCORE'' then
        (case (strtod a2, strtod a3) of
           (Some (lo, False, []), Some (hi, False, [])) \<Rightarrow>
             (case v of
                None \<Rightarrow> Inr (RArr [])
              | Some (LZset z) \<Rightarrow>
                  Inr (RArr (concat (map (\<lambda>m. [RStr m, RStr (fixed6 (the (map_of z m)))])
                    (sort_key (\<lambda>m. the (map_of z m))
                      (filter (\<lambda>m. lo \<le> the (map_of z m) \<and> the (map_of z m) \<le> hi) (remdups (map fst z)))))))
              | _ \<Rightarrow> wrong_type, s)
         | _ \<Rightarrow> (Inr (RError ''ERR min or max is not a float''), s))
      else if name = ''SCAN'' then
        (Inr (RArr [RStr ''0'', RArr (map RStr (filter (glob a3) (map fst s)))]), s)
      else (Inr (RError ''ERR unknown command''), s))"

lemma ref_db_update [simp]: "ref_db (AList.update k v s) = (ref_db s)(k \<mapsto> ref_abs v)"
  by (rule ext) (simp add: ref_db_def update_conv)

lemma ref_db_delete [simp]: "ref_db (AList.delete k s) = (ref_db s)(k := None)"
  by (rule ext) (simp add: ref_db_def delete_conv)

lemma every_other_pairs: "every_other (concat (map (\<lambda>m. [RStr m, f m]) ms)) = ms"
  by (induction ms) (simp_all add: reply_text_def)

lemma ref_hset_db: "ref_db (snd (ref_hset k f v s)) = db_hset k f v (ref_db s)"
  by (cases "map_of s k")
     (auto simp: ref_hset_def db_hset_def ref_db_def [of s k] update_conv' split: ref_value.split)

lemma ref_reply: "\<exists>r. fst (ref_hset k f v s) = Inr r"
  by (auto simp: ref_hset_def wrong_type_def split: option.split ref_value.split)

lemma set_reply_strings: "set (map reply_text (map RStr xs)) = set xs"
  by (simp add: reply_text_def comp_def)

lemma ref_zrange:
  "set (sort_key (\<lambda>m. the (map_of z m)) (filter (\<lambda>m. lo \<le> the (map_of z m) \<and> the (map_of z m) \<le> hi)
      (remdups (map fst z)))) = {m. \<exists>sc. map_of z m = Some sc \<and> lo \<le> sc \<and> sc \<le> (hi::rat)}"
  by (auto simp: image_iff) (metis map_of_SomeD fst_conv snd_conv option.sel not_None_eq map_of_eq_None_iff image_eqI)+

text \<open>What the reference server does with each command, one command at a time.\<close>

lemma ref_exec_simps:
  "ref_exec [''SET'', k, v] s = (Inr (RStatus ''OK''), AList.update k (LStr v) s)"
  "ref_exec [''GET'', k] s =
     (case map_of s k of None \<Rightarrow> Inr RNil | Some (LStr t) \<Rightarrow> Inr (RStr t) | _ \<Rightarrow> wrong_type, s)"
  "ref_exec [''DEL'', k] s = (Inr (RInt (if map_of s k = None then 0 else 1)), AList.delete k s)"
  "ref_exec [''HSET'', k, f, v] s = ref_hset k f v s"
  "ref_exec [''HGET'', k, f] s =
     (case map_of s k of
        None \<Rightarrow> Inr RNil
      | Some (LHash h) \<Rightarrow> (case map_of h f of None \<Rightarrow> Inr RNil | Some t \<Rightarrow> Inr (RStr t))
      | _ \<Rightarrow> wrong_type, s)"
  "ref_exec [''EXPIRE'', k, t] s = (Inr (RInt (if map_of s k = None then 0 else 1)), s)"
  "ref_exec [''SMEMBERS'', k] s =
     (case map_of s k of None \<Rightarrow> Inr (RArr []) | Some (LSet xs) \<Rightarrow> Inr (RArr (map RStr xs)) | _ \<Rightarrow> wrong_type, s)"
  "ref_exec [''SCAN'', c, ''MATCH'', p, ''COUNT'', n] s =
     (Inr (RArr [RStr ''0'', RArr (map RStr (filter (glob p) (map fst s)))]), s)"
  by (simp_all add: ref_exec_def Let_def)

lemma ref_exec_sets:
  "ref_exec [''SADD'', k, m] s =
     (case map_of s k of
        None \<Rightarrow> (Inr (RInt 1), AList.update k (LSet [m]) s)
      | Some (LSet xs) \<Rightarrow> (Inr (RInt 1), AList.update k (LSet (List.insert m xs)) s)
      | _ \<Rightarrow> (wrong_type, s))"
  "ref_exec [''SREM'', k, m] s =
     (case map_of s k of
        None \<Rightarrow> (Inr (RInt 0), s)
      | Some (LSet xs) \<Rightarrow>
          (Inr (RInt 1), if removeAll m xs = [] then AList.delete k s
                         else AList.update k (LSet (removeAll m xs)) s)
      | _ \<Rightarrow> (wrong_type, s))"
  "ref_exec [''HINCRBY'', k, f, int_to_string n] s =
     (case db_counter (ref_db s) k f of
        None \<Rightarrow> (wrong_type, s)
      | Some i \<Rightarrow> (Inr (RInt (i + n)), snd (ref_hset k f (int_to_string (i + n)) s)))"
  by (simp_all add: ref_exec_def Let_def decimal_print cong: option.case_cong)

lemma ref_exec_zsets:
  assumes "strtod t = Some (score, False, [])"
  shows "ref_exec [''ZADD'', k, t, m] s =
     (case map_of s k of
        None \<Rightarrow> (Inr (RInt 1), AList.update k (LZset [(m, score)]) s)
      | Some (LZset z) \<Rightarrow> (Inr (RInt 1), AList.update k (LZset (AList.update m score z)) s)
      | _ \<Rightarrow> (wrong_type, s))"
  using assms by (simp add: ref_exec_def Let_def)

lemma ref_exec_zrange:
  assumes "strtod t = Some (lo, False, [])" "strtod u = Some (hi, False, [])"
  shows "ref_exec [''ZRANGEBYSCORE'', k, t, u, ''WITHSCORES''] s =
     (case map_of s k of
        None \<Rightarrow> Inr (RArr [])
      | Some (LZset z) \<Rightarrow>
          Inr (RArr (concat (map (\<lambda>m. [RStr m, RStr (fixed6 (the (map_of z m)))])
            (sort_key (\<lambda>m. the (map_of z m))
              (filter (\<lambda>m. lo \<le> the (map_of z m) \<and> the (map_of z m) \<le> hi) (remdups (map fst z)))))))
      | _ \<Rightarrow> wrong_type, s)"
  using assms by (simp add: ref_exec_def Let_def)

lemmas ref_cases = option.split ref_value.split

lemma ref_db_cases: "ref_db s k = (case map_of s k of None \<Rightarrow> None | Some v \<Rightarrow> Some (ref_abs v))"
  by (simp add: ref_db_def split: option.split)

lemma ref_sets_db:
  "ref_db (snd (ref_exec [''SADD'', k, m] s)) = db_sadd k m (ref_db s)"
  "ref_db (snd (ref_exec [''SREM'', k, m] s)) = db_srem k m (ref_db s)"
  "ref_db (snd (ref_exec [''HINCRBY'', k, f, int_to_string n] s)) = db_hincrby k f n (ref_db s)"
proof -
  have set_diff: "removeAll m xs = [] \<longleftrightarrow> set xs \<subseteq> {m}" for xs :: "string list"
    by (induction xs) auto
  show "ref_db (snd (ref_exec [''SADD'', k, m] s)) = db_sadd k m (ref_db s)"
    by (auto simp: ref_exec_sets db_sadd_def ref_db_cases [of s k] split: ref_cases)
  show "ref_db (snd (ref_exec [''SREM'', k, m] s)) = db_srem k m (ref_db s)"
    by (simp add: ref_exec_sets db_srem_def ref_db_cases [of s k] set_diff split: ref_cases)
  show "ref_db (snd (ref_exec [''HINCRBY'', k, f, int_to_string n] s)) = db_hincrby k f n (ref_db s)"
    by (simp add: ref_exec_sets db_hincrby_def ref_hset_db split: option.split)
qed

lemma ref_zadd_db:
  assumes "strtod t = Some (score, False, [])"
  shows "ref_db (snd (ref_exec [''ZADD'', k, t, m] s)) = db_zadd k score m (ref_db s)"
  by (auto simp: ref_exec_zsets [OF assms] db_zadd_def ref_db_cases [of s k] update_conv' split: ref_cases)

lemma ref_zrange_answer:
  assumes "strtod t = Some (lo, False, [])" "strtod u = Some (hi, False, [])"
  shows "\<exists>r. fst (ref_exec [''ZRANGEBYSCORE'', k, t, u, ''WITHSCORES''] s) = Inr r \<and>
     (let ms = (case r of RArr rs \<Rightarrow> every_other rs | _ \<Rightarrow> []) in
      set ms = {m. \<exists>sc. db_scores (ref_db s) k m = Some sc \<and> lo \<le> sc \<and> sc \<le> hi} \<and>
      sorted_wrt (\<lambda>a b. the (db_scores (ref_db s) k a) \<le> the (db_scores (ref_db s) k b)) ms)"
proof (cases "\<exists>z. map_of s k = Some (LZset z)")
  case True
  then obtain z where z: "map_of s k = Some (LZset z)" by blast
  then have sc: "db_scores (ref_db s) k = map_of z" by (simp add: db_scores_def ref_db_def fun_eq_iff)
  let ?ms = "sort_key (\<lambda>m. the (map_of z m)) (filter (\<lambda>m. lo \<le> the (map_of z m) \<and> the (map_of z m) \<le> hi)
      (remdups (map fst z)))"
  have "sorted (map (\<lambda>m. the (map_of z m)) ?ms)" by (rule sorted_sort_key)
  then have "sorted_wrt (\<lambda>a b. the (map_of z a) \<le> the (map_of z b)) ?ms"
    by (simp only: sorted_map)
  then show ?thesis
    using ref_zrange [of z lo hi] unfolding sc
    by (intro exI [of _ "RArr (concat (map (\<lambda>m. [RStr m, RStr (fixed6 (the (map_of z m)))]) ?ms))"])
       (simp add: ref_exec_zrange [OF assms] z every_other_pairs Let_def del: set_sort)
next
  case False
  then have "db_scores (ref_db s) k m = None" for m
    by (auto simp: db_scores_def ref_db_cases split: option.split redis_value.split elim!: ref_abs.elims)
  then show ?thesis
    using False by (auto simp: ref_exec_zrange [OF assms] wrong_type_def Let_def split: ref_cases)
qed

lemma ref_get_answer:
  "\<exists>r. fst (ref_exec [''GET'', k] s) = Inr r \<and> reply_string r = db_get (ref_db s) k"
  by (auto simp: ref_exec_simps db_get_def ref_db_cases [of s k] reply_string_def wrong_type_def split: ref_cases)

lemma ref_hget_answer:
  "\<exists>r. fst (ref_exec [''HGET'', k, f] s) = Inr r \<and> reply_string r = db_hash (ref_db s) k f"
  by (auto simp: ref_exec_simps db_hash_def ref_db_cases [of s k] reply_string_def wrong_type_def split: ref_cases)

lemma ref_smembers_answer:
  "\<exists>r. fst (ref_exec [''SMEMBERS'', k] s) = Inr r \<and>
     (case r of RArr rs \<Rightarrow> set (map reply_text rs) | _ \<Rightarrow> {}) = db_set_members (ref_db s) k"
  by (auto simp: ref_exec_simps db_set_members_def ref_db_cases [of s k] wrong_type_def reply_text_def
      split: ref_cases)

lemma ref_hincrby_answer:
  "\<exists>r. fst (ref_exec [''HINCRBY'', k, f, int_to_string n] s) = Inr r \<and>
     reply_integer r = (case db_counter (ref_db s) k f of Some i \<Rightarrow> i + n | None \<Rightarrow> 0)"
  by (auto simp: ref_exec_sets reply_integer_def wrong_type_def split: option.split)

lemma stoull_zero: "stoull ''0'' = Inr 0"
proof -
  have "u64_to_string 0 = ''0''" by code_simp
  then show ?thesis using stoull_print [of 0] by (simp only:)
qed

lemma ref_scan:
  "\<exists>n keys s'. scan_loop n ref_exec p 0 [] s = Some (Inr keys, s') \<and> ref_db s' = ref_db s \<and>
     set keys = {k. ref_db s k \<noteq> None \<and> glob p k}"
proof -
  have l: "scan_loop 1 ref_exec p 0 [] s = Some (Inr (filter (glob p) (map fst s)), s)"
    using stoull_zero by (simp add: ref_exec_simps scan_page_def reply_text_def comp_def)
  have "ref_db s k \<noteq> None \<longleftrightarrow> k \<in> set (map fst s)" for k
    by (simp add: ref_db_def map_of_eq_None_iff)
  then have "set (filter (glob p) (map fst s)) = {k. ref_db s k \<noteq> None \<and> glob p k}"
    unfolding set_filter by blast
  with l show ?thesis by blast
qed

lemma ref_answers:
  "\<exists>r. fst (ref_exec [''SADD'', k, m] s) = Inr r" "\<exists>r. fst (ref_exec [''SREM'', k, m] s) = Inr r"
  "strtod t = Some (score, False, []) \<Longrightarrow> \<exists>r. fst (ref_exec [''ZADD'', k, t, m] s) = Inr r"
  by (auto simp: ref_exec_sets ref_exec_zsets wrong_type_def split: ref_cases)

lemma ref_unchanged:
  "ref_db (snd (ref_exec [''GET'', k] s)) = ref_db s"
  "ref_db (snd (ref_exec [''HGET'', k, f] s)) = ref_db s"
  "ref_db (snd (ref_exec [''EXPIRE'', k, t] s)) = ref_db s"
  "ref_db (snd (ref_exec [''SMEMBERS'', k] s)) = ref_db s"
  "ref_db (snd (ref_exec [''ZRANGEBYSCORE'', k, t, u, ''WITHSCORES''] s)) = ref_db s"
proof -
  show "ref_db (snd (ref_exec [''ZRANGEBYSCORE'', k, t, u, ''WITHSCORES''] s)) = ref_db s"
    by (simp add: ref_exec_def Let_def split: option.split prod.split bool.split list.split)
qed (simp_all add: ref_exec_simps)

lemma ref_basic:
  "\<exists>r. fst (ref_exec [''SET'', k, v] s) = Inr r"
  "ref_db (snd (ref_exec [''SET'', k, v] s)) = (ref_db s)(k \<mapsto> VStr v)"
  "\<exists>r. fst (ref_exec [''DEL'', k] s) = Inr r"
  "ref_db (snd (ref_exec [''DEL'', k] s)) = (ref_db s)(k := None)"
  "\<exists>r. fst (ref_exec [''HSET'', k, f, v] s) = Inr r"
  "ref_db (snd (ref_exec [''HSET'', k, f, v] s)) = db_hset k f v (ref_db s)"
  "\<exists>r. fst (ref_exec [''EXPIRE'', k, v] s) = Inr r"
  by (simp_all add: ref_exec_simps ref_reply ref_hset_db)

interpretation ref: redis_server ref_exec ref_db
  by (unfold_locales;
      (rule ref_basic | rule ref_unchanged | rule ref_get_answer | rule ref_hget_answer
       | rule ref_smembers_answer | rule ref_hincrby_answer | rule ref_sets_db | rule ref_zrange_answer
       | rule ref_scan | rule ref_answers | rule ref_zadd_db); assumption?)

end
