(* ===== verification/Backend.thy ===== *)
theory Backend
  imports Uri Label Redis
begin

text \<open>
  Storage backends (\<^verbatim>\<open>src/labios/backend\<close>): files under a storage root, keys in a separate
  Redis, and the registry that maps URI schemes to backends. The SQLite backend is the theory \<open>Sqlite\<close>.

  The file system is an association list from paths, as lists of component names, to directories
  and files; \<^verbatim>\<open>std::filesystem\<close> and the file streams act on it as documented. Failures outside
  the program (permissions, full disks) are not modelled, and reading a directory counts as absent.
  The storage root is a list of names.
\<close>

subsection \<open>Paths\<close>

text \<open>The pieces between slashes.\<close>

fun segments :: "string \<Rightarrow> string list" where
  "segments [] = [[]]"
| "segments (c # cs) =
     (if c = CHR ''/'' then [] # segments cs
      else (case segments cs of s # ss \<Rightarrow> (c # s) # ss | [] \<Rightarrow> [[c]]))"

text \<open>One component of \<^verbatim>\<open>lexically_normal\<close>: dots vanish, a name and the \<^verbatim>\<open>..\<close> after it cancel.\<close>

definition norm_step :: "string list \<Rightarrow> string \<Rightarrow> string list" where
  "norm_step stack c =
     (if c = [] \<or> c = ''.'' then stack
      else if c = ''..'' then (if stack \<noteq> [] \<and> last stack \<noteq> ''..'' then butlast stack else stack @ [''..''])
      else stack @ [c])"

definition lexically_normal :: "string list \<Rightarrow> string list" where
  "lexically_normal segs = foldl norm_step [] segs"

text \<open>
  A sanitized path: its names below the root, and whether its text ends like a directory (a
  trailing slash, \<^verbatim>\<open>.\<close> or \<^verbatim>\<open>..\<close>).
\<close>

record relative_path =
  rp_names :: "string list"
  rp_dir :: bool

definition sanitize_relative_path :: "string \<Rightarrow> relative_path option" where
  "sanitize_relative_path raw =
     (if raw = [] then None
      else
        (let segs = segments raw; names = lexically_normal segs
         in if ''..'' \<in> set names then None
            else Some \<lparr>rp_names = names, rp_dir = (last segs \<in> {[], ''.'', ''..''})\<rparr>))"

definition strip_leading_slash :: "string \<Rightarrow> string" where
  "strip_leading_slash p = (if p \<noteq> [] \<and> hd p = CHR ''/'' then tl p else p)"

definition resolve_dest :: "label_data \<Rightarrow> (relative_path \<times> u64) option" where
  "resolve_dest l =
     (if l_dest_uri l \<noteq> []
      then map_option (\<lambda>r. (r, 0)) (sanitize_relative_path (strip_leading_slash (u_path (parse_uri (l_dest_uri l)))))
      else (case l_destination l of
              FilePath path offset len \<Rightarrow> map_option (\<lambda>r. (r, offset)) (sanitize_relative_path path)
            | _ \<Rightarrow> None))"

definition resolve_source :: "label_data \<Rightarrow> (relative_path \<times> u64) option" where
  "resolve_source l =
     (if l_source_uri l \<noteq> []
      then map_option (\<lambda>r. (r, 0)) (sanitize_relative_path (strip_leading_slash (u_path (parse_uri (l_source_uri l)))))
      else (case l_source l of
              FilePath path offset len \<Rightarrow> map_option (\<lambda>r. (r, offset)) (sanitize_relative_path path)
            | _ \<Rightarrow> None))"

subsection \<open>Files\<close>

datatype fs_node = Dir | File bytes

type_synonym fs = "(string list \<times> fs_node) list"

text \<open>\<^verbatim>\<open>std::filesystem::create_directories\<close>, from a directory that exists down the given names.\<close>

fun create_directories :: "string list \<Rightarrow> string list \<Rightarrow> fs \<Rightarrow> fs result" where
  "create_directories base [] fs =
     (case map_of fs base of
        Some (File _) \<Rightarrow> Inl ''filesystem error: cannot create directories: Not a directory''
      | Some Dir \<Rightarrow> Inr fs
      | None \<Rightarrow> Inr (AList.update base Dir fs))"
| "create_directories base (n # ns) fs =
     (case map_of fs base of
        Some (File _) \<Rightarrow> Inl ''filesystem error: cannot create directories: Not a directory''
      | Some Dir \<Rightarrow> create_directories (base @ [n]) ns fs
      | None \<Rightarrow> create_directories (base @ [n]) ns (AList.update base Dir fs))"

text \<open>Seeking to an offset and writing there; a gap is filled with zeros.\<close>

definition write_at :: "bytes \<Rightarrow> nat \<Rightarrow> bytes \<Rightarrow> bytes" where
  "write_at old off data =
     (if data = [] then old
      else take off (old @ replicate (off - length old) 0) @ data @ drop (off + length data) old)"

fun path_text :: "string list \<Rightarrow> bool \<Rightarrow> string" where
  "path_text [] d = (if d then ''/'' else [])"
| "path_text (n # ns) d = CHR ''/'' # n @ path_text ns d"

record backend_result =
  br_success :: bool
  br_error :: string

record backend_data_result =
  bd_success :: bool
  bd_error :: string
  bd_data :: bytes

record backend_query_result =
  bq_success :: bool
  bq_error :: string
  bq_json_data :: string

definition backend_ok :: backend_result where
  "backend_ok = \<lparr>br_success = True, br_error = []\<rparr>"

definition backend_failed :: "string \<Rightarrow> backend_result" where
  "backend_failed e = \<lparr>br_success = False, br_error = e\<rparr>"

text \<open>\<^verbatim>\<open>PosixBackend::put\<close>. A stream offset is signed: from 2^63 on the seek fails.\<close>

definition posix_put :: "string list \<Rightarrow> label_data \<Rightarrow> bytes \<Rightarrow> fs \<Rightarrow> backend_result result \<times> fs" where
  "posix_put storage l data fs =
     (case resolve_dest l of
        None \<Rightarrow> (Inr (backend_failed ''invalid destination path''), fs)
      | Some (r, offset) \<Rightarrow>
          (let full = storage @ rp_names r; txt = path_text full (rp_dir r);
               parent = (if rp_dir r then rp_names r else butlast (rp_names r)) in
           case create_directories storage parent fs of
             Inl e \<Rightarrow> (Inl e, fs)
           | Inr fs1 \<Rightarrow>
               if rp_dir r \<or> map_of fs1 full = Some Dir
               then (Inr (backend_failed (''failed to open '' @ txt)), fs1)
               else
                 (let old = (case map_of fs1 full of Some (File b) \<Rightarrow> if offset > 0 then b else [] | _ \<Rightarrow> [])
                  in if offset \<ge> 2 ^ 63
                     then (Inr (backend_failed (''failed to write '' @ txt)), AList.update full (File old) fs1)
                     else (Inr backend_ok, AList.update full (File (write_at old (unat offset) data)) fs1))))"

definition posix_get :: "string list \<Rightarrow> label_data \<Rightarrow> fs \<Rightarrow> backend_data_result result" where
  "posix_get storage l fs =
     (case resolve_source l of
        None \<Rightarrow> Inr \<lparr>bd_success = False, bd_error = ''invalid source path'', bd_data = []\<rparr>
      | Some (r, offset) \<Rightarrow>
          (let full = storage @ rp_names r; txt = path_text full (rp_dir r) in
           case (if rp_dir r then None else map_of fs full) of
             Some (File b) \<Rightarrow>
               if offset \<ge> 2 ^ 63
               then Inr \<lparr>bd_success = False, bd_error = ''failed to seek '' @ txt, bd_data = []\<rparr>
               else
                 (let len = (if l_data_size l = 0 then of_nat (length b) - offset else l_data_size l)
                  in if len \<ge> 2 ^ 63 then Inl ''cannot create std::vector larger than max_size()''
                     else Inr \<lparr>bd_success = True, bd_error = [],
                               bd_data = take (unat len) (drop (unat offset) b)\<rparr>)
           | _ \<Rightarrow> Inr \<lparr>bd_success = False, bd_error = ''data not found: '' @ txt, bd_data = []\<rparr>))"

text \<open>\<^verbatim>\<open>std::filesystem::remove\<close>: a directory goes only when empty, an absent path is no error.\<close>

definition posix_del :: "string list \<Rightarrow> label_data \<Rightarrow> fs \<Rightarrow> backend_result \<times> fs" where
  "posix_del storage l fs =
     (case resolve_dest l of
        None \<Rightarrow> (backend_failed ''invalid destination path'', fs)
      | Some (r, offset) \<Rightarrow>
          (let full = storage @ rp_names r in
           case map_of fs full of
             None \<Rightarrow> (backend_ok, fs)
           | Some (File _) \<Rightarrow>
               if rp_dir r then (backend_failed ''Not a directory'', fs) else (backend_ok, AList.delete full fs)
           | Some Dir \<Rightarrow>
               if \<exists>p \<in> set (map fst fs). strict_prefix full p
               then (backend_failed ''Directory not empty'', fs)
               else (backend_ok, AList.delete full fs)))"

definition posix_query :: "label_data \<Rightarrow> backend_query_result" where
  "posix_query l = \<lparr>bq_success = False, bq_error = ''query not supported on file backend'', bq_json_data = []\<rparr>"

subsection \<open>Key-value backend\<close>

definition make_key :: "string \<Rightarrow> label_data \<Rightarrow> string" where
  "make_key pre l =
     (let uri = (if l_dest_uri l \<noteq> [] then l_dest_uri l else l_source_uri l) in
      if uri \<noteq> []
      then (let parsed = parse_uri uri in
            if u_authority parsed \<noteq> [] then pre @ u_authority parsed @ u_path parsed else pre @ u_path parsed)
      else pre @ u64_to_string (l_id l))"

fun intent_num :: "intent \<Rightarrow> nat" where
  "intent_num IntentNone = 0" | "intent_num Checkpoint = 1" | "intent_num Cache = 2"
| "intent_num ToolOutput = 3" | "intent_num FinalResult = 4" | "intent_num Intermediate = 5"
| "intent_num SharedState = 6" | "intent_num Embedding = 7" | "intent_num ModelWeight = 8"
| "intent_num KVCache = 9" | "intent_num ReasoningTrace = 10"

fun isolation_num :: "isolation \<Rightarrow> nat" where
  "isolation_num IsoNone = 0" | "isolation_num IsoAgent = 1" | "isolation_num IsoWorkspace = 2"
| "isolation_num IsoGlobal = 3"

definition kv_put :: "'s server \<Rightarrow> string \<Rightarrow> label_data \<Rightarrow> bytes \<Rightarrow> ('s, backend_result) redis_op" where
  "kv_put exec pre l data =
     (let key = make_key pre l; meta_key = key @ '':meta'' in
      op_bind (redis_set_binary exec key data) (\<lambda>_.
      op_bind (redis_hset exec meta_key ''intent'' (nat_to_string (intent_num (l_intent l)))) (\<lambda>_.
      op_bind (redis_hset exec meta_key ''isolation'' (nat_to_string (isolation_num (l_isolation l)))) (\<lambda>_.
      op_bind (redis_hset exec meta_key ''priority'' (nat_to_string (unat (l_priority l)))) (\<lambda>_.
      op_bind (if l_ttl_seconds l > 0
               then op_bind (redis_expire exec key (l_ttl_seconds l)) (\<lambda>_. redis_expire exec meta_key (l_ttl_seconds l))
               else ret ()) (\<lambda>_.
      ret backend_ok))))))"

definition kv_get :: "'s server \<Rightarrow> string \<Rightarrow> label_data \<Rightarrow> ('s, backend_data_result) redis_op" where
  "kv_get exec pre l =
     (let key = make_key pre l in
      op_bind (redis_get exec key) (\<lambda>v.
      if v = None then ret \<lparr>bd_success = False, bd_error = ''key not found: '' @ key, bd_data = []\<rparr>
      else op_bind (redis_get_binary exec key) (\<lambda>data.
           ret \<lparr>bd_success = True, bd_error = [], bd_data = data\<rparr>)))"

definition kv_del :: "'s server \<Rightarrow> string \<Rightarrow> label_data \<Rightarrow> ('s, backend_result) redis_op" where
  "kv_del exec pre l =
     (let key = make_key pre l in
      op_bind (redis_del exec key) (\<lambda>_. op_bind (redis_del exec (key @ '':meta'')) (\<lambda>_. ret backend_ok)))"

text \<open>\<^verbatim>\<open>query\<close> scans for keys with the label's key as prefix; the scan has fuel.\<close>

definition keys_json :: "string list \<Rightarrow> string" where
  "keys_json keys =
     ''{'' @ [CHR 0x22] @ ''keys'' @ [CHR 0x22] @ '':['' @
     concat (map (\<lambda>(i, k). (if i > 0 then '','' else []) @ [CHR 0x22] @ k @ [CHR 0x22]) (enumerate (0 :: nat) keys)) @
     '']}''"

definition kv_query ::
    "nat \<Rightarrow> 's server \<Rightarrow> string \<Rightarrow> label_data \<Rightarrow> 's \<Rightarrow> (backend_query_result result \<times> 's) option" where
  "kv_query fuel exec pre l s =
     map_option
       (\<lambda>(r, s'). (case r of Inl e \<Rightarrow> Inl e
                    | Inr keys \<Rightarrow> Inr \<lparr>bq_success = True, bq_error = [], bq_json_data = keys_json keys\<rparr>, s'))
       (scan_loop fuel exec (make_key pre l @ ''*'') 0 [] s)"

subsection \<open>Registry\<close>

text \<open>
  \<^verbatim>\<open>AnyBackend\<close>: a backend is the operations on the state of the backends; the worker uses
  \<^verbatim>\<open>put\<close> and \<^verbatim>\<open>get\<close>. The two backends above work on the pair of the files and
  the key-value server.
\<close>

record 'b any_backend =
  ab_put :: "label_data \<Rightarrow> bytes \<Rightarrow> ('b, backend_result) redis_op"
  ab_get :: "label_data \<Rightarrow> ('b, backend_data_result) redis_op"
  ab_del :: "label_data \<Rightarrow> ('b, backend_result) redis_op"

definition posix_backend :: "string list \<Rightarrow> (fs \<times> 's) any_backend" where
  "posix_backend storage =
     \<lparr>ab_put = (\<lambda>l data (f, s). let (r, f') = posix_put storage l data f in (r, (f', s))),
      ab_get = (\<lambda>l (f, s). (posix_get storage l f, (f, s))),
      ab_del = (\<lambda>l (f, s). let (r, f') = posix_del storage l f in (Inr r, (f', s)))\<rparr>"

definition kv_backend :: "'s server \<Rightarrow> string \<Rightarrow> (fs \<times> 's) any_backend" where
  "kv_backend exec pre =
     \<lparr>ab_put = (\<lambda>l data (f, s). let (r, s') = kv_put exec pre l data s in (r, (f, s'))),
      ab_get = (\<lambda>l (f, s). let (r, s') = kv_get exec pre l s in (r, (f, s'))),
      ab_del = (\<lambda>l (f, s). let (r, s') = kv_del exec pre l s in (r, (f, s')))\<rparr>"

type_synonym 'b backend_registry = "(string \<times> 'b any_backend) list"

definition register_backend :: "string \<Rightarrow> 'b any_backend \<Rightarrow> 'b backend_registry \<Rightarrow> 'b backend_registry" where
  "register_backend scheme b reg = AList.update scheme b reg"

definition backend_resolve :: "'b backend_registry \<Rightarrow> string \<Rightarrow> 'b any_backend option" where
  "backend_resolve reg scheme = map_of reg scheme"

definition has_scheme :: "'b backend_registry \<Rightarrow> string \<Rightarrow> bool" where
  "has_scheme reg scheme \<longleftrightarrow> map_of reg scheme \<noteq> None"

subsection \<open>Confinement\<close>

text \<open>Walking the components from depth \<open>d\<close> below the root: does the walk ever leave the root?\<close>

fun climbs :: "nat \<Rightarrow> string list \<Rightarrow> bool" where
  "climbs d [] = False"
| "climbs d (c # cs) =
     (if c = [] \<or> c = ''.'' then climbs d cs
      else if c = ''..'' then d = 0 \<or> climbs (d - 1) cs
      else climbs (Suc d) cs)"

lemma dotdot_stays: "''..'' \<in> set st \<Longrightarrow> ''..'' \<in> set (foldl norm_step st segs)"
proof (induction segs arbitrary: st)
  case Nil
  then show ?case by simp
next
  case (Cons c cs)
  have "''..'' \<in> set (butlast st)" if "last st \<noteq> ''..''"
    using Cons.prems that by (cases st rule: rev_cases) auto
  then have "''..'' \<in> set (norm_step st c)"
    using Cons.prems by (auto simp: norm_step_def)
  then show ?case using Cons.IH by simp
qed

lemma dotdot_iff_climbs:
  "''..'' \<notin> set st \<Longrightarrow> ''..'' \<in> set (foldl norm_step st segs) \<longleftrightarrow> climbs (length st) segs"
proof (induction segs arbitrary: st)
  case Nil
  then show ?case by simp
next
  case (Cons c cs)
  consider "c = [] \<or> c = ''.''" | "c = ''..''" "st = []" | "c = ''..''" "st \<noteq> []"
    | "c \<noteq> []" "c \<noteq> ''.''" "c \<noteq> ''..''" by blast
  then show ?case
  proof cases
    case 1
    then show ?thesis using Cons by (auto simp: norm_step_def)
  next
    case 2
    moreover have "norm_step [] ''..'' = [''..'']" by (simp add: norm_step_def)
    ultimately show ?thesis using dotdot_stays [of "[''..'']" cs] by simp
  next
    case 3
    then have "last st \<noteq> ''..''" using Cons.prems by (metis last_in_set)
    moreover have "''..'' \<notin> set (butlast st)" using Cons.prems by (metis in_set_butlastD)
    ultimately show ?thesis using 3 Cons.IH [of "butlast st"] by (simp add: norm_step_def)
  next
    case 4
    then show ?thesis using Cons.IH [of "st @ [c]"] Cons.prems by (simp add: norm_step_def)
  qed
qed

lemma norm_names_clean:
  assumes "\<forall>c \<in> set st. c \<notin> {[], ''.''} \<and> CHR ''/'' \<notin> set c" "\<forall>c \<in> set segs. CHR ''/'' \<notin> set c"
  shows "\<forall>c \<in> set (foldl norm_step st segs). c \<notin> {[], ''.''} \<and> CHR ''/'' \<notin> set c"
  using assms
proof (induction segs arbitrary: st)
  case Nil
  then show ?case by simp
next
  case (Cons c cs)
  have "\<forall>c \<in> set (norm_step st c). c \<notin> {[], ''.''} \<and> CHR ''/'' \<notin> set c"
    using Cons.prems by (auto simp: norm_step_def dest: in_set_butlastD)
  then show ?case using Cons.IH [of "norm_step st c"] Cons.prems(2) by simp
qed

lemma segments_no_slash: "c \<in> set (segments p) \<Longrightarrow> CHR ''/'' \<notin> set c"
  by (induction p arbitrary: c) (auto split: list.splits if_splits)


subsection \<open>Writing and reading files\<close>

lemma take_drop_write_at: "take (length data) (drop off (write_at old off data)) = data"
proof (cases "data = []")
  case False
  have "length (take off (old @ replicate (off - length old) 0)) = off" by simp
  then show ?thesis using False by (simp add: write_at_def)
qed simp

lemma create_directories_keeps:
  "create_directories base ns fs = Inr fs' \<Longrightarrow> map_of fs q = Some n \<Longrightarrow> map_of fs' q = Some n"
  by (induction base ns fs rule: create_directories.induct)
    (auto simp: update_conv' split: option.splits fs_node.splits if_splits, metis option.distinct(1))

lemma create_directories_files:
  "create_directories base ns fs = Inr fs' \<Longrightarrow> map_of fs' q = Some (File b) \<Longrightarrow> map_of fs q = Some (File b)"
  by (induction base ns fs rule: create_directories.induct)
    (auto simp: update_conv' split: option.splits fs_node.splits if_splits)

lemma posix_put_ok:
  assumes "posix_put storage l data fs = (Inr backend_ok, fs')"
  obtains r off old where "resolve_dest l = Some (r, off)" "off < 2 ^ 63" "\<not> rp_dir r"
    "map_of fs' (storage @ rp_names r) = Some (File (write_at old (unat off) data))"
    "old = (case map_of fs (storage @ rp_names r) of Some (File b) \<Rightarrow> if off > 0 then b else [] | _ \<Rightarrow> [])"
    "\<forall>q b. q \<noteq> storage @ rp_names r \<longrightarrow> map_of fs' q = Some (File b) \<longleftrightarrow> map_of fs q = Some (File b)"
proof -
  obtain r off where r: "resolve_dest l = Some (r, off)"
    using assms by (auto simp: posix_put_def backend_ok_def backend_failed_def split: option.splits)
  let ?full = "storage @ rp_names r"
  let ?parent = "if rp_dir r then rp_names r else butlast (rp_names r)"
  obtain fs1 where fs1: "create_directories storage ?parent fs = Inr fs1"
    using assms r by (auto simp: posix_put_def Let_def split: sum.splits)
  let ?old = "case map_of fs1 ?full of Some (File b) \<Rightarrow> if off > 0 then b else [] | _ \<Rightarrow> []"
  have ok: "\<not> rp_dir r" "map_of fs1 ?full \<noteq> Some Dir" "off < 2 ^ 63"
    "fs' = AList.update ?full (File (write_at ?old (unat off) data)) fs1"
    using assms r fs1 by (auto simp: posix_put_def backend_ok_def backend_failed_def Let_def split: if_splits)
  have same: "map_of fs1 q = Some (File b) \<longleftrightarrow> map_of fs q = Some (File b)" for q b
    using create_directories_keeps [OF fs1] create_directories_files [OF fs1] by blast
  have "?old = (case map_of fs ?full of Some (File b) \<Rightarrow> if off > 0 then b else [] | _ \<Rightarrow> [])"
  proof (cases "\<exists>b. map_of fs1 ?full = Some (File b)")
    case True
    then obtain b where "map_of fs1 ?full = Some (File b)" by blast
    moreover from this have "map_of fs ?full = Some (File b)" unfolding same .
    ultimately show ?thesis by simp
  next
    case False
    then have "\<nexists>b. map_of fs ?full = Some (File b)" using same by blast
    with False show ?thesis by (auto split: option.split fs_node.split)
  qed
  then show thesis
    using that [of r off ?old] r ok same by (simp add: update_conv')
qed

text \<open>
  C21: What the file backend stored is what it reads back: after a successful put, a get of the same
  file and offset for the same number of bytes returns exactly the bytes put, and no other file has
  changed, appeared or vanished.
\<close>

theorem posix_put_get:
  assumes "posix_put storage l data fs = (Inr backend_ok, fs')" "resolve_source l' = resolve_dest l"
    and "l_data_size l' = of_nat (length data)" "data \<noteq> []" "length data < 2 ^ 63"
  shows "posix_get storage l' fs' = Inr \<lparr>bd_success = True, bd_error = [], bd_data = data\<rparr> \<and>
    (\<exists>full. \<forall>q b. q \<noteq> full \<longrightarrow> map_of fs' q = Some (File b) \<longleftrightarrow> map_of fs q = Some (File b))"
proof -
  obtain r off old where r: "resolve_dest l = Some (r, off)" "off < 2 ^ 63" "\<not> rp_dir r"
    "map_of fs' (storage @ rp_names r) = Some (File (write_at old (unat off) data))"
    "old = (case map_of fs (storage @ rp_names r) of Some (File b) \<Rightarrow> if off > 0 then b else [] | _ \<Rightarrow> [])"
    "\<forall>q b. q \<noteq> storage @ rp_names r \<longrightarrow> map_of fs' q = Some (File b) \<longleftrightarrow> map_of fs q = Some (File b)"
    by (rule posix_put_ok [OF assms(1)])
  have n: "unat (of_nat (length data) :: u64) = length data"
    unfolding unat_of_nat using assms(5) by simp
  have "(of_nat (length data) :: u64) \<noteq> 0" using n assms(4) by (metis length_0_conv unat_0)
  moreover have "(of_nat (length data) :: u64) < 2 ^ 63"
    unfolding word_less_nat_alt n using assms(5) by simp
  ultimately have "posix_get storage l' fs' = Inr \<lparr>bd_success = True, bd_error = [],
      bd_data = take (length data) (drop (unat off) (write_at old (unat off) data))\<rparr>"
    using assms(2,3) r n by (simp add: posix_get_def Let_def not_le)
  then show ?thesis
    using r(6) by (auto simp: take_drop_write_at)
qed

text \<open>
  A write at offset 0 through the file backend discards the rest of the file: whatever a file
  held, after a successful put at offset 0 it holds the bytes put and nothing else, while a put
  at a later offset keeps the bytes around it.
\<close>

lemma posix_offset_zero_truncates:
  assumes "posix_put storage l data fs = (Inr backend_ok, fs')" "resolve_dest l = Some (r, off)"
    and "map_of fs (storage @ rp_names r) = Some (File old)"
  shows "map_of fs' (storage @ rp_names r) = Some (File (if off = 0 then data else write_at old (unat off) data))"
proof -
  obtain r' off' old' where r: "resolve_dest l = Some (r', off')" "off' < 2 ^ 63" "\<not> rp_dir r'"
    "map_of fs' (storage @ rp_names r') = Some (File (write_at old' (unat off') data))"
    "old' = (case map_of fs (storage @ rp_names r') of Some (File b) \<Rightarrow> if off' > 0 then b else [] | _ \<Rightarrow> [])"
    "\<forall>q b. q \<noteq> storage @ rp_names r' \<longrightarrow> map_of fs' q = Some (File b) \<longleftrightarrow> map_of fs q = Some (File b)"
    by (rule posix_put_ok [OF assms(1)])
  have "r' = r" "off' = off" using r(1) assms(2) by simp_all
  moreover from this have "old' = (if off > 0 then old else [])" using r(5) assms(3) by simp
  moreover have "write_at [] 0 data = data" by (simp add: write_at_def)
  ultimately show ?thesis using r(4) by (cases "off = 0") (simp_all add: word_gt_0)
qed

theorem posix_put_get_witness:
  "posix_get [''data''] (default_label\<lparr>l_source := FilePath ''/a/../b'' 2 3, l_data_size := 3\<rparr>)
     (snd (posix_put [''data''] (default_label\<lparr>l_destination := FilePath ''/a/../b'' 2 3\<rparr>) [7, 8, 9]
        [([''data''], Dir), ([''data'', ''b''], File [1, 1, 1, 1, 1, 1])]))
   = Inr \<lparr>bd_success = True, bd_error = [], bd_data = [7, 8, 9]\<rparr>"
proof -
  let ?l = "default_label\<lparr>l_destination := FilePath ''/a/../b'' 2 3\<rparr>"
  let ?l' = "default_label\<lparr>l_source := FilePath ''/a/../b'' 2 3, l_data_size := 3\<rparr>"
  let ?fs = "[([''data''], Dir), ([''data'', ''b''], File [1, 1, 1, 1, 1, 1])] :: fs"
  have "fst (posix_put [''data''] ?l [7, 8, 9] ?fs) = Inr backend_ok" by code_simp
  then have p: "posix_put [''data''] ?l [7, 8, 9] ?fs = (Inr backend_ok, snd (posix_put [''data''] ?l [7, 8, 9] ?fs))"
    by (metis prod.collapse)
  have "resolve_source ?l' = resolve_dest ?l" by (simp add: resolve_source_def resolve_dest_def default_label_def)
  from posix_put_get [OF p this] show ?thesis by simp
qed

end
