(* ===== verification/Catalog.thy ===== *)
theory Catalog
  imports Sds Redis
begin

text \<open>
  \<^verbatim>\<open>CatalogManager\<close> (\<^verbatim>\<open>src/labios/catalog_manager.cpp\<close>) over a Redis connection: label status,
  flags, errors and workers, file locations by byte range, and file metadata. \<open>exec\<close> is the
  server; \<open>now\<close> is the text \<^verbatim>\<open>now_ms()\<close> gives during the call. A range's start, stored as a
  \<^verbatim>\<open>double\<close> score, is exact here (in C++ it is exact below 2^53).
\<close>

subsection \<open>Label entries\<close>

datatype label_status = StQueued | StScheduled | StExecuting | StComplete | StError

fun status_to_string :: "label_status \<Rightarrow> string" where
  "status_to_string StQueued = ''queued''"
| "status_to_string StScheduled = ''scheduled''"
| "status_to_string StExecuting = ''executing''"
| "status_to_string StComplete = ''complete''"
| "status_to_string StError = ''error''"

definition label_status_from_string :: "string \<Rightarrow> label_status result" where
  "label_status_from_string s =
     (if s = ''queued'' then Inr StQueued
      else if s = ''scheduled'' then Inr StScheduled
      else if s = ''executing'' then Inr StExecuting
      else if s = ''complete'' then Inr StComplete
      else if s = ''error'' then Inr StError
      else Inl (''unknown label status: '' @ s))"

definition catalog_key :: "u64 \<Rightarrow> string" where
  "catalog_key label_id = ''labios:catalog:'' @ u64_to_string label_id"

fun type_num :: "label_type \<Rightarrow> nat" where
  "type_num Read = 0" | "type_num Write = 1" | "type_num Delete = 2" | "type_num Flush = 3"
| "type_num Composite = 4" | "type_num Observe = 5"

definition catalog_create :: "'s server \<Rightarrow> string \<Rightarrow> label_data \<Rightarrow> ('s, unit) redis_op" where
  "catalog_create exec now l =
     (let key = catalog_key (l_id l) in
      pipeline_exec exec
        [pipeline_hset key ''status'' ''queued'',
         pipeline_hset key ''app_id'' (nat_to_string (unat (l_app_id l))),
         pipeline_hset key ''type'' (nat_to_string (type_num (l_type l))),
         pipeline_hset key ''flags'' (nat_to_string (unat (l_flags l))),
         pipeline_hset key ''priority'' (nat_to_string (unat (l_priority l))),
         pipeline_hset key ''operation'' (l_operation l),
         pipeline_hset key ''created_at'' now,
         pipeline_hset key ''updated_at'' now])"

definition catalog_create_typed ::
    "'s server \<Rightarrow> string \<Rightarrow> u64 \<Rightarrow> u32 \<Rightarrow> label_type \<Rightarrow> ('s, unit) redis_op" where
  "catalog_create_typed exec now label_id app_id ty =
     catalog_create exec now (default_label\<lparr>l_id := label_id, l_type := ty, l_app_id := app_id\<rparr>)"

definition set_status :: "'s server \<Rightarrow> string \<Rightarrow> u64 \<Rightarrow> label_status \<Rightarrow> ('s, unit) redis_op" where
  "set_status exec now label_id st =
     op_bind (redis_hset exec (catalog_key label_id) ''status'' (status_to_string st)) (\<lambda>_.
     redis_hset exec (catalog_key label_id) ''updated_at'' now)"

definition get_status :: "'s server \<Rightarrow> u64 \<Rightarrow> ('s, label_status) redis_op" where
  "get_status exec label_id =
     op_bind (redis_hget exec (catalog_key label_id) ''status'') (\<lambda>v.
       case v of
         None \<Rightarrow> throw (''catalog entry not found for label '' @ u64_to_string label_id)
       | Some t \<Rightarrow> (case label_status_from_string t of Inl e \<Rightarrow> throw e | Inr st \<Rightarrow> ret st))"

definition set_flags :: "'s server \<Rightarrow> string \<Rightarrow> u64 \<Rightarrow> u32 \<Rightarrow> ('s, unit) redis_op" where
  "set_flags exec now label_id flags =
     op_bind (redis_hset exec (catalog_key label_id) ''flags'' (nat_to_string (unat flags))) (\<lambda>_.
     redis_hset exec (catalog_key label_id) ''updated_at'' now)"

definition get_flags :: "'s server \<Rightarrow> u64 \<Rightarrow> ('s, u32) redis_op" where
  "get_flags exec label_id =
     op_bind (redis_hget exec (catalog_key label_id) ''flags'') (\<lambda>v.
       case v of
         None \<Rightarrow> throw (''catalog flags not found for label '' @ u64_to_string label_id)
       | Some t \<Rightarrow> ret (case stoull t of Inl _ \<Rightarrow> 0 | Inr w \<Rightarrow> ucast w))"

definition set_error :: "'s server \<Rightarrow> string \<Rightarrow> u64 \<Rightarrow> string \<Rightarrow> ('s, unit) redis_op" where
  "set_error exec now label_id err =
     op_bind (redis_hset exec (catalog_key label_id) ''error'' err) (\<lambda>_.
     redis_hset exec (catalog_key label_id) ''updated_at'' now)"

definition get_error :: "'s server \<Rightarrow> u64 \<Rightarrow> ('s, string option) redis_op" where
  "get_error exec label_id = redis_hget exec (catalog_key label_id) ''error''"

definition set_worker :: "'s server \<Rightarrow> u64 \<Rightarrow> int \<Rightarrow> ('s, unit) redis_op" where
  "set_worker exec label_id wid = redis_hset exec (catalog_key label_id) ''worker_id'' (int_to_string wid)"

definition opt_stoi :: "string \<Rightarrow> int option" where
  "opt_stoi t = (case stoi t of Inl _ \<Rightarrow> None | Inr i \<Rightarrow> Some i)"

definition get_worker :: "'s server \<Rightarrow> u64 \<Rightarrow> ('s, int option) redis_op" where
  "get_worker exec label_id =
     op_bind (redis_hget exec (catalog_key label_id) ''worker_id'') (\<lambda>v.
       ret (case v of None \<Rightarrow> None | Some t \<Rightarrow> opt_stoi t))"

record schedule_entry =
  se_label_id :: u64
  se_worker_id :: int
  se_flags :: u32

definition schedule_commands :: "string \<Rightarrow> schedule_entry \<Rightarrow> string list list" where
  "schedule_commands now e =
     (let key = catalog_key (se_label_id e) in
      [pipeline_hset key ''status'' ''scheduled'',
       pipeline_hset key ''flags'' (nat_to_string (unat (se_flags e))),
       pipeline_hset key ''worker_id'' (int_to_string (se_worker_id e)),
       pipeline_hset key ''updated_at'' now])"

definition schedule_batch :: "'s server \<Rightarrow> string \<Rightarrow> schedule_entry list \<Rightarrow> ('s, unit) redis_op" where
  "schedule_batch exec now entries =
     (if entries = [] then ret ()
      else pipeline_exec exec (concat (map (schedule_commands now) entries)))"

subsection \<open>Locations\<close>

definition location_key :: "string \<Rightarrow> string" where
  "location_key filepath = ''labios:location:'' @ filepath"

definition offset_location_key :: "string \<Rightarrow> string" where
  "offset_location_key filepath = ''labios:olocation:'' @ filepath"

definition set_file_location :: "'s server \<Rightarrow> string \<Rightarrow> int \<Rightarrow> ('s, unit) redis_op" where
  "set_file_location exec filepath wid = redis_set exec (location_key filepath) (int_to_string wid)"

definition get_file_location :: "'s server \<Rightarrow> string \<Rightarrow> ('s, int option) redis_op" where
  "get_file_location exec filepath =
     op_bind (redis_get exec (location_key filepath)) (\<lambda>v.
       ret (case v of None \<Rightarrow> None | Some t \<Rightarrow> opt_stoi t))"

definition range_member :: "int \<Rightarrow> u64 \<Rightarrow> u64 \<Rightarrow> string" where
  "range_member wid offset len = int_to_string wid @ '':'' @ u64_to_string (offset + len)"

definition set_location :: "'s server \<Rightarrow> string \<Rightarrow> u64 \<Rightarrow> u64 \<Rightarrow> int \<Rightarrow> ('s, unit) redis_op" where
  "set_location exec filepath offset len wid =
     op_bind (redis_zadd exec (offset_location_key filepath) (of_nat (unat offset))
                (range_member wid offset len)) (\<lambda>_.
     redis_set exec (location_key filepath) (int_to_string wid))"

text \<open>The worker and exclusive end a member encodes; \<open>None\<close> where the code skips the entry.\<close>

definition parse_member :: "string \<Rightarrow> (int \<times> u64) option" where
  "parse_member m =
     (case find_char (CHR '':'') m of
        None \<Rightarrow> None
      | Some colon \<Rightarrow>
          (case stoi (take colon m) of
             Inl _ \<Rightarrow> None
           | Inr wid \<Rightarrow> (case stoull (drop (Suc colon) m) of Inl _ \<Rightarrow> None | Inr e \<Rightarrow> Some (wid, e))))"

fun first_covering :: "u64 \<Rightarrow> string list \<Rightarrow> int option" where
  "first_covering req_end [] = None"
| "first_covering req_end (m # ms) =
     (case parse_member m of
        Some (wid, e) \<Rightarrow> if req_end \<le> e then Some wid else first_covering req_end ms
      | None \<Rightarrow> first_covering req_end ms)"

definition get_location :: "'s server \<Rightarrow> string \<Rightarrow> u64 \<Rightarrow> u64 \<Rightarrow> ('s, int option) redis_op" where
  "get_location exec filepath offset len =
     (if offset = 0 \<and> len = 0 then get_file_location exec filepath
      else op_bind (redis_zrangebyscore exec (offset_location_key filepath) (of_nat 0) (of_nat (unat offset)))
        (\<lambda>ms. case first_covering (offset + len) ms of
                 Some wid \<Rightarrow> ret (Some wid)
               | None \<Rightarrow> get_file_location exec filepath))"

subsection \<open>File metadata\<close>

record file_info =
  fi_size :: u64
  fi_mtime_ms :: u64
  fi_exists :: bool

definition filemeta_key :: "string \<Rightarrow> string" where
  "filemeta_key filepath = ''labios:filemeta:'' @ filepath"

definition O_CREAT :: "32 word" where "O_CREAT = 64"
definition O_TRUNC :: "32 word" where "O_TRUNC = 512"

definition track_open :: "'s server \<Rightarrow> string \<Rightarrow> string \<Rightarrow> 32 word \<Rightarrow> ('s, unit) redis_op" where
  "track_open exec now filepath flags =
     (let key = filemeta_key filepath in
      op_bind
        (if flags AND O_CREAT \<noteq> 0
         then op_bind (redis_hset exec key ''exists'' ''1'') (\<lambda>_.
              op_bind (redis_hget exec key ''size'') (\<lambda>existing.
              op_bind (if existing = None then redis_hset exec key ''size'' ''0'' else ret ()) (\<lambda>_.
              redis_hset exec key ''mtime'' now)))
         else ret ()) (\<lambda>_.
        (if flags AND O_TRUNC \<noteq> 0
         then op_bind (redis_hset exec key ''exists'' ''1'') (\<lambda>_.
              op_bind (redis_hset exec key ''size'' ''0'') (\<lambda>_.
              redis_hset exec key ''mtime'' now))
         else ret ())))"

definition size_or_zero :: "string option \<Rightarrow> u64" where
  "size_or_zero v = (case v of None \<Rightarrow> 0 | Some t \<Rightarrow> (case stoull t of Inl _ \<Rightarrow> 0 | Inr w \<Rightarrow> w))"

definition track_write :: "'s server \<Rightarrow> string \<Rightarrow> string \<Rightarrow> u64 \<Rightarrow> u64 \<Rightarrow> ('s, unit) redis_op" where
  "track_write exec now filepath offset sz =
     (let key = filemeta_key filepath; e = offset + sz in
      op_bind (redis_hset exec key ''exists'' ''1'') (\<lambda>_.
      op_bind (redis_hget exec key ''size'') (\<lambda>cur.
      op_bind (if e > size_or_zero cur then redis_hset exec key ''size'' (u64_to_string e) else ret ()) (\<lambda>_.
      redis_hset exec key ''mtime'' now))))"

definition track_unlink :: "'s server \<Rightarrow> string \<Rightarrow> string \<Rightarrow> ('s, unit) redis_op" where
  "track_unlink exec now filepath =
     (let key = filemeta_key filepath in
      op_bind (redis_hset exec key ''exists'' ''0'') (\<lambda>_.
      op_bind (redis_hset exec key ''size'' ''0'') (\<lambda>_.
      op_bind (redis_hset exec key ''mtime'' now) (\<lambda>_.
      op_bind (redis_del exec (location_key filepath)) (\<lambda>_.
      redis_del exec (offset_location_key filepath))))))"

definition track_truncate :: "'s server \<Rightarrow> string \<Rightarrow> string \<Rightarrow> u64 \<Rightarrow> ('s, unit) redis_op" where
  "track_truncate exec now filepath new_size =
     (let key = filemeta_key filepath in
      op_bind (redis_hset exec key ''exists'' ''1'') (\<lambda>_.
      op_bind (redis_hset exec key ''size'' (u64_to_string new_size)) (\<lambda>_.
      op_bind (redis_hset exec key ''mtime'' now) (\<lambda>_.
      redis_del exec (offset_location_key filepath)))))"

definition get_file_info :: "'s server \<Rightarrow> string \<Rightarrow> ('s, file_info option) redis_op" where
  "get_file_info exec filepath =
     (let key = filemeta_key filepath in
      op_bind (redis_hget exec key ''exists'') (\<lambda>ex.
        case ex of
          None \<Rightarrow> ret None
        | Some x \<Rightarrow>
            op_bind (redis_hget exec key ''size'') (\<lambda>sz.
            op_bind (redis_hget exec key ''mtime'') (\<lambda>mt.
            ret (Some \<lparr>fi_size = size_or_zero sz, fi_mtime_ms = size_or_zero mt, fi_exists = (x = ''1'')\<rparr>)))))"

text \<open>A file's history as the calls that report it, each at its time, and what they promise.\<close>

datatype file_event = EOpen "32 word" | EWrite u64 u64 | EUnlink | ETruncate u64

fun track_event :: "'s server \<Rightarrow> string \<Rightarrow> file_event \<times> u64 \<Rightarrow> ('s, unit) redis_op" where
  "track_event exec f (EOpen flags, t) = track_open exec (u64_to_string t) f flags"
| "track_event exec f (EWrite off n, t) = track_write exec (u64_to_string t) f off n"
| "track_event exec f (EUnlink, t) = track_unlink exec (u64_to_string t) f"
| "track_event exec f (ETruncate n, t) = track_truncate exec (u64_to_string t) f n"

fun file_size :: "file_info option \<Rightarrow> u64" where
  "file_size None = 0"
| "file_size (Some i) = fi_size i"

fun file_after :: "file_event \<times> u64 \<Rightarrow> file_info option \<Rightarrow> file_info option" where
  "file_after (EOpen flags, t) m =
     (if flags AND O_TRUNC \<noteq> 0 then Some \<lparr>fi_size = 0, fi_mtime_ms = t, fi_exists = True\<rparr>
      else if flags AND O_CREAT \<noteq> 0
      then Some \<lparr>fi_size = file_size m, fi_mtime_ms = t, fi_exists = True\<rparr>
      else m)"
| "file_after (EWrite off n, t) m =
     Some \<lparr>fi_size = max (off + n) (file_size m), fi_mtime_ms = t, fi_exists = True\<rparr>"
| "file_after (EUnlink, t) m = Some \<lparr>fi_size = 0, fi_mtime_ms = t, fi_exists = False\<rparr>"
| "file_after (ETruncate n, t) m = Some \<lparr>fi_size = n, fi_mtime_ms = t, fi_exists = True\<rparr>"

subsection \<open>Label entries read back\<close>

lemma catalog_key_inj [simp]: "catalog_key a = catalog_key b \<longleftrightarrow> a = b"
  by (auto simp: catalog_key_def word_eq_iff_unsigned [where ?'a = nat])

lemma keys_differ [simp]:
  "location_key f \<noteq> offset_location_key g" "offset_location_key g \<noteq> location_key f"
  "location_key f \<noteq> filemeta_key g" "offset_location_key f \<noteq> filemeta_key g"
  "filemeta_key g \<noteq> location_key f" "filemeta_key g \<noteq> offset_location_key f"
  by (simp_all add: location_key_def offset_location_key_def filemeta_key_def)

lemma key_inj [simp]:
  "location_key f = location_key g \<longleftrightarrow> f = g" "offset_location_key f = offset_location_key g \<longleftrightarrow> f = g"
  "filemeta_key f = filemeta_key g \<longleftrightarrow> f = g"
  by (simp_all add: location_key_def offset_location_key_def filemeta_key_def)

lemma status_roundtrip [simp]: "label_status_from_string (status_to_string st) = Inr st"
  by (cases st) (simp_all add: label_status_from_string_def)

lemma opt_stoi_print [simp]: "int32 i \<Longrightarrow> opt_stoi (int_to_string i) = Some i"
  by (simp add: opt_stoi_def stoi_print int32_def)

text \<open>What scheduling one entry does to the catalog.\<close>

definition sched_effect :: "string \<Rightarrow> schedule_entry \<Rightarrow> redis_db \<Rightarrow> redis_db" where
  "sched_effect now e d =
     (let k = catalog_key (se_label_id e) in
      db_hset k ''updated_at'' now (db_hset k ''worker_id'' (int_to_string (se_worker_id e))
        (db_hset k ''flags'' (nat_to_string (unat (se_flags e))) (db_hset k ''status'' ''scheduled'' d))))"

lemma schedule_commands_effect:
  "fold (\<lambda>cmd. db_hset (cmd ! 1) (cmd ! 2) (cmd ! 3)) (concat (map (schedule_commands now) es)) d =
   fold (sched_effect now) es d"
  by (induction es arbitrary: d) (simp_all add: schedule_commands_def sched_effect_def pipeline_hset_def Let_def)

lemma sched_effect_other:
  "k \<noteq> catalog_key (se_label_id e) \<Longrightarrow> sched_effect now e d k = d k"
  by (simp add: sched_effect_def Let_def)

lemma sched_effect_hash_key [simp]: "hash_key d k \<Longrightarrow> hash_key (sched_effect now e d) k"
  by (simp add: sched_effect_def Let_def)

lemma fold_sched_other:
  "\<forall>e \<in> set es. k \<noteq> catalog_key (se_label_id e) \<Longrightarrow> fold (sched_effect now) es d k = d k"
  by (induction es arbitrary: d) (simp_all add: sched_effect_other)

lemma sched_effect_reads:
  assumes "hash_key d (catalog_key (se_label_id e))"
  shows "db_hash (sched_effect now e d) (catalog_key (se_label_id e)) ''status'' = Some ''scheduled''"
    "db_hash (sched_effect now e d) (catalog_key (se_label_id e)) ''worker_id'' = Some (int_to_string (se_worker_id e))"
    "db_hash (sched_effect now e d) (catalog_key (se_label_id e)) ''flags'' = Some (nat_to_string (unat (se_flags e)))"
  using assms by (simp_all add: sched_effect_def Let_def)

lemma db_hash_cong: "d k = d' k \<Longrightarrow> db_hash d k f = db_hash d' k f"
  by (simp add: db_hash_def)

lemma fold_sched_reads:
  assumes "distinct (map se_label_id es)" "e \<in> set es" "\<forall>e \<in> set es. hash_key d (catalog_key (se_label_id e))"
  shows "\<exists>d0. hash_key d0 (catalog_key (se_label_id e)) \<and>
     fold (sched_effect now) es d (catalog_key (se_label_id e)) =
     sched_effect now e d0 (catalog_key (se_label_id e))"
  using assms
proof (induction es arbitrary: d)
  case Nil
  then show ?case by simp
next
  case (Cons x es)
  show ?case
  proof (cases "e = x")
    case True
    have "\<forall>y \<in> set es. catalog_key (se_label_id x) \<noteq> catalog_key (se_label_id y)"
      using Cons.prems(1) by auto
    then show ?thesis using True Cons.prems(3) by (intro exI [of _ d]) (simp add: fold_sched_other)
  next
    case False
    then show ?thesis using Cons by simp
  qed
qed

context redis_server
begin

lemma yields_schedule_batch:
  "yields db (schedule_batch exec now es) d (Inr ()) (fold (sched_effect now) es d)"
proof (cases "es = []")
  case True
  then show ?thesis by (simp add: schedule_batch_def yields_ret)
next
  case False
  have "\<exists>k f v. cmd = pipeline_hset k f v" if "cmd \<in> set (concat (map (schedule_commands now) es))" for cmd
    using that by (auto simp: schedule_commands_def Let_def)
  then have "yields db (pipeline_exec exec (concat (map (schedule_commands now) es))) d (Inr ())
      (fold (\<lambda>cmd. db_hset (cmd ! 1) (cmd ! 2) (cmd ! 3)) (concat (map (schedule_commands now) es)) d)"
    by (rule yields_pipeline_hset)
  then show ?thesis
    unfolding schedule_commands_effect using False by (simp add: schedule_batch_def)
qed

lemma yields_get_status:
  "db_hash d (catalog_key i) ''status'' = Some (status_to_string st) \<Longrightarrow>
   yields db (get_status exec i) d (Inr st) d"
  unfolding get_status_def by (rule yields_bind, rule yields_hget) (simp add: yields_ret)

lemma yields_get_worker:
  "db_hash d (catalog_key i) ''worker_id'' = Some (int_to_string w) \<Longrightarrow> int32 w \<Longrightarrow>
   yields db (get_worker exec i) d (Inr (Some w)) d"
  unfolding get_worker_def
  by (rule yields_bind, rule yields_hget) (simp add: yields_ret)

lemma yields_get_flags:
  assumes "db_hash d (catalog_key i) ''flags'' = Some (nat_to_string (unat (w :: u32)))"
  shows "yields db (get_flags exec i) d (Inr w) d"
proof -
  have "unat w < 2 ^ 32" using unsigned_less [of w] by simp
  then have u: "unat (of_nat (unat w) :: u64) = unat w"
    unfolding unat_of_nat by (intro mod_less) simp
  then have "stoull (nat_to_string (unat w)) = Inr (of_nat (unat w))"
    using stoull_print [of "of_nat (unat w)"] by (simp only:)
  moreover have "ucast (of_nat (unat w) :: u64) = w"
    by (metis u of_nat_unat ucast_id)
  ultimately show ?thesis
    unfolding get_flags_def using assms
    by (intro yields_bind [OF yields_hget]) (simp add: yields_ret)
qed

lemma scheduled_reads:
  assumes "distinct (map se_label_id es)" "e \<in> set es" "int32 (se_worker_id e)"
    and "\<forall>e \<in> set es. hash_key d (catalog_key (se_label_id e))"
  shows "\<exists>d'. yields db (schedule_batch exec now es) d (Inr ()) d' \<and>
     yields db (get_status exec (se_label_id e)) d' (Inr StScheduled) d' \<and>
     yields db (get_worker exec (se_label_id e)) d' (Inr (Some (se_worker_id e))) d' \<and>
     yields db (get_flags exec (se_label_id e)) d' (Inr (se_flags e)) d'"
proof -
  let ?d = "fold (sched_effect now) es d" and ?k = "catalog_key (se_label_id e)"
  obtain d0 where d0: "hash_key d0 ?k" "?d ?k = sched_effect now e d0 ?k"
    using fold_sched_reads [OF assms(1,2,4)] by blast
  have "db_hash ?d ?k f = db_hash (sched_effect now e d0) ?k f" for f
    by (rule db_hash_cong) (rule d0(2))
  then have "db_hash ?d ?k ''status'' = Some (status_to_string StScheduled)"
    "db_hash ?d ?k ''worker_id'' = Some (int_to_string (se_worker_id e))"
    "db_hash ?d ?k ''flags'' = Some (nat_to_string (unat (se_flags e)))"
    using sched_effect_reads [OF d0(1)] by simp_all
  then show ?thesis
    using yields_schedule_batch yields_get_status yields_get_worker [OF _ assms(3)] yields_get_flags by blast
qed

end

text \<open>
  A scheduled batch is on record: on any server that keeps the documented behaviour, after
  schedule_batch every entry's label reads back as scheduled, on its worker, with its flags,
  provided the batch names each label once.
\<close>

lemma schedule_batch_recorded:
  assumes "redis_server exec db" "distinct (map se_label_id es)" "e \<in> set es" "int32 (se_worker_id e)"
    and "\<forall>e \<in> set es. hash_key (db s) (catalog_key (se_label_id e))"
  shows "let (r, s') = schedule_batch exec now es s in
     r = Inr () \<and> fst (get_status exec (se_label_id e) s') = Inr StScheduled \<and>
     fst (get_worker exec (se_label_id e) s') = Inr (Some (se_worker_id e)) \<and>
     fst (get_flags exec (se_label_id e) s') = Inr (se_flags e)"
  using redis_server.scheduled_reads [OF assms(1-5), of now]
  by (auto simp: yields_def Let_def split: prod.split)

subsection \<open>Locations\<close>

lemma parse_range_member: "int32 w \<Longrightarrow> parse_member (range_member w off len) = Some (w, off + len)"
proof -
  assume w: "int32 w"
  have "CHR '':'' \<notin> set (int_to_string w)" by (rule int_to_string_notin) simp_all
  then have "find_char (CHR '':'') (range_member w off len) = Some (length (int_to_string w))"
    using find_char_append [of "CHR '':''" "int_to_string w" "u64_to_string (off + len)"]
    by (simp add: range_member_def)
  moreover have "take (length (int_to_string w)) (range_member w off len) = int_to_string w"
    "drop (Suc (length (int_to_string w))) (range_member w off len) = u64_to_string (off + len)"
    by (simp_all add: range_member_def)
  ultimately show ?thesis using w by (simp add: parse_member_def stoi_print stoull_print int32_def)
qed

lemma first_covering_SomeD:
  "first_covering e ms = Some w \<Longrightarrow> \<exists>m \<in> set ms. \<exists>e'. parse_member m = Some (w, e') \<and> e \<le> e'"
proof (induction ms)
  case Nil
  then show ?case by simp
next
  case (Cons m ms)
  then show ?case
    by (cases "parse_member m") (auto split: prod.splits if_splits)
qed

type_synonym range_log = "(u64 \<times> u64 \<times> int) list"

definition loc_effect :: "string \<Rightarrow> u64 \<times> u64 \<times> int \<Rightarrow> redis_db \<Rightarrow> redis_db" where
  "loc_effect f = (\<lambda>(off, len, w) d.
     (db_zadd (offset_location_key f) (of_nat (unat off)) (range_member w off len) d)
       (location_key f \<mapsto> VStr (int_to_string w)))"

text \<open>Recording the ranges of a entries, in order.\<close>

definition record_locations :: "'s server \<Rightarrow> string \<Rightarrow> range_log \<Rightarrow> ('s, unit) redis_op" where
  "record_locations exec f entries = op_each (\<lambda>(off, len, w). set_location exec f off len w) entries"

text \<open>What the recorded entries say about the entries.\<close>

definition log_recorded :: "string \<Rightarrow> range_log \<Rightarrow> redis_db \<Rightarrow> bool" where
  "log_recorded f entries d \<longleftrightarrow> zset_key d (offset_location_key f) \<and>
     (\<forall>m sc. db_scores d (offset_location_key f) m = Some sc \<longrightarrow>
        (\<exists>(off, len, w) \<in> set entries. m = range_member w off len \<and> sc = of_nat (unat off))) \<and>
     db_get d (location_key f) = (if entries = [] then None else Some (int_to_string (snd (snd (last entries)))))"

lemma log_recorded_snoc:
  assumes "log_recorded f entries d"
  shows "log_recorded f (entries @ [e]) (loc_effect f e d)"
proof -
  obtain off len w where e: "e = (off, len, w)" by (cases e) auto
  have z: "zset_key d (offset_location_key f)" using assms by (simp add: log_recorded_def)
  have "zset_key (loc_effect f e d) (offset_location_key f)"
    using z by (auto simp: zset_key_def loc_effect_def e db_zadd_def split: option.splits redis_value.splits)
  moreover have "db_scores (loc_effect f e d) (offset_location_key f) m =
      (if m = range_member w off len then Some (of_nat (unat off)) else db_scores d (offset_location_key f) m)" for m
    using z by (simp add: loc_effect_def e)
  moreover have "db_get (loc_effect f e d) (location_key f) = Some (int_to_string w)"
    by (simp add: loc_effect_def e)
  ultimately show ?thesis
    using assms by (fastforce simp: log_recorded_def e)
qed

lemma log_recorded_run:
  assumes "d (offset_location_key f) = None" "d (location_key f) = None"
  shows "log_recorded f entries (fold (loc_effect f) entries d)"
proof (induction entries rule: rev_induct)
  case Nil
  show ?case using assms by (simp add: log_recorded_def zset_key_def db_scores_def db_get_def)
next
  case (snoc e entries)
  then show ?case using log_recorded_snoc by simp
qed

context redis_server
begin

lemma yields_set_location:
  "yields db (set_location exec f off len w) d (Inr ()) (loc_effect f (off, len, w) d)"
proof -
  have "unat off < 2 ^ 64" using unsigned_less [of off] by simp
  then show ?thesis
    unfolding set_location_def loc_effect_def case_prod_conv
    by (intro yields_bind [OF yields_zadd] yields_set)
qed

lemma yields_record_locations:
  "yields db (record_locations exec f entries) d (Inr ()) (fold (loc_effect f) entries d)"
  unfolding record_locations_def
  by (intro yields_each) (auto simp: yields_set_location)

lemma yields_get_file_location:
  "yields db (get_file_location exec f) d
     (Inr (case db_get d (location_key f) of None \<Rightarrow> None | Some t \<Rightarrow> opt_stoi t)) d"
  unfolding get_file_location_def by (intro yields_bind [OF yields_get] yields_ret)

lemma get_location_cases:
  assumes "off \<noteq> 0 \<or> len \<noteq> 0"
  shows "\<exists>ms. set ms = {m. \<exists>sc. db_scores (db s) (offset_location_key f) m = Some sc \<and> 0 \<le> sc \<and> sc \<le> of_nat (unat off)}
     \<and> fst (get_location exec f off len s) =
       (case first_covering (off + len) ms of
          Some w \<Rightarrow> Inr (Some w)
        | None \<Rightarrow> Inr (case db_get (db s) (location_key f) of None \<Rightarrow> None | Some t \<Rightarrow> opt_stoi t))"
proof -
  have lt: "unat off < 2 ^ 64" using unsigned_less [of off] by simp
  have z: "(0::nat) < 2 ^ 64" by simp
  obtain ms where ms: "fst (redis_zrangebyscore exec (offset_location_key f) (of_nat 0) (of_nat (unat off)) s) = Inr ms"
    "set ms = {m. \<exists>sc. db_scores (db s) (offset_location_key f) m = Some sc \<and> of_nat 0 \<le> sc \<and> sc \<le> of_nat (unat off)}"
    "sorted_wrt (\<lambda>a b. the (db_scores (db s) (offset_location_key f) a)
       \<le> the (db_scores (db s) (offset_location_key f) b)) ms"
    "db (snd (redis_zrangebyscore exec (offset_location_key f) (of_nat 0) (of_nat (unat off)) s)) = db s"
    by (rule zrange_answer [OF z lt, where k = "offset_location_key f" and s = s])
  have "fst (get_file_location exec f s') = Inr (case db_get (db s) (location_key f) of None \<Rightarrow> None | Some t \<Rightarrow> opt_stoi t)"
    if "db s' = db s" for s'
    using yields_get_file_location [of f "db s"] that by (simp add: yields_def)
  note fallback = this
  obtain s' where s': "redis_zrangebyscore exec (offset_location_key f) (of_nat 0) (of_nat (unat off)) s = (Inr ms, s')"
    "db s' = db s"
    using ms(1,4) by (metis prod.collapse)
  have "get_location exec f off len s =
      (case first_covering (off + len) ms of Some w \<Rightarrow> ret (Some w) s' | None \<Rightarrow> get_file_location exec f s')"
  proof -
    have "\<not> (off = 0 \<and> len = 0)" using assms by blast
    then show ?thesis
      unfolding get_location_def op_bind_def
      by (simp only: if_False s'(1) prod.case sum.case)
        (cases "first_covering (off + len) ms"; simp only: option.case)
  qed
  then have "fst (get_location exec f off len s) =
      (case first_covering (off + len) ms of Some w \<Rightarrow> Inr (Some w)
       | None \<Rightarrow> Inr (case db_get (db s) (location_key f) of None \<Rightarrow> None | Some t \<Rightarrow> opt_stoi t))"
    using fallback [OF s'(2)] by (cases "first_covering (off + len) ms") (simp_all add: ret_def)
  then show ?thesis using ms(2) by (intro exI [of _ ms]) simp
qed

end

text \<open>
  Location answers are never made up: on a file with no location on record, after any
  sequence of set_location calls, a worker that get_location names for a range either recorded a
  range that starts no later and ends no earlier, or is the worker of the last call.
\<close>

lemma get_location_sound:
  assumes "redis_server exec db" "\<forall>(off, len, w) \<in> set entries. int32 w"
    and "db s (offset_location_key f) = None" "db s (location_key f) = None"
    and "off \<noteq> 0 \<or> len \<noteq> 0"
    and "fst (get_location exec f off len (snd (record_locations exec f entries s))) = Inr (Some w)"
  shows "(\<exists>(o', l', w') \<in> set entries. w' = w \<and> o' \<le> off \<and> off + len \<le> o' + l') \<or>
    (entries \<noteq> [] \<and> snd (snd (last entries)) = w)"
proof -
  let ?s = "snd (record_locations exec f entries s)"
  have d: "db ?s = fold (loc_effect f) entries (db s)"
    using redis_server.yields_record_locations [OF assms(1), of f entries "db s"] by (simp add: yields_def)
  have rec: "log_recorded f entries (db ?s)" unfolding d using assms(3,4) by (rule log_recorded_run)
  obtain ms where ms: "set ms = {m. \<exists>sc. db_scores (db ?s) (offset_location_key f) m = Some sc \<and>
      0 \<le> sc \<and> sc \<le> of_nat (unat off)}"
    "fst (get_location exec f off len ?s) = (case first_covering (off + len) ms of
        Some w \<Rightarrow> Inr (Some w)
      | None \<Rightarrow> Inr (case db_get (db ?s) (location_key f) of None \<Rightarrow> None | Some t \<Rightarrow> opt_stoi t))"
    using redis_server.get_location_cases [OF assms(1,5), of ?s f] by blast
  show ?thesis
  proof (cases "first_covering (off + len) ms")
    case (Some w')
    then obtain m e where m: "m \<in> set ms" "parse_member m = Some (w, e)" "off + len \<le> e"
      using ms(2) assms(6) first_covering_SomeD by fastforce
    then obtain sc where sc: "db_scores (db ?s) (offset_location_key f) m = Some sc" "sc \<le> of_nat (unat off)"
      using ms(1) by blast
    then obtain o' l' w' where en: "(o', l', w') \<in> set entries" "m = range_member w' o' l'" "sc = of_nat (unat o')"
      using rec unfolding log_recorded_def by blast
    then have "parse_member m = Some (w', o' + l')" using assms(2) parse_range_member by blast
    then have "w' = w" "off + len \<le> o' + l'" using m by auto
    moreover have "o' \<le> off" using sc(2) unfolding en(3) of_nat_le_iff word_le_nat_alt .
    ultimately show ?thesis using en(1) by blast
  next
    case None
    then have opt: "(case db_get (db ?s) (location_key f) of None \<Rightarrow> None | Some t \<Rightarrow> opt_stoi t) = Some w"
      using ms(2) assms(6) by simp
    have "entries \<noteq> []" using rec opt by (auto simp: log_recorded_def)
    moreover have "int32 (snd (snd (last entries)))"
      using assms(2) last_in_set [OF calculation] by (cases "last entries") auto
    ultimately show ?thesis using rec opt by (simp add: log_recorded_def)
  qed
qed

text \<open>
  A recorded range can be lost: worker 1 writes [0, 10) and then [5, 10) of a file, worker 2
  writes [20, 30). The second call replaces the entry of the first (both are stored as the member
  "1:10"), so the holder of [0, 2) is answered as worker 2, which holds none of it.
\<close>

lemma location_entry_lost:
  assumes "redis_server exec db" "db s (offset_location_key f) = None" "db s (location_key f) = None"
  shows "fst (get_location exec f 0 2 (snd (record_locations exec f [(0, 10, 1), (5, 5, 1), (20, 10, 2)] s)))
    = Inr (Some 2)"
proof -
  let ?l = "[(0, 10, 1), (5, 5, 1), (20, 10, 2)] :: range_log"
  let ?s = "snd (record_locations exec f ?l s)"
  have d: "db ?s = fold (loc_effect f) ?l (db s)"
    using redis_server.yields_record_locations [OF assms(1), of f ?l "db s"] by (simp add: yields_def)
  have whole: "db_get (db ?s) (location_key f) = Some (int_to_string 2)"
    unfolding d by (simp add: loc_effect_def)
  have m: "range_member 1 5 5 = range_member 1 0 10" by (simp add: range_member_def)
  have zk: "zset_key d k \<Longrightarrow> zset_key (db_zadd k r m d) k" for d k r m
    by (auto simp: zset_key_def db_zadd_def)
  have zs: "zset_key (d(location_key f \<mapsto> v)) (offset_location_key f) = zset_key d (offset_location_key f)" for d v
    by (simp add: zset_key_def)
  have "\<not> sc \<le> 0" if "db_scores (db ?s) (offset_location_key f) m = Some sc" for m sc
  proof -
    have "zset_key (db s) (offset_location_key f)" "db_scores (db s) (offset_location_key f) x = None" for x
      using assms(2) by (simp_all add: zset_key_def db_scores_def)
    moreover have "db_scores (d(location_key f \<mapsto> VStr v)) (offset_location_key f) x =
        db_scores d (offset_location_key f) x" for d v x by simp
    ultimately show ?thesis
      using that unfolding d by (auto simp: loc_effect_def zk zs m split: if_splits)
  qed
  note none = this
  obtain ms where ms: "set ms = {m. \<exists>sc. db_scores (db ?s) (offset_location_key f) m = Some sc \<and>
      0 \<le> sc \<and> sc \<le> of_nat (unat (0 :: u64))}"
    "fst (get_location exec f 0 2 ?s) = (case first_covering (0 + 2) ms of
        Some w \<Rightarrow> Inr (Some w)
      | None \<Rightarrow> Inr (case db_get (db ?s) (location_key f) of None \<Rightarrow> None | Some t \<Rightarrow> opt_stoi t))"
    using redis_server.get_location_cases [OF assms(1), of 0 2 ?s f] by auto
  have "\<not> sc \<le> of_nat (unat (0 :: u64))" if "db_scores (db ?s) (offset_location_key f) m = Some sc" for m sc
    using none [OF that] by simp
  then have "{m. \<exists>sc. db_scores (db ?s) (offset_location_key f) m = Some sc \<and>
      0 \<le> sc \<and> sc \<le> of_nat (unat (0 :: u64))} = {}"
    by fast
  then have "set ms = {}" by (simp only: ms(1))
  then have "ms = []" by (simp only: set_empty)
  then show ?thesis using ms(2) whole by (simp add: int32_def)
qed

subsection \<open>File metadata\<close>

lemma size_or_zero_simps [simp]:
  "size_or_zero None = 0" "size_or_zero (Some (u64_to_string w)) = w" "size_or_zero (Some ''0'') = 0"
proof -
  show "size_or_zero (Some ''0'') = 0" using stoull_zero by (simp add: size_or_zero_def)
qed (use stoull_print [of w] in \<open>simp_all add: size_or_zero_def\<close>)

text \<open>The hash of a file says what the history promises.\<close>

definition meta_recorded :: "string \<Rightarrow> redis_db \<Rightarrow> file_info option \<Rightarrow> bool" where
  "meta_recorded f d m \<longleftrightarrow>
     hash_key d (filemeta_key f) \<and>
     size_or_zero (db_hash d (filemeta_key f) ''size'') = file_size m \<and>
     (case m of
        None \<Rightarrow> db_hash d (filemeta_key f) ''exists'' = None
      | Some i \<Rightarrow>
          db_hash d (filemeta_key f) ''exists'' = Some (if fi_exists i then ''1'' else ''0'') \<and>
          size_or_zero (db_hash d (filemeta_key f) ''mtime'') = fi_mtime_ms i)"

lemma meta_recorded_cong:
  "d' (filemeta_key f) = d (filemeta_key f) \<Longrightarrow> meta_recorded f d' m \<longleftrightarrow> meta_recorded f d m"
  by (cases m) (simp_all add: meta_recorded_def hash_key_def db_hash_def)

context redis_server
begin

lemma yields_if:
  "(c \<Longrightarrow> yields db m d r d1) \<Longrightarrow> (\<not> c \<Longrightarrow> yields db m' d r d2) \<Longrightarrow>
   yields db (if c then m else m') d r (if c then d1 else d2)"
  by simp

text \<open>The two steps of an open: the one for \<^verbatim>\<open>O_CREAT\<close>, then the one for \<^verbatim>\<open>O_TRUNC\<close>.\<close>

lemma yields_track_open:
  fixes flags :: "32 word" and d :: redis_db and f now :: string
  defines "d1 \<equiv> db_hset (filemeta_key f) ''exists'' ''1'' d"
  defines "d2 \<equiv> (if flags AND O_CREAT \<noteq> 0
     then db_hset (filemeta_key f) ''mtime'' now
       (if db_hash d1 (filemeta_key f) ''size'' = None then db_hset (filemeta_key f) ''size'' ''0'' d1 else d1)
     else d)"
  shows "yields db (track_open exec now f flags) d (Inr ())
      (if flags AND O_TRUNC \<noteq> 0
       then db_hset (filemeta_key f) ''mtime'' now
         (db_hset (filemeta_key f) ''size'' ''0'' (db_hset (filemeta_key f) ''exists'' ''1'' d2)) else d2)"
  unfolding track_open_def Let_def
proof (rule yields_bind [where x = "()" and d' = d2], goal_cases)
  case 1
  show ?case
    unfolding d2_def
    by (rule yields_if, rule yields_bind [OF yields_hset], fold d1_def, rule yields_bind [OF yields_hget],
        rule yields_bind, rule yields_if, rule yields_hset, rule yields_ret, rule yields_hset, rule yields_ret)
next
  case 2
  show ?case
    by (rule yields_if, rule yields_bind [OF yields_hset], rule yields_bind [OF yields_hset], rule yields_hset,
        rule yields_ret)
qed

lemma yields_track_write:
  fixes f :: string
  defines "k \<equiv> filemeta_key f"
  shows "yields db (track_write exec now f off n) d (Inr ())
    (db_hset k ''mtime'' now
       (if off + n > size_or_zero (db_hash (db_hset k ''exists'' ''1'' d) k ''size'')
        then db_hset k ''size'' (u64_to_string (off + n)) (db_hset k ''exists'' ''1'' d)
        else db_hset k ''exists'' ''1'' d))"
  unfolding track_write_def Let_def k_def
  by (rule yields_bind [OF yields_hset], rule yields_bind [OF yields_hget], rule yields_bind,
      rule yields_if, rule yields_hset, rule yields_ret, rule yields_hset)

lemma yields_track_unlink:
  "yields db (track_unlink exec now f) d (Inr ())
    ((db_hset (filemeta_key f) ''mtime'' now (db_hset (filemeta_key f) ''size'' ''0''
       (db_hset (filemeta_key f) ''exists'' ''0'' d))) (location_key f := None, offset_location_key f := None))"
  unfolding track_unlink_def Let_def
  by (intro yields_bind [OF yields_hset] yields_bind [OF yields_del] yields_del)

lemma yields_track_truncate:
  "yields db (track_truncate exec now f n) d (Inr ())
    ((db_hset (filemeta_key f) ''mtime'' now (db_hset (filemeta_key f) ''size'' (u64_to_string n)
       (db_hset (filemeta_key f) ''exists'' ''1'' d))) (offset_location_key f := None))"
  unfolding track_truncate_def Let_def
  by (intro yields_bind [OF yields_hset] yields_del)

lemma yields_get_file_info:
  "meta_recorded f d m \<Longrightarrow> yields db (get_file_info exec f) d (Inr m) d"
  unfolding get_file_info_def Let_def
proof (rule yields_bind [OF yields_hget])
  assume m: "meta_recorded f d m"
  then show "yields db
     (case db_hash d (filemeta_key f) ''exists'' of
        None \<Rightarrow> ret None
      | Some x \<Rightarrow>
          op_bind (redis_hget exec (filemeta_key f) ''size'') (\<lambda>sz.
          op_bind (redis_hget exec (filemeta_key f) ''mtime'') (\<lambda>mt.
          ret (Some \<lparr>fi_size = size_or_zero sz, fi_mtime_ms = size_or_zero mt, fi_exists = (x = ''1'')\<rparr>))))
     d (Inr m) d"
  proof (cases m)
    case None
    then show ?thesis using m by (simp add: meta_recorded_def yields_ret)
  next
    case (Some i)
    then have ex: "db_hash d (filemeta_key f) ''exists'' = Some (if fi_exists i then ''1'' else ''0'')"
      using m by (simp add: meta_recorded_def)
    show ?thesis
      unfolding ex option.case
      by (rule yields_bind [OF yields_hget], rule yields_bind [OF yields_hget], rule yields_retI)
        (use m Some in \<open>simp add: meta_recorded_def\<close>)
  qed
qed

lemma yields_track_event:
  assumes "meta_recorded f d m"
  shows "\<exists>d'. yields db (track_event exec f e) d (Inr ()) d' \<and> meta_recorded f d' (file_after e m) \<and>
    (\<forall>g. g \<noteq> f \<longrightarrow> d' (filemeta_key g) = d (filemeta_key g))"
proof -
  obtain ev t where e: "e = (ev, t)" by (cases e)
  have h: "hash_key d (filemeta_key f)"
    "size_or_zero (db_hash d (filemeta_key f) ''size'') = file_size m"
    using assms by (simp_all add: meta_recorded_def)
  show ?thesis
  proof (cases ev)
    case (EOpen flags)
    define d1 where "d1 = (if flags AND O_CREAT \<noteq> 0
      then db_hset (filemeta_key f) ''mtime'' (u64_to_string t)
        (if db_hash (db_hset (filemeta_key f) ''exists'' ''1'' d) (filemeta_key f) ''size'' = None
         then db_hset (filemeta_key f) ''size'' ''0'' (db_hset (filemeta_key f) ''exists'' ''1'' d)
         else db_hset (filemeta_key f) ''exists'' ''1'' d)
      else d)"
    note y = yields_track_open [of "u64_to_string t" f flags d, folded d1_def]
    have h1: "hash_key d1 (filemeta_key f)" using h(1) by (simp add: d1_def)
    have frame: "d1 (filemeta_key g) = d (filemeta_key g)" if "g \<noteq> f" for g using that by (simp add: d1_def)
    show ?thesis
    proof (cases "flags AND O_TRUNC \<noteq> 0")
      case True
      then show ?thesis using y h1 EOpen e frame by (auto simp: meta_recorded_def)
    next
      case False
      then show ?thesis
        using y EOpen e assms h by (intro exI [of _ d1]) (auto simp: meta_recorded_def d1_def)
    qed
  next
    case (EWrite off n)
    then show ?thesis
      using yields_track_write [of "u64_to_string t" f off n d] h e
      by (intro exI conjI, simp only: track_event.simps e, assumption?)
        (auto simp: meta_recorded_def max_def)
  next
    case EUnlink
    then show ?thesis
      using yields_track_unlink [of "u64_to_string t" f d] h e
      by (intro exI conjI, simp only: track_event.simps e)
        (auto simp: meta_recorded_def)
  next
    case (ETruncate n)
    then show ?thesis
      using yields_track_truncate [of "u64_to_string t" f n d] h e
      by (intro exI conjI, simp only: track_event.simps e)
        (auto simp: meta_recorded_def)
  qed
qed

lemma yields_track_events:
  assumes "meta_recorded f d m"
  shows "\<exists>d'. yields db (op_each (track_event exec f) es) d (Inr ()) d' \<and> meta_recorded f d' (fold file_after es m)"
  using assms
proof (induction es arbitrary: d m)
  case Nil
  then show ?case by (auto intro: yields_ret)
next
  case (Cons e es)
  obtain d1 where "yields db (track_event exec f e) d (Inr ()) d1" "meta_recorded f d1 (file_after e m)"
    using yields_track_event [OF Cons.prems] by blast
  then show ?case using Cons.IH [of d1 "file_after e m"] by (auto intro: yields_bind)
qed

end

text \<open>
  C28: File metadata follows the file's history: after any sequence of reported opens, writes,
  unlinks and truncations of a file the catalog had nothing on, get_file_info answers what the
  sequence means - nothing before the first creating call, then the size (grown by writes, reset by
  O_TRUNC, unlink and truncate, with the 64-bit end of a write), the time of the last effective
  call and whether the file exists.
\<close>

theorem file_history_recorded:
  assumes "redis_server exec db" "db s (filemeta_key f) = None"
  shows "fst (get_file_info exec f (snd (op_each (track_event exec f) es s))) = Inr (fold file_after es None)"
proof -
  have "meta_recorded f (db s) None"
    using assms(2) by (simp add: meta_recorded_def hash_key_def db_hash_def)
  from redis_server.yields_track_events [OF assms(1) this, of es]
  obtain d' where "yields db (op_each (track_event exec f) es) (db s) (Inr ()) d'"
    "meta_recorded f d' (fold file_after es None)" by blast
  then show ?thesis
    using redis_server.yields_get_file_info [OF assms(1), of f d'] by (simp add: yields_def)
qed

theorem file_history_recorded_witness:
  "fst (get_file_info ref_exec ''f'' (snd (op_each (track_event ref_exec ''f'')
     [(EOpen 64, 1), (EWrite 100 28, 2), (EWrite 0 8, 3), (EOpen 0, 4)] [])))
   = Inr (Some \<lparr>fi_size = 128, fi_mtime_ms = 3, fi_exists = True\<rparr>)"
  using file_history_recorded [OF ref.redis_server_axioms, of "[]" "''f''"
      "[(EOpen 64, 1), (EWrite 100 28, 2), (EWrite 0 8, 3), (EOpen 0, 4)]"]
  by (simp add: ref_db_def O_CREAT_def O_TRUNC_def max_def)

end
