(* ===== verification/Content.thy ===== *)
theory Content
  imports Redis
begin

text \<open>
  \<^verbatim>\<open>ContentManager\<close> (\<^verbatim>\<open>src/labios/content_manager.cpp\<close>): the warehouse of staged label data
  in Redis, and the small-I/O cache that buffers writes per file descriptor until they make a
  full label. A cache is a \<^verbatim>\<open>std::map\<close> from offsets to bytes, kept as an association list sorted
  by offset; the map of caches is an association list in insertion order (its iteration order is
  unspecified in C++). Every method holds the cache lock, so a method is one function. The flush
  timer calls \<open>flush_all\<close>; the thread itself is not modelled.
\<close>

subsection \<open>Warehouse\<close>

definition data_key :: "u64 \<Rightarrow> u32 \<Rightarrow> string \<Rightarrow> string" where
  "data_key label_id app_id room_id =
     (if room_id \<noteq> [] then ''labios:room:'' @ room_id @ '':'' @ u64_to_string label_id
      else if app_id \<noteq> 0
      then ''labios:data:'' @ nat_to_string (unat app_id) @ '':'' @ u64_to_string label_id
      else ''labios:data:'' @ u64_to_string label_id)"

lemma data_key_inj [simp]: "data_key i 0 [] = data_key j 0 [] \<longleftrightarrow> i = j"
  by (simp add: data_key_def word_eq_iff_unsigned [where ?'a = nat])

definition stage :: "'s server \<Rightarrow> u64 \<Rightarrow> bytes \<Rightarrow> u32 \<Rightarrow> string \<Rightarrow> ('s, unit) redis_op" where
  "stage exec label_id data app_id room_id = redis_set_binary exec (data_key label_id app_id room_id) data"

definition retrieve :: "'s server \<Rightarrow> u64 \<Rightarrow> u32 \<Rightarrow> string \<Rightarrow> ('s, bytes) redis_op" where
  "retrieve exec label_id app_id room_id = redis_get_binary exec (data_key label_id app_id room_id)"

definition content_remove :: "'s server \<Rightarrow> u64 \<Rightarrow> u32 \<Rightarrow> string \<Rightarrow> ('s, unit) redis_op" where
  "content_remove exec label_id app_id room_id = redis_del exec (data_key label_id app_id room_id)"

definition exists_key :: "'s server \<Rightarrow> string \<Rightarrow> ('s, bool) redis_op" where
  "exists_key exec key = op_bind (redis_get exec key) (\<lambda>v. ret (v \<noteq> None))"

definition content_exists :: "'s server \<Rightarrow> u64 \<Rightarrow> u32 \<Rightarrow> string \<Rightarrow> ('s, bool) redis_op" where
  "content_exists exec label_id app_id room_id = exists_key exec (data_key label_id app_id room_id)"

definition retrieve_key :: "'s server \<Rightarrow> string \<Rightarrow> ('s, bytes) redis_op" where
  "retrieve_key exec key = redis_get_binary exec key"

definition remove_key :: "'s server \<Rightarrow> string \<Rightarrow> ('s, unit) redis_op" where
  "remove_key exec key = redis_del exec key"

subsection \<open>Small-I/O cache\<close>

datatype read_policy = ReadThrough | WriteOnly

definition read_policy_from_string :: "string \<Rightarrow> read_policy" where
  "read_policy_from_string s = (if s = ''write-only'' then WriteOnly else ReadThrough)"

record flush_region =
  fr_filepath :: string
  fr_offset :: u64
  fr_data :: bytes

type_synonym regions = "(u64 \<times> bytes) list"

record fd_cache =
  fc_filepath :: string
  fc_policy :: read_policy
  fc_regions :: regions
  fc_total :: u64

text \<open>What \<^verbatim>\<open>caches_[fd]\<close> creates.\<close>

definition new_cache :: fd_cache where
  "new_cache = \<lparr>fc_filepath = [], fc_policy = ReadThrough, fc_regions = [], fc_total = 0\<rparr>"

record content_manager =
  min_label_size :: u64
  default_policy :: read_policy
  caches :: "(int \<times> fd_cache) list"

text \<open>\<^verbatim>\<open>regions[offset].assign(...)\<close>\<close>

fun put_region :: "u64 \<Rightarrow> bytes \<Rightarrow> regions \<Rightarrow> regions" where
  "put_region k v [] = [(k, v)]"
| "put_region k v ((k', v') # m) =
     (if k < k' then (k, v) # (k', v') # m
      else if k = k' then (k, v) # m
      else (k', v') # put_region k v m)"

definition flush_locked :: "fd_cache \<Rightarrow> flush_region list \<times> fd_cache" where
  "flush_locked c =
     (map (\<lambda>(off, d). \<lparr>fr_filepath = fc_filepath c, fr_offset = off, fr_data = d\<rparr>) (fc_regions c),
      c\<lparr>fc_regions := [], fc_total := 0\<rparr>)"

text \<open>The body of \<^verbatim>\<open>cache_write\<close> on the descriptor's cache.\<close>

definition write_cache ::
    "u64 \<Rightarrow> read_policy \<Rightarrow> string \<Rightarrow> u64 \<Rightarrow> bytes \<Rightarrow> fd_cache \<Rightarrow> flush_region list \<times> fd_cache" where
  "write_cache min_size policy path offset data c0 =
     (let c1 = (if fc_filepath c0 = [] then c0\<lparr>fc_filepath := path, fc_policy := policy\<rparr> else c0);
          old = (case map_of (fc_regions c1) offset of None \<Rightarrow> 0 | Some d \<Rightarrow> of_nat (length d));
          c2 = c1\<lparr>fc_regions := put_region offset data (fc_regions c1),
                  fc_total := fc_total c1 - old + of_nat (length data)\<rparr>
      in if fc_total c2 \<ge> min_size then flush_locked c2 else ([], c2))"

definition cache_of :: "int \<Rightarrow> content_manager \<Rightarrow> fd_cache" where
  "cache_of fd m = (case map_of (caches m) fd of None \<Rightarrow> new_cache | Some c \<Rightarrow> c)"

definition cache_write ::
    "int \<Rightarrow> string \<Rightarrow> u64 \<Rightarrow> bytes \<Rightarrow> content_manager \<Rightarrow> flush_region list \<times> content_manager" where
  "cache_write fd path offset data m =
     (let (out, c) = write_cache (min_label_size m) (default_policy m) path offset data (cache_of fd m)
      in (out, m\<lparr>caches := AList.update fd c (caches m)\<rparr>))"

text \<open>\<^verbatim>\<open>memcpy\<close> into the result.\<close>

definition splice :: "bytes \<Rightarrow> nat \<Rightarrow> bytes \<Rightarrow> bytes" where
  "splice result pos bs = take pos result @ bs @ drop (pos + length bs) result"

text \<open>From the last region that starts at or before the offset, or the first one if none does.\<close>

fun region_start :: "u64 \<Rightarrow> regions \<Rightarrow> regions" where
  "region_start offset (r1 # r2 # rs) =
     (if fst r2 \<le> offset then region_start offset (r2 # rs) else r1 # r2 # rs)"
| "region_start offset rs = rs"

fun read_regions :: "u64 \<Rightarrow> u64 \<Rightarrow> regions \<Rightarrow> bytes \<times> u64 \<Rightarrow> bytes \<times> u64" where
  "read_regions offset req_end [] acc = acc"
| "read_regions offset req_end ((start, d) # rs) (result, covered) =
     (let reg_end = start + of_nat (length d) in
      if start \<ge> req_end then (result, covered)
      else if reg_end \<le> offset then read_regions offset req_end rs (result, covered)
      else
        (let ov_start = max start offset; ov_end = min reg_end req_end; ov_len = ov_end - ov_start
         in read_regions offset req_end rs
              (splice result (unat (ov_start - offset))
                 (take (unat ov_len) (drop (unat (ov_start - start)) d)),
               covered + ov_len)))"

definition cache_read :: "int \<Rightarrow> u64 \<Rightarrow> u64 \<Rightarrow> content_manager \<Rightarrow> bytes option" where
  "cache_read fd offset sz m =
     (case map_of (caches m) fd of
        None \<Rightarrow> None
      | Some c \<Rightarrow>
          if fc_policy c = WriteOnly then None
          else
            (let (result, covered) = read_regions offset (offset + sz) (region_start offset (fc_regions c))
                                       (replicate (unat sz) 0, 0)
             in if covered = 0 then None else if covered < sz then None else Some result))"

definition content_flush :: "int \<Rightarrow> content_manager \<Rightarrow> flush_region list \<times> content_manager" where
  "content_flush fd m =
     (case map_of (caches m) fd of
        None \<Rightarrow> ([], m)
      | Some c \<Rightarrow> (let (out, c') = flush_locked c in (out, m\<lparr>caches := AList.update fd c' (caches m)\<rparr>)))"

fun flush_each :: "(int \<times> fd_cache) list \<Rightarrow> (int \<times> flush_region list) list \<times> (int \<times> fd_cache) list" where
  "flush_each [] = ([], [])"
| "flush_each ((fd, c) # cs) =
     (let (outs, cs') = flush_each cs in
      if fc_total c > 0 then (let (out, c') = flush_locked c in ((fd, out) # outs, (fd, c') # cs'))
      else (outs, (fd, c) # cs'))"

definition flush_all :: "content_manager \<Rightarrow> (int \<times> flush_region list) list \<times> content_manager" where
  "flush_all m = (let (outs, cs) = flush_each (caches m) in (outs, m\<lparr>caches := cs\<rparr>))"

definition evict :: "int \<Rightarrow> content_manager \<Rightarrow> content_manager" where
  "evict fd m = m\<lparr>caches := AList.delete fd (caches m)\<rparr>"

definition set_read_policy :: "int \<Rightarrow> read_policy \<Rightarrow> content_manager \<Rightarrow> content_manager" where
  "set_read_policy fd policy m = m\<lparr>caches := AList.update fd (cache_of fd m\<lparr>fc_policy := policy\<rparr>) (caches m)\<rparr>"

subsection \<open>The bytes a cache holds\<close>

definition region_bytes :: "u64 \<times> bytes \<Rightarrow> nat \<rightharpoonup> u8" where
  "region_bytes r p =
     (if unat (fst r) \<le> p \<and> p < unat (fst r) + length (snd r) then Some (snd r ! (p - unat (fst r))) else None)"

text \<open>A file, or what a cache says of it, after its regions are written in order.\<close>

definition write_regions :: "regions \<Rightarrow> (nat \<rightharpoonup> u8) \<Rightarrow> nat \<rightharpoonup> u8" where
  "write_regions rs f = fold (\<lambda>r f. f ++ region_bytes r) rs f"

text \<open>Regions that end within 64 bits and lie one after the other.\<close>

definition region_fits :: "u64 \<times> bytes \<Rightarrow> bool" where
  "region_fits r \<longleftrightarrow> snd r \<noteq> [] \<and> unat (fst r) + length (snd r) < 2 ^ 64"

definition regions_apart :: "regions \<Rightarrow> bool" where
  "regions_apart rs \<longleftrightarrow>
     list_all region_fits rs \<and>
     sorted_wrt (\<lambda>r r'. unat (fst r) + length (snd r) \<le> unat (fst r')) rs"

lemma regions_apart_Cons:
  "regions_apart (r # rs) \<longleftrightarrow> region_fits r \<and> (\<forall>r' \<in> set rs. unat (fst r) + length (snd r) \<le> unat (fst r')) \<and>
     regions_apart rs"
  by (auto simp: regions_apart_def)

lemma unat_end: "region_fits (s, d) \<Longrightarrow> unat (s + of_nat (length d)) = unat s + length d"
  unfolding region_fits_def
  by (simp add: unat_word_ariths unat_of_nat)

lemma region_bytes_Some:
  "region_bytes r p \<noteq> None \<longleftrightarrow> unat (fst r) \<le> p \<and> p < unat (fst r) + length (snd r)"
  by (simp add: region_bytes_def)

lemma write_regions_Nil [simp]: "write_regions [] f = f"
  by (simp add: write_regions_def)

lemma write_regions_Cons: "write_regions (r # rs) f = write_regions rs (f ++ region_bytes r)"
  by (simp add: write_regions_def)

lemma write_regions_before:
  "\<forall>r \<in> set rs. p < unat (fst r) \<Longrightarrow> write_regions rs f p = f p"
  by (induction rs arbitrary: f)
    (simp_all add: write_regions_Cons map_add_def region_bytes_def)

lemma splice_length: "pos + length bs \<le> length result \<Longrightarrow> length (splice result pos bs) = length result"
  by (simp add: splice_def)

lemma splice_nth:
  assumes "pos + length bs \<le> length result" "i < length result"
  shows "splice result pos bs ! i = (if pos \<le> i \<and> i < pos + length bs then bs ! (i - pos) else result ! i)"
  using assms by (auto simp: splice_def nth_append min_def)

lemma write_regions_cong: "f p = g p \<Longrightarrow> write_regions rs f p = write_regions rs g p"
proof (induction rs arbitrary: f g)
  case Nil
  then show ?case by simp
next
  case (Cons r rs)
  have "(f ++ region_bytes r) p = (g ++ region_bytes r) p"
    unfolding map_add_def by (simp only: Cons.prems)
  then show ?case unfolding write_regions_Cons by (rule Cons.IH)
qed

text \<open>The window of a file a read asks for, and how many bytes of it are there.\<close>

definition window :: "nat \<Rightarrow> nat \<Rightarrow> (nat \<rightharpoonup> u8) \<Rightarrow> bytes" where
  "window off n f = map (\<lambda>i. case f (off + i) of Some b \<Rightarrow> b | None \<Rightarrow> 0) [0..<n]"

definition present :: "nat \<Rightarrow> nat \<Rightarrow> (nat \<rightharpoonup> u8) \<Rightarrow> nat" where
  "present off n f = card {i. i < n \<and> f (off + i) \<noteq> None}"

lemma window_cong: "\<forall>p. off \<le> p \<and> p < off + n \<longrightarrow> f p = g p \<Longrightarrow> window off n f = window off n g"
  by (auto simp: window_def)

lemma present_cong:
  assumes "\<forall>p. off \<le> p \<and> p < off + n \<longrightarrow> f p = g p"
  shows "present off n f = present off n g"
proof -
  have "{i. i < n \<and> f (off + i) \<noteq> None} = {i. i < n \<and> g (off + i) \<noteq> None}" using assms by auto
  then show ?thesis by (simp only: present_def)
qed

lemma length_window [simp]: "length (window off n f) = n"
  by (simp add: window_def)

lemma present_le: "present off n f \<le> n"
proof -
  have "card {i. i < n \<and> f (off + i) \<noteq> None} \<le> card {..<n}" by (intro card_mono) auto
  then show ?thesis by (simp add: present_def)
qed

lemma present_all: "present off n f = n \<longleftrightarrow> (\<forall>i < n. f (off + i) \<noteq> None)"
proof
  assume "present off n f = n"
  then have "{i. i < n \<and> f (off + i) \<noteq> None} = {..<n}"
    by (intro card_subset_eq) (auto simp: present_def)
  then show "\<forall>i < n. f (off + i) \<noteq> None" by auto
next
  assume "\<forall>i < n. f (off + i) \<noteq> None"
  then have "{i. i < n \<and> f (off + i) \<noteq> None} = {..<n}" by auto
  then show "present off n f = n" by (simp add: present_def)
qed

text \<open>Adding a region that overlaps the window on \<open>[a, b)\<close>, where nothing was.\<close>

lemma window_add:
  assumes "off \<le> a" "a < b" "b \<le> off + n"
    and "\<forall>p. off \<le> p \<and> p < off + n \<longrightarrow> (region_bytes (s, d) p \<noteq> None \<longleftrightarrow> a \<le> p \<and> p < b)"
    and "unat s \<le> a" "b \<le> unat s + length d"
  shows "window off n (f ++ region_bytes (s, d)) =
     splice (window off n f) (a - off) (take (b - a) (drop (a - unat s) d))"
proof (rule nth_equalityI)
  have l: "length (take (b - a) (drop (a - unat s) d)) = b - a" using assms by simp
  then show "length (window off n (f ++ region_bytes (s, d))) =
      length (splice (window off n f) (a - off) (take (b - a) (drop (a - unat s) d)))"
    using assms by (simp add: splice_length)
  fix i
  assume "i < length (window off n (f ++ region_bytes (s, d)))"
  then have i: "i < n" by simp
  have "splice (window off n f) (a - off) (take (b - a) (drop (a - unat s) d)) ! i =
      (if a \<le> off + i \<and> off + i < b then d ! (off + i - unat s) else window off n f ! i)"
    using assms i l by (subst splice_nth) (auto simp: le_diff_conv2 nth_append intro!: arg_cong [of _ _ "(!) d"])
  moreover have "region_bytes (s, d) (off + i) = (if a \<le> off + i \<and> off + i < b then Some (d ! (off + i - unat s)) else None)"
    using assms(4) [rule_format, of "off + i"] i by (auto simp: region_bytes_def split: if_splits)
  ultimately show "window off n (f ++ region_bytes (s, d)) ! i =
      splice (window off n f) (a - off) (take (b - a) (drop (a - unat s) d)) ! i"
    using i by (simp add: window_def map_add_def)
qed

lemma present_add:
  assumes "off \<le> a" "a < b" "b \<le> off + n"
    and "\<forall>p. off \<le> p \<and> p < off + n \<longrightarrow> (g p \<noteq> None \<longleftrightarrow> a \<le> p \<and> p < b)"
    and "\<forall>p. a \<le> p \<and> p < b \<longrightarrow> f p = None"
  shows "present off n (f ++ g) = present off n f + (b - a)"
proof -
  have "{i. i < n \<and> (f ++ g) (off + i) \<noteq> None} = {i. i < n \<and> f (off + i) \<noteq> None} \<union> {a - off..<b - off}"
    (is "?l = ?r")
  proof (rule set_eqI)
    fix i
    have "i \<in> {a - off..<b - off} \<longleftrightarrow> a \<le> off + i \<and> off + i < b" using assms(1) by auto
    moreover have "(f ++ g) (off + i) \<noteq> None \<longleftrightarrow> f (off + i) \<noteq> None \<or> g (off + i) \<noteq> None"
      by (cases "g (off + i)") (simp_all add: map_add_def)
    moreover have "i < n \<Longrightarrow> g (off + i) \<noteq> None \<longleftrightarrow> a \<le> off + i \<and> off + i < b"
      using assms(4) by simp
    ultimately show "i \<in> ?l \<longleftrightarrow> i \<in> ?r"
      using assms(3) unfolding Un_iff mem_Collect_eq by (metis add_less_cancel_left less_le_trans)
  qed
  moreover have "{i. i < n \<and> f (off + i) \<noteq> None} \<inter> {a - off..<b - off} = {}"
  proof -
    have "f (off + i) = None" if "i \<in> {a - off..<b - off}" for i
    proof -
      have "a \<le> off + i" "off + i < b" using that assms(1) by auto
      then show ?thesis using assms(5) by blast
    qed
    then show ?thesis unfolding disjoint_iff mem_Collect_eq by metis
  qed
  ultimately show ?thesis
    using assms(1) by (simp add: present_def card_Un_disjoint)
qed

lemma unat_add_fits: "unat (a :: u64) + unat b < 2 ^ 64 \<Longrightarrow> unat (a + b) = unat a + unat b"
  by (simp add: unat_word_ariths)

lemma unat_max: "unat (max (a :: u64) b) = max (unat a) (unat b)"
  by (simp add: max_def word_le_nat_alt)

lemma unat_min: "unat (min (a :: u64) b) = min (unat a) (unat b)"
  by (simp add: min_def word_le_nat_alt)

text \<open>The loop of \<^verbatim>\<open>cache_read\<close>, from what the regions before have put into the result.\<close>

lemma read_regions_exact:
  assumes "regions_apart rs" "unat off + unat sz < 2 ^ 64" "sz \<noteq> 0"
    and "\<forall>p. unat off \<le> p \<and> p < unat off + unat sz \<and> f p \<noteq> None \<longrightarrow> (\<forall>r \<in> set rs. p < unat (fst r))"
  shows "read_regions off (off + sz) rs (window (unat off) (unat sz) f, of_nat (present (unat off) (unat sz) f)) =
     (window (unat off) (unat sz) (write_regions rs f), of_nat (present (unat off) (unat sz) (write_regions rs f)))"
  using assms
proof (induction rs arbitrary: f)
  case Nil
  then show ?case by simp
next
  case (Cons r rs)
  obtain s d where r: "r = (s, d)" by (cases r)
  let ?o = "unat off" and ?n = "unat sz" and ?g = "f ++ region_bytes (s, d)"
  have fits: "region_fits (s, d)" and after: "\<forall>r' \<in> set rs. unat s + length d \<le> unat (fst r')"
    and apart: "regions_apart rs"
    using Cons.prems(1) by (simp_all add: regions_apart_Cons r)
  have re: "unat (s + of_nat (length d)) = unat s + length d" by (rule unat_end [OF fits])
  have rq: "unat (off + sz) = ?o + ?n" by (rule unat_add_fits [OF Cons.prems(2)])
  have nonempty: "0 < length d" using fits by (simp add: region_fits_def)
  have below: "\<forall>p. ?o \<le> p \<and> p < ?o + ?n \<and> ?g p \<noteq> None \<longrightarrow> (\<forall>r \<in> set rs. p < unat (fst r))"
  proof (intro allI impI ballI)
    fix p r'
    assume p: "?o \<le> p \<and> p < ?o + ?n \<and> ?g p \<noteq> None" and r': "r' \<in> set rs"
    then consider "f p \<noteq> None" | "region_bytes (s, d) p \<noteq> None"
      by (cases "region_bytes (s, d) p") (auto simp: map_add_def)
    then show "p < unat (fst r')"
    proof cases
      case 1
      then show ?thesis using Cons.prems(4) p r' by auto
    next
      case 2
      then have "p < unat s + length d" unfolding region_bytes_Some by simp
      then show ?thesis using after r' by (meson less_le_trans)
    qed
  qed
  show ?case
  proof (cases "off + sz \<le> s")
    case True
    then have "\<forall>r' \<in> set ((s, d) # rs). ?o + ?n \<le> unat (fst r')"
      using rq after by (auto simp: word_le_nat_alt)
    then have "\<forall>p. ?o \<le> p \<and> p < ?o + ?n \<longrightarrow> write_regions ((s, d) # rs) f p = f p"
      by (auto intro!: write_regions_before intro: less_le_trans dest: bspec)
    then show ?thesis
      using True window_cong [of ?o ?n "write_regions ((s, d) # rs) f" f]
        present_cong [of ?o ?n "write_regions ((s, d) # rs) f" f] by (simp add: r)
  next
    case False
    then have lt: "unat s < ?o + ?n" using rq by (simp add: word_le_nat_alt)
    show ?thesis
    proof (cases "s + of_nat (length d) \<le> off")
      case True
      then have "unat s + length d \<le> ?o" using re by (simp add: word_le_nat_alt)
      then have same: "\<forall>p. ?o \<le> p \<and> p < ?o + ?n \<longrightarrow> ?g p = f p"
        by (auto simp: map_add_def region_bytes_def)
      show ?thesis
        using False True Cons.IH [OF apart Cons.prems(2,3) below] window_cong [OF same] present_cong [OF same]
        by (simp add: r write_regions_Cons)
    next
      case overlap: False
      define a where "a = max (unat s) ?o"
      define b where "b = min (unat s + length d) (?o + ?n)"
      have lo: "?o < unat s + length d" using overlap re by (simp add: word_le_nat_alt)
      have ab: "?o \<le> a" "a < b" "b \<le> ?o + ?n" "unat s \<le> a" "b \<le> unat s + length d"
        using lt lo nonempty Cons.prems(3) unat_gt_0 [of sz] \<open>\<not> off + sz \<le> s\<close> by (auto simp: a_def b_def)
      have dom: "\<forall>p. ?o \<le> p \<and> p < ?o + ?n \<longrightarrow> (region_bytes (s, d) p \<noteq> None \<longleftrightarrow> a \<le> p \<and> p < b)"
        by (simp only: region_bytes_Some fst_conv snd_conv a_def b_def) auto
      have free: "\<forall>p. a \<le> p \<and> p < b \<longrightarrow> f p = None"
      proof (intro allI impI, rule ccontr)
        fix p
        assume p: "a \<le> p \<and> p < b" and "f p \<noteq> None"
        then have "p < unat s" using Cons.prems(4) [rule_format, of p "(s, d)"] ab by (simp add: r)
        then show False using p ab(4) by simp
      qed
      have am: "unat (max s off) = a" and bm: "unat (min (s + of_nat (length d)) (off + sz)) = b"
        by (simp_all add: unat_max unat_min a_def b_def re rq)
      have le: "max s off \<le> min (s + of_nat (length d)) (off + sz)"
        using am bm ab(2) by (simp add: word_le_nat_alt)
      have len: "unat (min (s + of_nat (length d)) (off + sz) - max s off) = b - a"
        using le am bm by (simp add: unat_sub)
      have pos: "unat (max s off - off) = a - ?o" "unat (max s off - s) = a - unat s"
        using am by (simp_all add: unat_sub)
      have "min (s + of_nat (length d)) (off + sz) - max s off = of_nat (b - a)"
        using len by (metis of_nat_unat ucast_id)
      then have count: "of_nat (present ?o ?n f) + (min (s + of_nat (length d)) (off + sz) - max s off) =
          (of_nat (present ?o ?n ?g) :: u64)"
        using present_add [OF ab(1-3) dom free] by simp
      have win: "splice (window ?o ?n f) (unat (max s off - off))
          (take (unat (min (s + of_nat (length d)) (off + sz) - max s off)) (drop (unat (max s off - s)) d)) =
          window ?o ?n ?g"
        unfolding pos len by (rule window_add [OF ab(1-3) dom ab(4,5), symmetric])
      show ?thesis
        using False overlap Cons.IH [OF apart Cons.prems(2,3) below]
        by (simp only: r read_regions.simps Let_def if_False win count write_regions_Cons)
    qed
  qed
qed

lemma region_start_drop:
  assumes "regions_apart rs"
  shows "regions_apart (region_start off rs)"
    and "unat off \<le> p \<Longrightarrow> write_regions (region_start off rs) f p = write_regions rs f p"
proof -
  have "regions_apart (region_start off rs) \<and>
    (unat off \<le> p \<longrightarrow> write_regions (region_start off rs) f p = write_regions rs f p)"
    using assms
  proof (induction off rs arbitrary: f rule: region_start.induct)
    case (1 off r1 r2 rs)
    have apart: "regions_apart (r2 # rs)" and e: "unat (fst r1) + length (snd r1) \<le> unat (fst r2)"
      using "1.prems" by (auto simp: regions_apart_Cons)
    have drop: "write_regions (r1 # r2 # rs) f p = write_regions (r2 # rs) f p"
      if "fst r2 \<le> off" "unat off \<le> p"
    proof -
      have "(f ++ region_bytes r1) p = f p"
        using e that by (auto simp: map_add_def region_bytes_def word_le_nat_alt)
      then show ?thesis
        unfolding write_regions_Cons [of r1] by (rule write_regions_cong)
    qed
    show ?case
    proof (cases "fst r2 \<le> off")
      case True
      then show ?thesis using "1.IH" [OF True apart, of f] drop by simp
    next
      case False
      then show ?thesis using "1.prems" by simp
    qed
  qed simp_all
  then show "regions_apart (region_start off rs)"
    and "unat off \<le> p \<Longrightarrow> write_regions (region_start off rs) f p = write_regions rs f p" by blast+
qed

lemma cache_read_window:
  assumes "map_of (caches m) fd = Some c" "fc_policy c = ReadThrough" "regions_apart (fc_regions c)"
    and "unat off + unat sz < 2 ^ 64" "sz \<noteq> 0"
  shows "cache_read fd off sz m =
    (if \<forall>i < unat sz. write_regions (fc_regions c) Map.empty (unat off + i) \<noteq> None
     then Some (window (unat off) (unat sz) (write_regions (fc_regions c) Map.empty)) else None)"
proof -
  let ?rs = "region_start off (fc_regions c)" and ?o = "unat off" and ?n = "unat sz"
  let ?f = "write_regions (fc_regions c) Map.empty"
  have same: "\<forall>p. ?o \<le> p \<and> p < ?o + ?n \<longrightarrow> write_regions ?rs Map.empty p = ?f p"
    using region_start_drop(2) [OF assms(3)] by blast
  have "window ?o ?n Map.empty = replicate ?n 0"
    by (simp add: window_def list_eq_iff_nth_eq)
  moreover have "present ?o ?n Map.empty = 0" by (simp add: present_def)
  ultimately have run: "read_regions off (off + sz) ?rs (replicate ?n 0, 0) =
      (window ?o ?n ?f, of_nat (present ?o ?n ?f))"
    using read_regions_exact [OF region_start_drop(1) [OF assms(3)] assms(4,5), of Map.empty]
      window_cong [OF same] present_cong [OF same] by simp
  have le: "present ?o ?n ?f \<le> ?n" by (rule present_le)
  have "?n < 2 ^ 64" using unsigned_less [of sz] by simp
  then have small: "present ?o ?n ?f < 2 ^ 64" using le by (rule le_less_trans [rotated])
  have u: "unat (of_nat (present ?o ?n ?f) :: u64) = present ?o ?n ?f"
    unfolding unat_of_nat by (rule mod_less) (use small in simp)
  have n: "0 < ?n" using assms(5) by (simp add: unat_gt_0)
  have "(of_nat (present ?o ?n ?f) :: u64) < sz \<longleftrightarrow> present ?o ?n ?f < ?n"
    by (simp add: word_less_nat_alt u)
  moreover have "(of_nat (present ?o ?n ?f) :: u64) = 0 \<longleftrightarrow> present ?o ?n ?f = 0"
    using u by (metis unat_0 unat_eq_zero)
  ultimately have "cache_read fd off sz m = (if present ?o ?n ?f = ?n then Some (window ?o ?n ?f) else None)"
    using assms(1,2) run le n by (auto simp: cache_read_def)
  then show ?thesis by (simp only: present_all)
qed

text \<open>
  The small-I/O cache answers a read exactly when it holds every byte of it: with regions that
  do not overlap, cache_read gives the bytes the regions stand for if all of the requested range
  is buffered, and a miss otherwise (a partial hit is never returned).
\<close>

lemma cache_read_exact:
  assumes "map_of (caches m) fd = Some c" "fc_policy c = ReadThrough" "regions_apart (fc_regions c)"
    and "unat off + unat sz < 2 ^ 64" "sz \<noteq> 0"
  shows "cache_read fd off sz m =
    (if \<forall>i < unat sz. write_regions (fc_regions c) Map.empty (unat off + i) \<noteq> None
     then Some (map (\<lambda>i. the (write_regions (fc_regions c) Map.empty (unat off + i))) [0..<unat sz]) else None)"
proof (cases "\<forall>i < unat sz. write_regions (fc_regions c) Map.empty (unat off + i) \<noteq> None")
  case True
  then have "window (unat off) (unat sz) (write_regions (fc_regions c) Map.empty) =
      map (\<lambda>i. the (write_regions (fc_regions c) Map.empty (unat off + i))) [0..<unat sz]"
    unfolding window_def by (intro map_cong) auto
  then show ?thesis using cache_read_window [OF assms] True by (simp only: if_True)
next
  case False
  then show ?thesis using cache_read_window [OF assms] by (simp only: if_False)
qed

subsection \<open>Buffering and flushing\<close>

definition region_total :: "regions \<Rightarrow> nat" where
  "region_total rs = sum_list (map (\<lambda>r. length (snd r)) rs)"

lemma region_total_simps [simp]:
  "region_total [] = 0" "region_total (r # rs) = length (snd r) + region_total rs"
  by (simp_all add: region_total_def)

abbreviation keys_sorted :: "regions \<Rightarrow> bool" where
  "keys_sorted rs \<equiv> sorted_wrt (\<lambda>r r'. fst r < fst r') rs"

lemma set_put_region:
  "keys_sorted rs \<Longrightarrow> set (put_region k v rs) = insert (k, v) {r \<in> set rs. fst r \<noteq> k}"
  by (induction k v rs rule: put_region.induct) (auto split: if_splits)

lemma keys_sorted_put: "keys_sorted rs \<Longrightarrow> keys_sorted (put_region k v rs)"
  by (induction k v rs rule: put_region.induct) (auto simp: set_put_region)

lemma region_total_put:
  "keys_sorted rs \<Longrightarrow> region_total (put_region k v rs) + (case map_of rs k of None \<Rightarrow> 0 | Some d \<Rightarrow> length d) =
     region_total rs + length v"
proof (induction k v rs rule: put_region.induct)
  case (2 k v k' v' m)
  have "map_of m k = None" if "k < k'"
    using that "2.prems" by (auto simp: map_of_eq_None_iff)
  moreover have "k' \<noteq> k" if "\<not> k < k'" "k \<noteq> k'" using that by auto
  ultimately show ?case using "2.IH" "2.prems" by (auto split: option.splits)
qed simp

text \<open>What every operation keeps: sorted offsets, an exact byte count, less than a label buffered.\<close>

definition cache_ok :: "u64 \<Rightarrow> fd_cache \<Rightarrow> bool" where
  "cache_ok min_size c \<longleftrightarrow>
     keys_sorted (fc_regions c) \<and> fc_total c = of_nat (region_total (fc_regions c)) \<and>
     region_total (fc_regions c) < max 1 (unat min_size)"

lemma new_cache_ok [simp]: "cache_ok n new_cache"
  by (simp add: cache_ok_def new_cache_def)

lemma flush_locked_ok [simp]: "cache_ok n (snd (flush_locked c))"
  by (simp add: cache_ok_def flush_locked_def)

lemma write_cache_ok:
  assumes "cache_ok min_size c" "length data + unat min_size < 2 ^ 64"
  shows "cache_ok min_size (snd (write_cache min_size policy path off data c))"
proof -
  define c1 where "c1 = (if fc_filepath c = [] then c\<lparr>fc_filepath := path, fc_policy := policy\<rparr> else c)"
  define old where "old = (case map_of (fc_regions c1) off of None \<Rightarrow> 0 | Some d \<Rightarrow> length d)"
  let ?n = "region_total (put_region off data (fc_regions c1))"
  have srt: "keys_sorted (fc_regions c1)" and tot: "fc_total c1 = of_nat (region_total (fc_regions c1))"
    and lim: "region_total (fc_regions c1) < max 1 (unat min_size)"
    using assms(1) by (simp_all add: c1_def cache_ok_def)
  have e: "?n + old = region_total (fc_regions c1) + length data"
    using region_total_put [OF srt, of off data] by (simp add: old_def)
  have "(case map_of (fc_regions c1) off of None \<Rightarrow> 0 | Some d \<Rightarrow> of_nat (length d)) = (of_nat old :: u64)"
    by (simp add: old_def split: option.split)
  moreover have "fc_total c1 - of_nat old + of_nat (length data) = (of_nat ?n :: u64)"
  proof -
    have "(of_nat (?n + old) :: u64) = of_nat (region_total (fc_regions c1) + length data)" by (simp only: e)
    then show ?thesis unfolding tot by (simp add: algebra_simps)
  qed
  moreover have "?n < 2 ^ 64" using e lim assms(2) by simp
  then have "unat (of_nat ?n :: u64) = ?n" unfolding unat_of_nat by simp
  ultimately show ?thesis
    using srt keys_sorted_put [OF srt, of off data]
    unfolding write_cache_def Let_def c1_def [symmetric]
    by (auto simp: cache_ok_def word_le_nat_alt flush_locked_def)
qed

text \<open>The calls of a cache, and runs of them.\<close>

datatype cache_op =
    CWrite int string u64 bytes | CFlush int | CFlushAll | CEvict int | CPolicy int read_policy

fun cache_step :: "cache_op \<Rightarrow> content_manager \<Rightarrow> content_manager" where
  "cache_step (CWrite fd path off data) m = snd (cache_write fd path off data m)"
| "cache_step (CFlush fd) m = snd (content_flush fd m)"
| "cache_step CFlushAll m = snd (flush_all m)"
| "cache_step (CEvict fd) m = evict fd m"
| "cache_step (CPolicy fd p) m = set_read_policy fd p m"

definition caches_ok :: "content_manager \<Rightarrow> bool" where
  "caches_ok m \<longleftrightarrow> (\<forall>fd c. map_of (caches m) fd = Some c \<longrightarrow> cache_ok (min_label_size m) c)"

lemma cache_of_ok: "caches_ok m \<Longrightarrow> cache_ok (min_label_size m) (cache_of fd m)"
  by (auto simp: caches_ok_def cache_of_def split: option.split)

lemma map_of_flush_each:
  "map_of (snd (flush_each cs)) fd = Some c \<Longrightarrow>
     map_of cs fd = Some c \<or> (\<exists>c'. map_of cs fd = Some c' \<and> c = snd (flush_locked c'))"
  by (induction cs) (auto split: prod.splits if_splits)

lemma cache_step_ok:
  assumes "caches_ok m" "\<And>fd path off data. op = CWrite fd path off data \<Longrightarrow> length data + unat (min_label_size m) < 2 ^ 64"
  shows "caches_ok (cache_step op m) \<and> min_label_size (cache_step op m) = min_label_size m"
proof (cases op)
  case (CWrite fd path off data)
  have "cache_ok (min_label_size m)
      (snd (write_cache (min_label_size m) (default_policy m) path off data (cache_of fd m)))"
    by (rule write_cache_ok [OF cache_of_ok [OF assms(1)] assms(2) [OF CWrite]])
  then show ?thesis
    using assms(1) by (auto simp: CWrite cache_write_def caches_ok_def update_conv' case_prod_beta Let_def split: if_splits)
next
  case (CFlush fd)
  then show ?thesis
    using assms(1)
    by (auto simp: content_flush_def caches_ok_def update_conv' case_prod_beta Let_def split: option.splits if_splits)
next
  case CFlushAll
  then show ?thesis
    using assms(1)
    by (auto simp: flush_all_def caches_ok_def case_prod_beta Let_def dest!: map_of_flush_each)
next
  case (CEvict fd)
  then show ?thesis using assms(1) by (auto simp: evict_def caches_ok_def delete_conv' split: if_splits)
next
  case (CPolicy fd p)
  have "cache_ok (min_label_size m) (cache_of fd m\<lparr>fc_policy := p\<rparr>)"
    using cache_of_ok [OF assms(1), of fd] by (simp add: cache_ok_def)
  then show ?thesis
    using assms(1) by (auto simp: CPolicy set_read_policy_def caches_ok_def update_conv' split: if_splits)
qed

text \<open>
  C27: The cache never buffers a full label: after any sequence of cache calls, every descriptor's
  regions are sorted by offset, the byte count it keeps is the sum of their lengths, and that is
  below min_label_size (nothing at all when min_label_size is 0).
\<close>

theorem cache_bounded:
  assumes "caches m = []"
    and "\<forall>fd path off data. CWrite fd path off data \<in> set ops \<longrightarrow> length data + unat (min_label_size m) < 2 ^ 64"
    and "map_of (caches (fold cache_step ops m)) fd = Some c"
  shows "keys_sorted (fc_regions c) \<and> fc_total c = of_nat (region_total (fc_regions c)) \<and>
     region_total (fc_regions c) < max 1 (unat (min_label_size m))"
proof -
  have "caches_ok (fold cache_step ops m) \<and> min_label_size (fold cache_step ops m) = min_label_size m"
    if "caches_ok m" "\<forall>fd path off data. CWrite fd path off data \<in> set ops \<longrightarrow> length data + unat (min_label_size m) < 2 ^ 64"
    for m
    using that
  proof (induction ops arbitrary: m)
    case Nil
    then show ?case by simp
  next
    case (Cons op ops)
    then have "caches_ok (cache_step op m) \<and> min_label_size (cache_step op m) = min_label_size m"
      by (intro cache_step_ok) auto
    then show ?case using Cons.IH [of "cache_step op m"] Cons.prems(2) by auto
  qed
  note run = this
  have "caches_ok m" using assms(1) by (simp add: caches_ok_def)
  from run [OF this assms(2)] have "cache_ok (min_label_size m) c"
    using assms(3) unfolding caches_ok_def by metis
  then show ?thesis by (simp only: cache_ok_def)
qed

theorem cache_bounded_witness:
  "fc_total (the (map_of (caches (fold cache_step
     [CWrite 3 ''f'' 0 [1, 2], CWrite 3 ''f'' 0 [7], CWrite 4 ''g'' 8 [1, 2, 3], CFlush 9, CWrite 4 ''g'' 8 [1, 2, 3, 4]]
     \<lparr>min_label_size = 4, default_policy = ReadThrough, caches = []\<rparr>)) 3)) = 1"
proof -
  let ?ops = "[CWrite 3 ''f'' 0 [1, 2], CWrite 3 ''f'' 0 [7], CWrite 4 ''g'' 8 [1, 2, 3], CFlush 9, CWrite 4 ''g'' 8 [1, 2, 3, 4]]"
  let ?m = "\<lparr>min_label_size = 4, default_policy = ReadThrough, caches = []\<rparr>"
  define c where "c = \<lparr>fc_filepath = ''f'', fc_policy = ReadThrough, fc_regions = [(0, [7 :: u8])], fc_total = 1\<rparr>"
  have c: "map_of (caches (fold cache_step ?ops ?m)) 3 = Some c" "fc_regions c = [(0, [7])]"
    unfolding c_def by code_simp+
  have "fc_total c = of_nat (region_total (fc_regions c))"
  proof -
    have "fd = 3 \<or> fd = 4 \<Longrightarrow> length data \<le> 4 \<Longrightarrow> length data + unat (min_label_size ?m) < 2 ^ 64" for fd :: int and data :: bytes
      by simp
    then have "\<forall>fd path off data. CWrite fd path off data \<in> set ?ops \<longrightarrow> length data + unat (min_label_size ?m) < 2 ^ 64"
      by (simp only: set_simps insert_iff empty_iff cache_op.inject cache_op.distinct) force
    with c(1) show ?thesis
      using cache_bounded [of ?m ?ops 3 c] by (simp only: content_manager.simps refl simp_thms)
  qed
  then show ?thesis using c by simp
qed

subsection \<open>Buffered writes against direct writes\<close>

definition region_of :: "flush_region \<Rightarrow> u64 \<times> bytes" where
  "region_of r = (fr_offset r, fr_data r)"

text \<open>Two writes cover the same range or do not touch.\<close>

definition aligned :: "u64 \<times> bytes \<Rightarrow> u64 \<times> bytes \<Rightarrow> bool" where
  "aligned r r' \<longleftrightarrow>
     (fst r = fst r' \<and> length (snd r) = length (snd r')) \<or>
     unat (fst r) + length (snd r) \<le> unat (fst r') \<or> unat (fst r') + length (snd r') \<le> unat (fst r)"

lemma write_regions_append: "write_regions (rs @ rs') f = write_regions rs' (write_regions rs f)"
  by (simp add: write_regions_def)

lemma region_bytes_commute:
  assumes "aligned r r'" "fst r \<noteq> fst r'"
  shows "f ++ region_bytes r ++ region_bytes r' = f ++ region_bytes r' ++ region_bytes r"
  using assms by (intro ext) (auto simp: map_add_def region_bytes_def aligned_def split: option.split)

lemma region_bytes_overwrite:
  "length d = length d' \<Longrightarrow> f ++ region_bytes (s, d) ++ region_bytes (s, d') = f ++ region_bytes (s, d')"
  by (rule ext) (simp add: map_add_def region_bytes_def)

lemma write_regions_commute:
  assumes "\<forall>r \<in> set rs. aligned r w \<and> fst r \<noteq> fst w"
  shows "write_regions rs (f ++ region_bytes w) = write_regions rs f ++ region_bytes w"
  using assms
proof (induction rs arbitrary: f)
  case Nil
  then show ?case by simp
next
  case (Cons r rs)
  then have "f ++ region_bytes w ++ region_bytes r = f ++ region_bytes r ++ region_bytes w"
    using region_bytes_commute [of r w f] by simp
  then show ?case using Cons by (simp add: write_regions_Cons)
qed

lemma write_put_region:
  assumes "keys_sorted rs" "\<forall>r \<in> set rs. aligned r (k, v) \<and> snd r \<noteq> []" "v \<noteq> []"
  shows "write_regions (put_region k v rs) f = write_regions rs f ++ region_bytes (k, v)"
  using assms
proof (induction k v rs arbitrary: f rule: put_region.induct)
  case (1 k v)
  then show ?case by (simp add: write_regions_Cons)
next
  case (2 k v k' v' m)
  show ?case
  proof (cases "k < k'")
    case True
    then have "\<forall>r \<in> set ((k', v') # m). aligned r (k, v) \<and> fst r \<noteq> fst (k, v)"
      using 2 by auto
    then show ?thesis using True write_regions_commute [of "(k', v') # m" "(k, v)"] by (simp add: write_regions_Cons)
  next
    case False
    show ?thesis
    proof (cases "k = k'")
      case True
      then have "length v' = length v" using "2.prems" by (auto simp: aligned_def)
      then have head: "f ++ region_bytes (k, v') ++ region_bytes (k, v) = f ++ region_bytes (k, v)"
        by (rule region_bytes_overwrite)
      have "\<forall>r \<in> set m. aligned r (k, v) \<and> fst r \<noteq> fst (k, v)"
        using "2.prems" True by auto
      then have "write_regions m (f ++ region_bytes (k, v')) ++ region_bytes (k, v) =
          write_regions m (f ++ region_bytes (k, v') ++ region_bytes (k, v))"
        by (rule write_regions_commute [symmetric])
      then show ?thesis using True head by (simp add: write_regions_Cons)
    next
      case neq: False
      then show ?thesis using False "2.IH" "2.prems" by (simp add: write_regions_Cons)
    qed
  qed
qed

text \<open>The writes of one descriptor through the cache, and what they flush on the way.\<close>

fun cache_writes :: "int \<Rightarrow> string \<Rightarrow> regions \<Rightarrow> content_manager \<Rightarrow> flush_region list \<times> content_manager" where
  "cache_writes fd path [] m = ([], m)"
| "cache_writes fd path ((off, d) # ws) m =
     (let (out, m1) = cache_write fd path off d m; (outs, m2) = cache_writes fd path ws m1
      in (out @ outs, m2))"

text \<open>What a descriptor's cache has to do with the writes done so far: \<open>g\<close> is the file with everything
  flushed, \<open>f\<close> the file with every write.\<close>

definition buffers :: "string \<Rightarrow> regions \<Rightarrow> (nat \<rightharpoonup> u8) \<Rightarrow> (nat \<rightharpoonup> u8) \<Rightarrow> fd_cache \<Rightarrow> bool" where
  "buffers path ws g f c \<longleftrightarrow>
     write_regions (fc_regions c) g = f \<and> keys_sorted (fc_regions c) \<and> set (fc_regions c) \<subseteq> set ws \<and>
     (fc_filepath c = path \<or> (fc_filepath c = [] \<and> fc_regions c = []))"

definition all_aligned :: "regions \<Rightarrow> bool" where
  "all_aligned ws \<longleftrightarrow> (\<forall>w \<in> set ws. region_fits w \<and> (\<forall>w' \<in> set ws. aligned w w'))"

lemma map_region_of_flush [simp]:
  "map (region_of \<circ> (\<lambda>(off, d). \<lparr>fr_filepath = p, fr_offset = off, fr_data = d\<rparr>)) rs = rs"
  by (induction rs) (auto simp: region_of_def)

lemma write_cache_buffers:
  assumes "buffers path ws g f c" "all_aligned ws" "(off, d) \<in> set ws" "path \<noteq> []"
    and "write_cache min_size policy path off d c = (out, c')"
  shows "buffers path ws (write_regions (map region_of out) g) (f ++ region_bytes (off, d)) c' \<and>
     (\<forall>r \<in> set out. fr_filepath r = path) \<and> fc_filepath c' = path"
proof -
  define c1 where "c1 = (if fc_filepath c = [] then c\<lparr>fc_filepath := path, fc_policy := policy\<rparr> else c)"
  let ?rs = "put_region off d (fc_regions c)"
  have b: "write_regions (fc_regions c) g = f" "keys_sorted (fc_regions c)" "set (fc_regions c) \<subseteq> set ws"
    using assms(1) by (simp_all add: buffers_def)
  have c1: "fc_regions c1 = fc_regions c" "fc_filepath c1 = path"
    using assms(1) by (auto simp: c1_def buffers_def)
  have "\<forall>r \<in> set (fc_regions c). aligned r (off, d) \<and> snd r \<noteq> []" "d \<noteq> []"
    using assms(2,3) b(3) by (auto simp: all_aligned_def region_fits_def)
  from write_put_region [OF b(2) this] have put: "write_regions ?rs g = f ++ region_bytes (off, d)"
    using b(1) by simp
  have srt: "keys_sorted ?rs" by (rule keys_sorted_put [OF b(2)])
  have sub: "set ?rs \<subseteq> set ws" using b(3) assms(3) by (auto simp: set_put_region [OF b(2)])
  have "out = [] \<and> fc_regions c' = ?rs \<and> fc_filepath c' = path \<or>
    map region_of out = ?rs \<and> (\<forall>r \<in> set out. fr_filepath r = path) \<and> fc_regions c' = [] \<and> fc_filepath c' = path"
    using assms(5) unfolding write_cache_def Let_def c1_def [symmetric]
    by (auto simp: c1 flush_locked_def split: if_splits)
  then show ?thesis
    using put srt sub by (auto simp: buffers_def)
qed

lemma cache_writes_buffers:
  assumes "buffers path ws' g f (cache_of fd m)" "all_aligned ws'" "set ws \<subseteq> set ws'" "path \<noteq> []"
    and "cache_writes fd path ws m = (out, m')"
  shows "buffers path ws' (write_regions (map region_of out) g) (write_regions ws f) (cache_of fd m') \<and>
     (\<forall>r \<in> set out. fr_filepath r = path)"
  using assms
proof (induction ws arbitrary: g f m out)
  case Nil
  then show ?case by simp
next
  case (Cons w ws)
  obtain off d where w: "w = (off, d)" by (cases w)
  obtain o1 m1 where s1: "cache_write fd path off d m = (o1, m1)" by fastforce
  obtain o2 where s2: "cache_writes fd path ws m1 = (o2, m')" and out: "out = o1 @ o2"
    using Cons.prems(5) s1 by (auto simp: w split: prod.splits)
  obtain c where c: "write_cache (min_label_size m) (default_policy m) path off d (cache_of fd m) = (o1, c)"
    and m1: "m1 = m\<lparr>caches := AList.update fd c (caches m)\<rparr>"
    using s1 by (auto simp: cache_write_def split: prod.splits)
  have "cache_of fd m1 = c" by (simp add: m1 cache_of_def update_conv')
  moreover have "buffers path ws' (write_regions (map region_of o1) g) (f ++ region_bytes (off, d)) c \<and>
     (\<forall>r \<in> set o1. fr_filepath r = path) \<and> fc_filepath c = path"
    by (rule write_cache_buffers [OF Cons.prems(1,2) _ Cons.prems(4) c]) (use Cons.prems(3) w in simp)
  ultimately have head: "buffers path ws' (write_regions (map region_of o1) g) (f ++ region_bytes (off, d)) (cache_of fd m1)"
    and o1: "\<forall>r \<in> set o1. fr_filepath r = path" by simp_all
  have "set ws \<subseteq> set ws'" using Cons.prems(3) by simp
  from Cons.IH [OF head Cons.prems(2) this Cons.prems(4) s2] o1 show ?case
    by (auto simp: out w write_regions_append write_regions_Cons)
qed

text \<open>Writes that stay below a full label are only buffered.\<close>

lemma write_cache_small:
  assumes "cache_ok min_size c" "region_total (fc_regions c) + length d < unat min_size"
    and "write_cache min_size policy path off d c = (out, c')"
  shows "out = [] \<and> region_total (fc_regions c') \<le> region_total (fc_regions c) + length d \<and> cache_ok min_size c' \<and>
    fc_policy c' = (if fc_filepath c = [] then policy else fc_policy c) \<and> fc_filepath c' = (if fc_filepath c = [] then path else fc_filepath c)"
proof -
  define c1 where "c1 = (if fc_filepath c = [] then c\<lparr>fc_filepath := path, fc_policy := policy\<rparr> else c)"
  define old where "old = (case map_of (fc_regions c1) off of None \<Rightarrow> 0 | Some d \<Rightarrow> length d)"
  let ?rs = "put_region off d (fc_regions c1)"
  have c1: "fc_regions c1 = fc_regions c" "fc_total c1 = fc_total c" by (simp_all add: c1_def)
  have srt: "keys_sorted (fc_regions c1)" and tot: "fc_total c1 = of_nat (region_total (fc_regions c1))"
    using assms(1) by (simp_all add: c1 cache_ok_def)
  have e: "region_total ?rs + old = region_total (fc_regions c1) + length d"
    using region_total_put [OF srt, of off d] by (simp add: old_def)
  have word: "(case map_of (fc_regions c1) off of None \<Rightarrow> 0 | Some d \<Rightarrow> of_nat (length d)) = (of_nat old :: u64)"
    by (simp add: old_def split: option.split)
  have "(of_nat (region_total ?rs + old) :: u64) = of_nat (region_total (fc_regions c1) + length d)" by (simp only: e)
  then have new: "fc_total c1 - of_nat old + of_nat (length d) = (of_nat (region_total ?rs) :: u64)"
    unfolding tot by (simp add: algebra_simps)
  have small: "region_total ?rs < unat min_size" using e assms(2) c1 by simp
  then have "(of_nat (region_total ?rs) :: u64) < min_size"
    by (simp add: word_less_nat_alt unat_of_nat64 less_trans [OF small unsigned_less [where 'b = 64, simplified]])
  then have "\<not> min_size \<le> of_nat (region_total ?rs)" by (simp add: not_le)
  then have "out = []" "c' = c1\<lparr>fc_regions := ?rs, fc_total := of_nat (region_total ?rs)\<rparr>"
    using assms(3) unfolding write_cache_def Let_def c1_def [symmetric] word by (auto simp: new)
  then show ?thesis
    using e small keys_sorted_put [OF srt, of off d] by (simp add: c1 cache_ok_def) (simp add: c1_def)
qed

lemma cache_writes_policy:
  assumes "cache_writes fd path ws m = (out, m')" "default_policy m = ReadThrough" "fc_policy (cache_of fd m) = ReadThrough"
  shows "fc_policy (cache_of fd m') = ReadThrough"
  using assms
proof (induction ws arbitrary: m out)
  case (Cons w ws)
  obtain off d where w: "w = (off, d)" by (cases w)
  obtain o1 c where c: "write_cache (min_label_size m) (default_policy m) path off d (cache_of fd m) = (o1, c)" by fastforce
  let ?m1 = "m\<lparr>caches := AList.update fd c (caches m)\<rparr>"
  have "fc_policy c = ReadThrough"
    using c Cons.prems(2,3) by (auto simp: write_cache_def flush_locked_def Let_def split: if_splits)
  then have "fc_policy (cache_of fd ?m1) = ReadThrough" by (simp add: cache_of_def update_conv')
  moreover obtain o2 where "cache_writes fd path ws ?m1 = (o2, m')"
    using Cons.prems(1) c by (auto simp: w cache_write_def split: prod.splits)
  ultimately show ?case using Cons.IH Cons.prems(2) by simp
qed simp

lemma no_cache_buffers: "map_of (caches m) fd = None \<Longrightarrow> buffers path ws f f (cache_of fd m)"
  by (simp add: buffers_def cache_of_def new_cache_def)



lemma write_regions_override: "write_regions rs f = f ++ write_regions rs Map.empty"
proof (induction rs arbitrary: f)
  case Nil
  then show ?case by simp
next
  case (Cons r rs)
  have "write_regions (r # rs) f = f ++ region_bytes r ++ write_regions rs Map.empty"
    unfolding write_regions_Cons by (rule Cons.IH)
  also have "\<dots> = f ++ (region_bytes r ++ write_regions rs Map.empty)" by simp
  also have "region_bytes r ++ write_regions rs Map.empty = write_regions rs (region_bytes r)"
    by (rule Cons.IH [symmetric])
  finally show ?case by (simp add: write_regions_Cons)
qed

lemma aligned_apart:
  assumes "keys_sorted rs" "set rs \<subseteq> set ws" "all_aligned ws"
  shows "regions_apart rs"
  using assms(1,2)
proof (induction rs)
  case Nil
  then show ?case by (simp add: regions_apart_def)
next
  case (Cons r rs)
  have "unat (fst r) + length (snd r) \<le> unat (fst r')" if "r' \<in> set rs" for r'
  proof -
    have "aligned r r'" "region_fits r'" using assms(3) Cons.prems(2) that by (auto simp: all_aligned_def)
    moreover have "unat (fst r) < unat (fst r')" using Cons.prems(1) that by (simp add: word_less_nat_alt)
    ultimately show ?thesis by (auto simp: aligned_def)
  qed
  then show ?case
    using Cons assms(3) by (auto simp: regions_apart_Cons all_aligned_def)
qed

text \<open>
  A cache hit is current: after any writes of a descriptor (any two of them on the same range
  or not overlapping), whatever was flushed on the way, a read the cache answers gives exactly the
  bytes the file has after the writes.
\<close>

lemma cache_hit_current:
  assumes "map_of (caches m) fd = None" "all_aligned ws" "path \<noteq> []" "cache_writes fd path ws m = (out, m')"
    and "unat off + unat sz < 2 ^ 64" "sz \<noteq> 0" "cache_read fd off sz m' = Some bs"
  shows "length bs = unat sz \<and> (\<forall>i < unat sz. write_regions ws f (unat off + i) = Some (bs ! i))"
proof -
  obtain c where c: "map_of (caches m') fd = Some c" "fc_policy c = ReadThrough"
    using assms(7) by (cases "map_of (caches m') fd") (auto simp: cache_read_def split: if_splits intro: read_policy.exhaust)
  have b: "buffers path ws (write_regions (map region_of out) f) (write_regions ws f) c"
    using cache_writes_buffers [OF no_cache_buffers [OF assms(1)] assms(2) subset_refl assms(3,4)] c(1)
    by (simp add: cache_of_def)
  have apart: "regions_apart (fc_regions c)"
    using aligned_apart [OF _ _ assms(2)] b by (simp add: buffers_def)
  let ?g = "write_regions (fc_regions c) Map.empty"
  note read = cache_read_window [OF c apart assms(5,6)]
  have all: "\<forall>i < unat sz. ?g (unat off + i) \<noteq> None"
    using assms(7) unfolding read by (metis option.distinct(1))
  then have bs: "bs = window (unat off) (unat sz) ?g"
    using assms(7) unfolding read if_P [OF all] by simp
  have "write_regions ws f (unat off + i) = Some (bs ! i)" if i: "i < unat sz" for i
  proof -
    obtain x where x: "?g (unat off + i) = Some x"
      using all [rule_format, OF i] by (meson not_Some_eq)
    have "write_regions ws f = write_regions (map region_of out) f ++ ?g"
      using b write_regions_override [of "fc_regions c" "write_regions (map region_of out) f"]
      by (simp add: buffers_def)
    then have "write_regions ws f (unat off + i) = Some x" using x by (simp add: map_add_def)
    moreover have "bs ! i = x" using i x by (simp add: bs window_def)
    ultimately show ?thesis by simp
  qed
  then show ?thesis by (simp add: bs)
qed

text \<open>
  Overlapping writes break the cache. A read of 8 bytes over two buffered regions that cover
  only 6 of them is answered, with zeros for the two bytes nobody wrote, because the overlap is
  counted twice. And a flush writes the regions by offset, not by age: after [4, 7) and then the
  overlapping [0, 6) the newer bytes 4 and 5 are overwritten by the older ones.
\<close>

lemma cache_overlap_wrong:
  "cache_read 3 0 8 (snd (cache_writes 3 ''f'' [(0, [1, 1, 1, 1]), (2, [2, 2, 2, 2])]
      \<lparr>min_label_size = 100, default_policy = ReadThrough, caches = []\<rparr>))
     = Some [1, 1, 2, 2, 2, 2, 0, 0] \<and>
   map region_of (fst (content_flush 3 (snd (cache_writes 3 ''f'' [(4, [1, 1, 1]), (0, [2, 2, 2, 2, 2, 2])]
      \<lparr>min_label_size = 100, default_policy = ReadThrough, caches = []\<rparr>))))
     = [(0, [2, 2, 2, 2, 2, 2]), (4, [1, 1, 1])] \<and>
   write_regions [(4, [1, 1, 1]), (0, [2, 2, 2, 2, 2, 2])] Map.empty 4 = Some 2 \<and>
   write_regions [(0, [2, 2, 2, 2, 2, 2]), (4, [1, 1, 1])] Map.empty 4 = Some 1"
proof (intro conjI)
  show "cache_read 3 0 8 (snd (cache_writes 3 ''f'' [(0, [1, 1, 1, 1]), (2, [2, 2, 2, 2])]
      \<lparr>min_label_size = 100, default_policy = ReadThrough, caches = []\<rparr>))
     = Some [1, 1, 2, 2, 2, 2, 0, 0]" by code_simp
  show "map region_of (fst (content_flush 3 (snd (cache_writes 3 ''f'' [(4, [1, 1, 1]), (0, [2, 2, 2, 2, 2, 2])]
      \<lparr>min_label_size = 100, default_policy = ReadThrough, caches = []\<rparr>))))
     = [(0, [2, 2, 2, 2, 2, 2]), (4, [1, 1, 1])]" by code_simp
qed (simp_all add: write_regions_Cons map_add_def region_bytes_def)

end
