(* ===== verification/Nats.thy ===== *)
theory Nats
  imports Redis
begin

text \<open>
  \<^verbatim>\<open>NatsConnection\<close> and \<^verbatim>\<open>AsyncReply\<close> (\<^verbatim>\<open>src/labios/transport/nats.cpp\<close>): publishing, and
  the inbox that routes replies to the handles of asynchronous requests. The NATS C library is a
  parameter (\<open>'n nats_lib\<close>, over its own state); that it takes every message is the locale
  \<open>nats_link\<close>. \<^verbatim>\<open>flush\<close> never throws and changes nothing the program sees, so it has no
  definition. Components that use Redis and NATS work on the pair of both, \<open>io\<close>.
\<close>

subsection \<open>The connection\<close>

text \<open>
  The library calls: publish (subject, reply subject or empty, payload), name an inbox, subscribe to
  a subject, request.
\<close>

record 'n nats_lib =
  lib_publish :: "string \<Rightarrow> string \<Rightarrow> bytes \<Rightarrow> 'n \<Rightarrow> bool \<times> 'n"
  lib_inbox :: "'n \<Rightarrow> string option \<times> 'n"
  lib_subscribe :: "string \<Rightarrow> 'n \<Rightarrow> bool \<times> 'n"
  lib_request :: "string \<Rightarrow> bytes \<Rightarrow> 'n \<Rightarrow> bytes option \<times> 'n"

text \<open>
  The connection: the library's state, the inbox prefix once subscribed, the inbox counter, which
  handle each reply subject stands for, and the handles (\<open>None\<close> until completed).
\<close>

record 'n nats_conn =
  nc_lib :: 'n
  inbox_prefix :: "string option"
  inbox_counter :: u64
  pending_replies :: "(string \<times> nat) list"
  async_replies :: "bytes option list"

definition nats_publish :: "'n nats_lib \<Rightarrow> string \<Rightarrow> bytes \<Rightarrow> ('n nats_conn, unit) redis_op" where
  "nats_publish lib subject data c =
     (let (ok, n) = lib_publish lib subject [] data (nc_lib c); c' = c\<lparr>nc_lib := n\<rparr>
      in if ok then ret () c' else throw (''nats: publish failed on '' @ subject) c')"

definition nats_publish_text :: "'n nats_lib \<Rightarrow> string \<Rightarrow> string \<Rightarrow> ('n nats_conn, unit) redis_op" where
  "nats_publish_text lib subject t = nats_publish lib subject (bytes_of_string t)"

definition nats_request :: "'n nats_lib \<Rightarrow> string \<Rightarrow> bytes \<Rightarrow> ('n nats_conn, bytes) redis_op" where
  "nats_request lib subject data c =
     (let (r, n) = lib_request lib subject data (nc_lib c); c' = c\<lparr>nc_lib := n\<rparr>
      in case r of Some d \<Rightarrow> ret d c' | None \<Rightarrow> throw (''nats: request failed on '' @ subject) c')"

text \<open>A trailing dot of the library's inbox name is dropped.\<close>

definition ensure_inbox_sub :: "'n nats_lib \<Rightarrow> ('n nats_conn, string) redis_op" where
  "ensure_inbox_sub lib c =
     (case inbox_prefix c of
        Some p \<Rightarrow> ret p c
      | None \<Rightarrow>
          (let (r, n) = lib_inbox lib (nc_lib c); c' = c\<lparr>nc_lib := n\<rparr> in
           case r of
             None \<Rightarrow> throw ''nats: inbox creation failed'' c'
           | Some p \<Rightarrow>
               (let p' = (if p \<noteq> [] \<and> last p = CHR ''.'' then butlast p else p);
                    (ok, n') = lib_subscribe lib (p' @ ''.*'') n; c'' = c\<lparr>nc_lib := n'\<rparr>
                in if ok then ret p' (c''\<lparr>inbox_prefix := Some p'\<rparr>)
                   else throw ''nats: inbox subscription failed'' c'')))"

text \<open>
  Subscriptions: the callback of a subject is replaced before the library is asked, and a message
  goes to the callback of its subject, with its payload and reply subject.
\<close>

definition nats_subscribe ::
    "'n nats_lib \<Rightarrow> string \<Rightarrow> 'cb \<Rightarrow> (string \<times> 'cb) list \<Rightarrow> 'n nats_conn \<Rightarrow>
     unit result \<times> (string \<times> 'cb) list \<times> 'n nats_conn" where
  "nats_subscribe lib subject cb cbs c =
     (let (ok, n) = lib_subscribe lib subject (nc_lib c)
      in (if ok then Inr () else Inl (''nats: subscribe failed on '' @ subject),
          AList.update subject cb cbs, c\<lparr>nc_lib := n\<rparr>))"

definition on_message :: "(string \<times> (bytes \<Rightarrow> string \<Rightarrow> 'e)) list \<Rightarrow> string \<Rightarrow> bytes \<Rightarrow> string \<Rightarrow> 'e option" where
  "on_message cbs subject data reply_to = map_option (\<lambda>cb. cb data reply_to) (map_of cbs subject)"

text \<open>A fresh reply subject and its handle, an index into the handles.\<close>

definition create_reply_inbox :: "'n nats_lib \<Rightarrow> ('n nats_conn, string \<times> nat) redis_op" where
  "create_reply_inbox lib =
     op_bind (ensure_inbox_sub lib) (\<lambda>p c.
       let reply_to = p @ ''.'' @ u64_to_string (inbox_counter c); h = length (async_replies c)
       in ret (reply_to, h)
            (c\<lparr>inbox_counter := inbox_counter c + 1,
               pending_replies := AList.update reply_to h (pending_replies c),
               async_replies := async_replies c @ [None]\<rparr>))"

definition publish_request_async :: "'n nats_lib \<Rightarrow> string \<Rightarrow> bytes \<Rightarrow> ('n nats_conn, nat) redis_op" where
  "publish_request_async lib subject data =
     op_bind (create_reply_inbox lib) (\<lambda>(reply_to, h) c.
       let (ok, n) = lib_publish lib subject reply_to data (nc_lib c); c' = c\<lparr>nc_lib := n\<rparr>
       in if ok then ret h c'
          else throw (''nats: async publish failed on '' @ subject)
                 (c'\<lparr>pending_replies := AList.delete reply_to (pending_replies c')\<rparr>))"

text \<open>A message on the inbox: it completes the handle pending under its subject, if any.\<close>

definition on_inbox_message :: "string \<Rightarrow> bytes \<Rightarrow> 'n nats_conn \<Rightarrow> 'n nats_conn" where
  "on_inbox_message subject data c =
     (case map_of (pending_replies c) subject of
        None \<Rightarrow> c
      | Some h \<Rightarrow> c\<lparr>pending_replies := AList.delete subject (pending_replies c),
                    async_replies := (async_replies c)[h := Some data]\<rparr>)"

text \<open>\<^verbatim>\<open>AsyncReply::wait\<close>, once the wait is over: the data moves out of the handle.\<close>

definition async_wait :: "nat \<Rightarrow> ('n nats_conn, bytes) redis_op" where
  "async_wait h c =
     (case async_replies c ! h of
        None \<Rightarrow> throw ''nats: async reply timed out'' c
      | Some d \<Rightarrow> ret d (c\<lparr>async_replies := (async_replies c)[h := Some []]\<rparr>))"

subsection \<open>Redis and NATS together\<close>

record ('s, 'n) io =
  io_redis :: 's
  io_nats :: "'n nats_conn"

definition on_redis :: "('s, 'a) redis_op \<Rightarrow> (('s, 'n) io, 'a) redis_op" where
  "on_redis m w = (let (r, s) = m (io_redis w) in (r, w\<lparr>io_redis := s\<rparr>))"

definition on_nats :: "('n nats_conn, 'a) redis_op \<Rightarrow> (('s, 'n) io, 'a) redis_op" where
  "on_nats m w = (let (r, n) = m (io_nats w) in (r, w\<lparr>io_nats := n\<rparr>))"

text \<open>A message as the library takes it.\<close>

type_synonym nats_message = "string \<times> string \<times> bytes"

definition io_view :: "('s \<Rightarrow> redis_db) \<Rightarrow> ('n \<Rightarrow> nats_message list) \<Rightarrow> ('s, 'n) io \<Rightarrow> redis_db \<times> nats_message list" where
  "io_view db sent w = (db (io_redis w), sent (nc_lib (io_nats w)))"

lemma yields_on_redis:
  "yields db m d r d' \<Longrightarrow> yields (io_view db sent) (on_redis m) (d, ms) r (d', ms)"
  by (auto simp: yields_def on_redis_def io_view_def case_prod_beta Let_def)

text \<open>A connection that takes every message: \<open>sent\<close> is what it took.\<close>

locale nats_link =
  fixes lib :: "'n nats_lib" and sent :: "'n \<Rightarrow> nats_message list"
  assumes publish_law: "fst (lib_publish lib subject reply data n)"
      "sent (snd (lib_publish lib subject reply data n)) = sent n @ [(subject, reply, data)]"
    and inbox_law: "fst (lib_inbox lib n) \<noteq> None" "sent (snd (lib_inbox lib n)) = sent n"
    and subscribe_law: "fst (lib_subscribe lib subject n)" "sent (snd (lib_subscribe lib subject n)) = sent n"
begin

lemma yields_publish:
  "yields (io_view db sent) (on_nats (nats_publish lib subject data)) (d, ms) (Inr ())
     (d, ms @ [(subject, [], data)])"
  using publish_law [of subject "[]" data]
  by (auto simp: yields_def on_nats_def nats_publish_def io_view_def case_prod_beta Let_def ret_def)

lemma yields_publish_text:
  "yields (io_view db sent) (on_nats (nats_publish_text lib subject t)) (d, ms) (Inr ())
     (d, ms @ [(subject, [], bytes_of_string t)])"
  unfolding nats_publish_text_def by (rule yields_publish)

end

subsection \<open>A link that keeps a log\<close>

definition ref_lib :: "nats_message list nats_lib" where
  "ref_lib = \<lparr>lib_publish = (\<lambda>s r d n. (True, n @ [(s, r, d)])), lib_inbox = (\<lambda>n. (Some ''_INBOX.x.'', n)),
     lib_subscribe = (\<lambda>s n. (True, n)),
     lib_request = (\<lambda>s d n. (None, n))\<rparr>"

definition ref_conn :: "nats_message list nats_conn" where
  "ref_conn = \<lparr>nc_lib = [], inbox_prefix = None, inbox_counter = 0, pending_replies = [], async_replies = []\<rparr>"

interpretation ref_link: nats_link ref_lib "\<lambda>ms. ms"
  by unfold_locales (simp_all add: ref_lib_def)

text \<open>Both connections up.\<close>

locale io_link = redis_server exec db + nats_link lib sent
  for exec :: "'s server" and db :: "'s \<Rightarrow> redis_db" and lib :: "'n nats_lib" and sent :: "'n \<Rightarrow> nats_message list"

interpretation ref_io: io_link ref_exec ref_db ref_lib "\<lambda>ms. ms"
  by (rule io_link.intro) (rule ref.redis_server_axioms, rule ref_link.nats_link_axioms)

subsection \<open>Replies reach their requests\<close>

text \<open>
  Calls on the inbox: requests and reply inboxes (both give a fresh subject and handle) and
  incoming messages. The log of a run is the subjects given out, in order.
\<close>

datatype inbox_op = IRequest string bytes | IInbox | IMessage string bytes

fun inbox_step :: "'n nats_lib \<Rightarrow> inbox_op \<Rightarrow> 'n nats_conn \<Rightarrow> 'n nats_conn" where
  "inbox_step lib (IRequest subject data) c = snd (publish_request_async lib subject data c)"
| "inbox_step lib IInbox c = snd (create_reply_inbox lib c)"
| "inbox_step lib (IMessage subject data) c = on_inbox_message subject data c"

definition reply_subject :: "string \<Rightarrow> nat \<Rightarrow> string" where
  "reply_subject p h = p @ ''.'' @ nat_to_string h"

text \<open>What holds between calls: handle \<open>h\<close> was given out as the \<open>h\<close>-th subject, and is pending
  exactly while it is not completed.\<close>

definition inbox_ok :: "'n nats_conn \<Rightarrow> bool" where
  "inbox_ok c \<longleftrightarrow>
     inbox_counter c = of_nat (length (async_replies c)) \<and>
     (case inbox_prefix c of
        None \<Rightarrow> pending_replies c = [] \<and> async_replies c = []
      | Some p \<Rightarrow>
          (\<forall>s h. map_of (pending_replies c) s = Some h \<longleftrightarrow>
             s = reply_subject p h \<and> h < length (async_replies c) \<and> async_replies c ! h = None))"

lemma reply_subject_inj [simp]: "reply_subject p h = reply_subject p h' \<longleftrightarrow> h = h'"
  by (simp add: reply_subject_def)

context nats_link
begin

lemma ensure_inbox_sub_ok:
  "\<exists>p c1. ensure_inbox_sub lib c = (Inr p, c1) \<and> inbox_prefix c1 = Some p \<and>
     (inbox_prefix c = None \<or> inbox_prefix c = Some p) \<and> async_replies c1 = async_replies c \<and>
     inbox_counter c1 = inbox_counter c \<and> pending_replies c1 = pending_replies c \<and> sent (nc_lib c1) = sent (nc_lib c)"
  using inbox_law [of "nc_lib c"] subscribe_law
  by (cases "inbox_prefix c") (auto simp: ensure_inbox_sub_def ret_def case_prod_beta Let_def)

lemma publish_request_async_sends:
  "\<exists>c' reply. publish_request_async lib subject data c = (Inr (length (async_replies c)), c') \<and>
     sent (nc_lib c') = sent (nc_lib c) @ [(subject, reply, data)] \<and> async_replies c' = async_replies c @ [None]"
proof -
  obtain p c1 where e: "ensure_inbox_sub lib c = (Inr p, c1)" "async_replies c1 = async_replies c" "sent (nc_lib c1) = sent (nc_lib c)"
    using ensure_inbox_sub_ok by blast
  show ?thesis
    using publish_law [of subject "p @ ''.'' @ u64_to_string (inbox_counter c1)" data "nc_lib c1"] e
    by (auto simp: publish_request_async_def create_reply_inbox_def op_bind_def ret_def case_prod_beta Let_def)
qed

lemma create_reply_inbox_ok:
  assumes "inbox_ok c" "Suc (length (async_replies c)) < 2 ^ 64"
  shows "\<exists>p c'. create_reply_inbox lib c = (Inr (reply_subject p (length (async_replies c)), length (async_replies c)), c') \<and>
     inbox_ok c' \<and> inbox_prefix c' = Some p \<and> (inbox_prefix c = None \<or> inbox_prefix c = Some p) \<and>
     async_replies c' = async_replies c @ [None] \<and> sent (nc_lib c') = sent (nc_lib c)"
proof -
  obtain p c1 where e: "ensure_inbox_sub lib c = (Inr p, c1)" "inbox_prefix c1 = Some p"
    "inbox_prefix c = None \<or> inbox_prefix c = Some p" "async_replies c1 = async_replies c"
    "inbox_counter c1 = inbox_counter c" "pending_replies c1 = pending_replies c" "sent (nc_lib c1) = sent (nc_lib c)"
    using ensure_inbox_sub_ok by blast
  let ?h = "length (async_replies c)"
  have "unat (of_nat ?h :: u64) = ?h" unfolding unat_of_nat using assms(2) by (intro mod_less) simp
  then have subj: "p @ ''.'' @ u64_to_string (inbox_counter c1) = reply_subject p ?h"
    using assms(1) by (simp add: e inbox_ok_def reply_subject_def)
  have pend: "map_of (pending_replies c) s = Some h \<longleftrightarrow>
      s = reply_subject p h \<and> h < ?h \<and> async_replies c ! h = None" for s h
    using assms(1) e(3) by (auto simp: inbox_ok_def)
  define c2 where "c2 = c1\<lparr>inbox_counter := inbox_counter c1 + 1,
      pending_replies := AList.update (reply_subject p ?h) ?h (pending_replies c1),
      async_replies := async_replies c1 @ [None]\<rparr>"
  have "create_reply_inbox lib c = (Inr (reply_subject p ?h, ?h), c2)"
    unfolding create_reply_inbox_def op_bind_def e(1) prod.case sum.case Let_def subj
    by (simp add: ret_def c2_def e)
  moreover have "inbox_ok c2"
    using assms(1) by (auto simp: inbox_ok_def c2_def e update_conv' pend nth_append)
  ultimately show ?thesis using e by (auto simp: c2_def)
qed

lemma publish_request_async_step:
  assumes "inbox_ok c" "Suc (length (async_replies c)) < 2 ^ 64"
  shows "\<exists>p. inbox_ok (snd (publish_request_async lib subject data c)) \<and>
     inbox_prefix (snd (publish_request_async lib subject data c)) = Some p \<and>
     (inbox_prefix c = None \<or> inbox_prefix c = Some p) \<and>
     async_replies (snd (publish_request_async lib subject data c)) = async_replies c @ [None]"
proof -
  obtain p c' where c: "create_reply_inbox lib c = (Inr (reply_subject p (length (async_replies c)), length (async_replies c)), c')"
    "inbox_ok c'" "inbox_prefix c' = Some p" "inbox_prefix c = None \<or> inbox_prefix c = Some p"
    "async_replies c' = async_replies c @ [None]"
    using create_reply_inbox_ok [OF assms] by blast
  have "fst (lib_publish lib subject (reply_subject p (length (async_replies c))) data (nc_lib c'))"
    by (rule publish_law(1))
  then show ?thesis
    using c by (auto simp: publish_request_async_def op_bind_def case_prod_beta Let_def ret_def inbox_ok_def)
qed

end

text \<open>The handles as the requests see them: the first message on a handle's subject completes it.\<close>

fun replies_step :: "string \<Rightarrow> inbox_op \<Rightarrow> bytes option list \<Rightarrow> bytes option list" where
  "replies_step p (IRequest subject data) xs = xs @ [None]"
| "replies_step p IInbox xs = xs @ [None]"
| "replies_step p (IMessage subject data) xs =
     map (\<lambda>(h, x). if x = None \<and> subject = reply_subject p h then Some data else x) (enumerate 0 xs)"

lemma on_inbox_message_step:
  assumes "inbox_ok c"
  shows "inbox_ok (on_inbox_message subject data c)"
    and "inbox_prefix (on_inbox_message subject data c) = inbox_prefix c"
    and "inbox_prefix c = Some p \<or> inbox_prefix c = None \<Longrightarrow>
      async_replies (on_inbox_message subject data c) = replies_step p (IMessage subject data) (async_replies c)"
proof -
  show "inbox_prefix (on_inbox_message subject data c) = inbox_prefix c"
    by (simp add: on_inbox_message_def split: option.split)
  show "inbox_ok (on_inbox_message subject data c)"
  proof (cases "inbox_prefix c")
    case None
    then show ?thesis using assms by (simp add: inbox_ok_def on_inbox_message_def)
  next
    case (Some q)
    then have pend: "map_of (pending_replies c) s = Some h \<longleftrightarrow>
        s = reply_subject q h \<and> h < length (async_replies c) \<and> async_replies c ! h = None" for s h
      using assms by (simp add: inbox_ok_def)
    show ?thesis
    proof (cases "map_of (pending_replies c) subject")
      case None
      then show ?thesis using assms by (simp add: on_inbox_message_def)
    next
      case (Some h)
      have msg: "on_inbox_message subject data c = c\<lparr>pending_replies := AList.delete subject (pending_replies c),
          async_replies := (async_replies c)[h := Some data]\<rparr>"
        using Some by (simp add: on_inbox_message_def)
      have "subject = reply_subject q h" "h < length (async_replies c)" using Some pend by blast+
      then show ?thesis
        using assms \<open>inbox_prefix c = Some q\<close> pend unfolding msg
        by (auto simp: inbox_ok_def delete_conv' nth_list_update)
    qed
  qed
  assume pre: "inbox_prefix c = Some p \<or> inbox_prefix c = None"
  show "async_replies (on_inbox_message subject data c) = replies_step p (IMessage subject data) (async_replies c)"
  proof (cases "inbox_prefix c")
    case None
    then show ?thesis using assms by (simp add: inbox_ok_def on_inbox_message_def)
  next
    case (Some q)
    then have pend: "map_of (pending_replies c) s = Some h \<longleftrightarrow>
        s = reply_subject p h \<and> h < length (async_replies c) \<and> async_replies c ! h = None" for s h
      using assms pre by (simp add: inbox_ok_def)
    show ?thesis
    proof (cases "map_of (pending_replies c) subject")
      case None
      then have "\<forall>h < length (async_replies c). \<not> (async_replies c ! h = None \<and> subject = reply_subject p h)"
        using pend by (metis option.distinct(1))
      then have "replies_step p (IMessage subject data) (async_replies c) = async_replies c"
        by (intro nth_equalityI) (auto simp: nth_enumerate_eq)
      then show ?thesis using None by (simp add: on_inbox_message_def)
    next
      case (Some h)
      then have h: "subject = reply_subject p h" "h < length (async_replies c)" "async_replies c ! h = None"
        using pend by blast+
      have "replies_step p (IMessage subject data) (async_replies c) = (async_replies c)[h := Some data]"
        using h by (intro nth_equalityI) (auto simp: nth_enumerate_eq nth_list_update)
      then show ?thesis using Some by (simp add: on_inbox_message_def)
    qed
  qed
qed

context nats_link
begin

lemma inbox_step_refines:
  assumes "inbox_ok c" "Suc (length (async_replies c)) < 2 ^ 64"
  shows "\<exists>p. inbox_ok (inbox_step lib op c) \<and>
    (inbox_prefix (inbox_step lib op c) = Some p \<or> inbox_prefix (inbox_step lib op c) = None) \<and>
    (inbox_prefix c = None \<or> inbox_prefix c = Some p) \<and>
    async_replies (inbox_step lib op c) = replies_step p op (async_replies c)"
proof (cases op)
  case (IRequest subject data)
  then show ?thesis using publish_request_async_step [OF assms, of subject data] by auto
next
  case IInbox
  then show ?thesis using create_reply_inbox_ok [OF assms] by fastforce
next
  case (IMessage subject data)
  then show ?thesis
    using on_inbox_message_step(1,2) [OF assms(1), of subject data]
      on_inbox_message_step(3) [OF assms(1), of "the (inbox_prefix c)" subject data]
    by (intro exI [of _ "the (inbox_prefix c)"]) (cases "inbox_prefix c"; simp)
qed

end

lemma replies_step_empty: "replies_step p op [] = replies_step q op []"
  by (cases op) simp_all




end
