(* ===== verification/Channel.thy ===== *)
theory Channel
  imports Nats
begin

text \<open>
  Data channels (\<^verbatim>\<open>src/labios/channel.cpp\<close>): messages staged in the warehouse under a sequence
  number, announced over NATS, fetched by the subscribers of the channel. A channel is its atomic
  fields; a subscriber is its subscription number, and \<open>ch_nats_subs\<close> counts the NATS
  subscriptions made for the channel's subject. An operation takes the channel and the
  connections and gives back both, as an operation that throws still leaves its changes. The
  order in which callbacks run is unspecified in C++; here it is subscription order. The NATS
  library is taken to accept the subscription.
\<close>

subsection \<open>Notifications\<close>

definition parse_u64 :: "string \<Rightarrow> u64 option" where
  "parse_u64 t = (case from_chars_u64 t of Parsed v [] \<Rightarrow> Some v | _ \<Rightarrow> None)"

definition parse_notification :: "bytes \<Rightarrow> (u64 \<times> u64) option" where
  "parse_notification payload =
     (let raw = string_of_bytes payload in
      case find_char (CHR '':'') raw of
        None \<Rightarrow> None
      | Some i \<Rightarrow>
          (let rest = drop (Suc i) raw in
           case find_char (CHR '':'') rest of
             None \<Rightarrow> None
           | Some j \<Rightarrow>
               (case parse_u64 (take i raw) of
                  None \<Rightarrow> None
                | Some s \<Rightarrow> (case parse_u64 (take j rest) of None \<Rightarrow> None | Some l \<Rightarrow> Some (s, l)))))"

definition notification :: "u64 \<Rightarrow> u64 \<Rightarrow> bytes \<Rightarrow> string" where
  "notification sq label_id data =
     u64_to_string sq @ '':'' @ u64_to_string label_id @ '':'' @ nat_to_string (length data)"

subsection \<open>Channels\<close>

record channel =
  ch_name :: string
  ch_ttl_seconds :: u32
  ch_max_pending :: u64
  ch_next_seq :: u64
  ch_subscribers :: "int list"
  ch_nats_subs :: nat
  ch_next_sub_id :: int
  ch_draining :: bool
  ch_destroyed :: bool

definition new_channel :: "string \<Rightarrow> u32 \<Rightarrow> u64 \<Rightarrow> channel" where
  "new_channel name ttl max_pending =
     \<lparr>ch_name = name, ch_ttl_seconds = ttl, ch_max_pending = max_pending, ch_next_seq = 1,
      ch_subscribers = [], ch_nats_subs = 0, ch_next_sub_id = 1, ch_draining = False, ch_destroyed = False\<rparr>"

definition nats_subject :: "channel \<Rightarrow> string" where
  "nats_subject ch = ''labios.channel.'' @ ch_name ch"

definition warehouse_key :: "channel \<Rightarrow> u64 \<Rightarrow> string" where
  "warehouse_key ch sq = ''labios:channel:'' @ ch_name ch @ '':'' @ u64_to_string sq"

definition warehouse_pattern :: "channel \<Rightarrow> string" where
  "warehouse_pattern ch = ''labios:channel:'' @ ch_name ch @ '':*''"

text \<open>What follows the number a publish took: stage, expire, announce.\<close>

definition stage_message ::
    "'s server \<Rightarrow> 'n nats_lib \<Rightarrow> channel \<Rightarrow> u64 \<Rightarrow> bytes \<Rightarrow> u64 \<Rightarrow> (('s, 'n) io, u64) redis_op" where
  "stage_message exec lib ch sq data label_id =
     op_bind (on_redis (redis_set_binary exec (warehouse_key ch sq) data)) (\<lambda>_.
     op_bind (if ch_ttl_seconds ch > 0
              then on_redis (redis_expire exec (warehouse_key ch sq) (ch_ttl_seconds ch)) else ret ()) (\<lambda>_.
     op_bind (on_nats (nats_publish_text lib (nats_subject ch) (notification sq label_id data))) (\<lambda>_.
     ret sq)))"

definition channel_publish ::
    "'s server \<Rightarrow> 'n nats_lib \<Rightarrow> bytes \<Rightarrow> u64 \<Rightarrow> channel \<Rightarrow> ('s, 'n) io \<Rightarrow> u64 result \<times> channel \<times> ('s, 'n) io" where
  "channel_publish exec lib data label_id ch w =
     (if ch_draining ch \<or> ch_destroyed ch then (Inr 0, ch, w)
      else if ch_max_pending ch > 0 \<and> ch_next_seq ch - 1 \<ge> ch_max_pending ch then (Inr 0, ch, w)
      else
        (let (r, w') = stage_message exec lib ch (ch_next_seq ch) data label_id w
         in (r, ch\<lparr>ch_next_seq := ch_next_seq ch + 1\<rparr>, w')))"

record channel_message =
  cm_sequence :: u64
  cm_label_id :: u64
  cm_data :: bytes

text \<open>The subscription's callback: which subscribers get which message.\<close>

definition channel_receive ::
    "'s server \<Rightarrow> channel \<Rightarrow> bytes \<Rightarrow> ('s, (int \<times> channel_message) list) redis_op" where
  "channel_receive exec ch payload =
     (if ch_destroyed ch then ret []
      else
        (case parse_notification payload of
           None \<Rightarrow> ret []
         | Some (sq, label_id) \<Rightarrow>
             op_bind (redis_get_binary exec (warehouse_key ch sq)) (\<lambda>data.
             ret (map (\<lambda>i. (i, \<lparr>cm_sequence = sq, cm_label_id = label_id, cm_data = data\<rparr>)) (ch_subscribers ch)))))"

text \<open>A notification arrives once per NATS subscription of the channel's subject.\<close>

fun op_repeat :: "nat \<Rightarrow> ('s, 'a list) redis_op \<Rightarrow> ('s, 'a list) redis_op" where
  "op_repeat 0 m = ret []"
| "op_repeat (Suc n) m = op_bind m (\<lambda>xs. op_bind (op_repeat n m) (\<lambda>ys. ret (xs @ ys)))"

definition channel_deliver ::
    "'s server \<Rightarrow> channel \<Rightarrow> bytes \<Rightarrow> ('s, (int \<times> channel_message) list) redis_op" where
  "channel_deliver exec ch payload = op_repeat (ch_nats_subs ch) (channel_receive exec ch payload)"

text \<open>The first subscriber of the moment makes a NATS subscription, even when one exists.\<close>

definition channel_subscribe :: "channel \<Rightarrow> int \<times> channel" where
  "channel_subscribe ch =
     (if ch_destroyed ch then (-1, ch)
      else
        (let subs = ch_subscribers ch @ [ch_next_sub_id ch] in
         (ch_next_sub_id ch,
          ch\<lparr>ch_subscribers := subs, ch_next_sub_id := ch_next_sub_id ch + 1,
             ch_nats_subs := (if length subs = 1 then Suc (ch_nats_subs ch) else ch_nats_subs ch)\<rparr>)))"

text \<open>\<^verbatim>\<open>cleanup_warehouse\<close>; the scan has fuel (\<open>None\<close>: it ran out).\<close>

definition cleanup_warehouse :: "nat \<Rightarrow> 's server \<Rightarrow> channel \<Rightarrow> 's \<Rightarrow> (unit result \<times> 's) option" where
  "cleanup_warehouse fuel exec ch s =
     (case scan_loop fuel exec (warehouse_pattern ch) 0 [] s of
        None \<Rightarrow> None
      | Some (Inl e, s') \<Rightarrow> Some (Inl e, s')
      | Some (Inr keys, s') \<Rightarrow> Some (op_each (redis_del exec) keys s'))"

definition channel_destroy :: "nat \<Rightarrow> 's server \<Rightarrow> channel \<Rightarrow> 's \<Rightarrow> (unit result \<times> channel \<times> 's) option" where
  "channel_destroy fuel exec ch s =
     (if ch_destroyed ch then Some (Inr (), ch, s)
      else map_option (\<lambda>(r, s'). (r, ch\<lparr>ch_destroyed := True, ch_subscribers := []\<rparr>, s'))
             (cleanup_warehouse fuel exec ch s))"

definition channel_unsubscribe :: "nat \<Rightarrow> 's server \<Rightarrow> int \<Rightarrow> channel \<Rightarrow> 's \<Rightarrow> (unit result \<times> channel \<times> 's) option" where
  "channel_unsubscribe fuel exec sub_id ch s =
     (let ch' = ch\<lparr>ch_subscribers := removeAll sub_id (ch_subscribers ch)\<rparr>
      in if ch_subscribers ch' = [] \<and> ch_draining ch then channel_destroy fuel exec ch' s
         else Some (Inr (), ch', s))"

definition channel_drain :: "nat \<Rightarrow> 's server \<Rightarrow> channel \<Rightarrow> 's \<Rightarrow> (unit result \<times> channel \<times> 's) option" where
  "channel_drain fuel exec ch s =
     (let ch' = ch\<lparr>ch_draining := True\<rparr>
      in if ch_subscribers ch' = [] then channel_destroy fuel exec ch' s else Some (Inr (), ch', s))"

subsection \<open>Registry\<close>

type_synonym channel_registry = "(string \<times> channel) list"

text \<open>\<^verbatim>\<open>create\<close> gives no channel when the name is taken; the limit is the constructor's default.\<close>

definition registry_create :: "string \<Rightarrow> u32 \<Rightarrow> channel_registry \<Rightarrow> channel option \<times> channel_registry" where
  "registry_create name ttl reg =
     (case map_of reg name of
        Some _ \<Rightarrow> (None, reg)
      | None \<Rightarrow> (Some (new_channel name ttl 10000), AList.update name (new_channel name ttl 10000) reg))"

definition registry_get :: "string \<Rightarrow> channel_registry \<Rightarrow> channel option" where
  "registry_get name reg = map_of reg name"

definition registry_remove :: "string \<Rightarrow> channel_registry \<Rightarrow> channel_registry" where
  "registry_remove name reg = AList.delete name reg"

definition registry_list :: "channel_registry \<Rightarrow> string list" where
  "registry_list reg = map fst reg"

subsection \<open>What subscribers receive\<close>

lemma parse_u64_print [text_simps]: "parse_u64 (u64_to_string v) = Some v"
  using from_chars_u64_print [of "[]" v] by (simp add: parse_u64_def)

lemma parse_notification_print:
  "parse_notification (bytes_of_string (notification sq label_id data)) = Some (sq, label_id)"
proof -
  let ?l = "u64_to_string label_id" and ?n = "nat_to_string (length data)"
  have c: "CHR '':'' \<notin> set (nat_to_string n)" for n by (simp add: text_simps)
  have "find_char (CHR '':'') (notification sq label_id data) = Some (length (u64_to_string sq))"
    using find_char_append [OF c] by (simp add: notification_def)
  moreover have "drop (Suc (length (u64_to_string sq))) (notification sq label_id data) = ?l @ '':'' @ ?n"
    "take (length (u64_to_string sq)) (notification sq label_id data) = u64_to_string sq"
    by (simp_all add: notification_def)
  moreover have "find_char (CHR '':'') (?l @ '':'' @ ?n) = Some (length ?l)"
    using find_char_append [OF c] by simp
  ultimately show ?thesis
    by (simp add: parse_notification_def text_simps)
qed

lemma warehouse_key_inj: "warehouse_key ch a = warehouse_key ch b \<longleftrightarrow> a = b"
  by (auto simp: warehouse_key_def word_eq_iff_unsigned [where ?'a = nat])

text \<open>Messages a program publishes, one after the other, while the channel accepts them.\<close>

fun publish_all ::
    "'s server \<Rightarrow> 'n nats_lib \<Rightarrow> (bytes \<times> u64) list \<Rightarrow> channel \<Rightarrow> ('s, 'n) io \<Rightarrow>
     u64 result list \<times> channel \<times> ('s, 'n) io" where
  "publish_all exec lib [] ch w = ([], ch, w)"
| "publish_all exec lib ((data, label_id) # ms) ch w =
     (let (r, ch1, w1) = channel_publish exec lib data label_id ch w;
          (rs, ch2, w2) = publish_all exec lib ms ch1 w1
      in (r # rs, ch2, w2))"

text \<open>What the k-th accepted message leaves behind.\<close>

definition staged :: "channel \<Rightarrow> nat \<Rightarrow> bytes \<times> u64 \<Rightarrow> redis_db \<Rightarrow> redis_db" where
  "staged ch k m d = d(warehouse_key ch (of_nat k) \<mapsto> VStr (string_of_bytes (fst m)))"

definition announced :: "channel \<Rightarrow> nat \<Rightarrow> bytes \<times> u64 \<Rightarrow> nats_message" where
  "announced ch k m = (nats_subject ch, [], bytes_of_string (notification (of_nat k) (snd m) (fst m)))"

context io_link
begin

lemma yields_stage_message:
  "yields (io_view db sent) (stage_message exec lib ch (of_nat k) data label_id) (d, ms)
     (Inr (of_nat k)) (staged ch k (data, label_id) d, ms @ [announced ch k (data, label_id)])"
proof -
  have "yields (io_view db sent)
      (if ch_ttl_seconds ch > 0 then on_redis (redis_expire exec (warehouse_key ch (of_nat k)) (ch_ttl_seconds ch)) else ret ())
      (d, ms) (Inr ()) (d, ms)" for d ms
    by (auto intro: yields_on_redis yields_expire yields_ret)
  note expire = this
  show ?thesis
    unfolding stage_message_def staged_def announced_def fst_conv snd_conv
    by (rule yields_bind [OF yields_on_redis [OF yields_set_binary]], rule yields_bind [OF expire],
        rule yields_bind [OF yields_publish_text], rule yields_ret)
qed

lemma publish_accepted:
  assumes "io_view db sent w = (d, ms)" "\<not> ch_draining ch" "\<not> ch_destroyed ch" "ch_next_seq ch = of_nat k"
    and "ch_max_pending ch = 0 \<or> ch_next_seq ch - 1 < ch_max_pending ch"
  shows "\<exists>w'. channel_publish exec lib data label_id ch w = (Inr (of_nat k), ch\<lparr>ch_next_seq := of_nat (Suc k)\<rparr>, w') \<and>
     io_view db sent w' = (staged ch k (data, label_id) d, ms @ [announced ch k (data, label_id)])"
proof -
  have "fst (stage_message exec lib ch (of_nat k) data label_id w) = Inr (of_nat k) \<and>
      io_view db sent (snd (stage_message exec lib ch (of_nat k) data label_id w)) =
      (staged ch k (data, label_id) d, ms @ [announced ch k (data, label_id)])"
    using yields_stage_message [of ch k data label_id d ms] assms(1) by (simp add: yields_def)
  then show ?thesis
    using assms(2-5) unfolding channel_publish_def
    by (auto simp: case_prod_beta Let_def add.commute not_le)
qed

end

text \<open>The numbers of a run: \<open>k\<close>, \<open>k + 1\<close>, ...; what the messages leave behind together.\<close>

fun staged_all :: "channel \<Rightarrow> nat \<Rightarrow> (bytes \<times> u64) list \<Rightarrow> redis_db \<Rightarrow> redis_db" where
  "staged_all ch k [] d = d"
| "staged_all ch k (m # ms) d = staged_all ch (Suc k) ms (staged ch k m d)"

lemma staged_seq: "staged (ch\<lparr>ch_next_seq := n\<rparr>) = staged ch" "announced (ch\<lparr>ch_next_seq := n\<rparr>) = announced ch"
  by (intro ext; simp add: staged_def announced_def warehouse_key_def nats_subject_def)+

lemma staged_all_seq: "staged_all (ch\<lparr>ch_next_seq := n\<rparr>) k ms = staged_all ch k ms"
  by (intro ext, induction ms arbitrary: k) (auto simp: staged_seq)

lemma of_nat_u64_inj: "a < 2 ^ 64 \<Longrightarrow> b < 2 ^ 64 \<Longrightarrow> (of_nat a :: u64) = of_nat b \<longleftrightarrow> a = b"
proof -
  assume "a < 2 ^ 64" "b < 2 ^ 64"
  then have "unat (of_nat a :: u64) = a" "unat (of_nat b :: u64) = b"
    unfolding unat_of_nat by simp_all
  then show ?thesis by metis
qed

lemma staged_all_before:
  assumes "j < k" "k + length ms < 2 ^ 64"
  shows "staged_all ch k ms d (warehouse_key ch (of_nat j)) = d (warehouse_key ch (of_nat j))"
  using assms
proof (induction ms arbitrary: k d)
  case (Cons m ms)
  have "warehouse_key ch (of_nat j) \<noteq> warehouse_key ch (of_nat k)"
    using Cons.prems of_nat_u64_inj [of j k] by (simp add: warehouse_key_inj)
  then show ?case using Cons by (simp add: staged_def)
qed simp

lemma staged_all_nth:
  assumes "i < length ms" "k + length ms < 2 ^ 64"
  shows "staged_all ch k ms d (warehouse_key ch (of_nat (k + i))) = Some (VStr (string_of_bytes (fst (ms ! i))))"
  using assms
proof (induction ms arbitrary: k d i)
  case (Cons m ms)
  show ?case
  proof (cases i)
    case 0
    then show ?thesis
      using Cons.prems staged_all_before [of k "Suc k" ms ch "staged ch k m d"] by (simp add: staged_def)
  next
    case (Suc j)
    then show ?thesis using Cons.IH [of j "Suc k" "staged ch k m d"] Cons.prems by simp
  qed
qed simp

context io_link
begin

lemma publish_all_accepted:
  assumes "io_view db sent w = (d, log0)" "\<not> ch_draining ch" "\<not> ch_destroyed ch" "ch_next_seq ch = of_nat k" "0 < k"
    and "k + length ms < 2 ^ 64" "ch_max_pending ch = 0 \<or> k + length ms \<le> Suc (unat (ch_max_pending ch))"
  shows "\<exists>w'. publish_all exec lib ms ch w =
       (map (\<lambda>i. Inr (of_nat i)) [k..<k + length ms], ch\<lparr>ch_next_seq := of_nat (k + length ms)\<rparr>, w') \<and>
     io_view db sent w' = (staged_all ch k ms d, log0 @ map (\<lambda>i. announced ch (k + i) (ms ! i)) [0..<length ms])"
  using assms
proof (induction ms arbitrary: k w d log0 ch)
  case Nil
  then show ?case by simp
next
  case (Cons m ms)
  obtain data label_id where m: "m = (data, label_id)" by (cases m)
  have "(of_nat k :: u64) - 1 = of_nat (k - 1)" using Cons.prems(5) by simp
  moreover have "unat (of_nat (k - 1) :: u64) = k - 1"
    unfolding unat_of_nat using Cons.prems(6) by (intro mod_less) simp
  ultimately have lim: "ch_max_pending ch = 0 \<or> ch_next_seq ch - 1 < ch_max_pending ch"
    using Cons.prems(4,5,7) by (auto simp: word_less_nat_alt)
  obtain w1 where w1: "channel_publish exec lib data label_id ch w = (Inr (of_nat k), ch\<lparr>ch_next_seq := of_nat (Suc k)\<rparr>, w1)"
    "io_view db sent w1 = (staged ch k m d, log0 @ [announced ch k m])"
    using publish_accepted [OF Cons.prems(1-4) lim, of data label_id] m by auto
  have "\<exists>w'. publish_all exec lib ms (ch\<lparr>ch_next_seq := of_nat (Suc k)\<rparr>) w1 =
       (map (\<lambda>i. Inr (of_nat i)) [Suc k..<Suc k + length ms],
        (ch\<lparr>ch_next_seq := of_nat (Suc k)\<rparr>)\<lparr>ch_next_seq := of_nat (Suc k + length ms)\<rparr>, w') \<and>
     io_view db sent w' = (staged_all (ch\<lparr>ch_next_seq := of_nat (Suc k)\<rparr>) (Suc k) ms (staged ch k m d),
       (log0 @ [announced ch k m]) @ map (\<lambda>i. announced (ch\<lparr>ch_next_seq := of_nat (Suc k)\<rparr>) (Suc k + i) (ms ! i)) [0..<length ms])"
    using Cons.prems by (intro Cons.IH [OF w1(2)]) (auto simp del: of_nat_Suc)
  then obtain w2 where w2: "publish_all exec lib ms (ch\<lparr>ch_next_seq := of_nat (Suc k)\<rparr>) w1 =
       (map (\<lambda>i. Inr (of_nat i)) [Suc k..<Suc k + length ms], ch\<lparr>ch_next_seq := of_nat (k + length (m # ms))\<rparr>, w2)"
    "io_view db sent w2 = (staged_all ch (Suc k) ms (staged ch k m d),
       log0 @ announced ch k m # map (\<lambda>i. announced ch (Suc k + i) (ms ! i)) [0..<length ms])"
    by (auto simp: staged_all_seq staged_seq simp del: of_nat_Suc)
  have "map (\<lambda>i. announced ch (k + i) ((m # ms) ! i)) [0..<length (m # ms)] =
      announced ch k m # map (\<lambda>i. announced ch (Suc k + i) (ms ! i)) [0..<length ms]"
    by (simp add: upt_conv_Cons map_Suc_upt [symmetric] del: upt_Suc)
  then show ?case
    using w1 w2 by (auto simp: m upt_conv_Cons simp del: of_nat_Suc upt_Suc)
qed

lemma yields_channel_receive:
  assumes "db_get d (warehouse_key ch sq) = Some (string_of_bytes data)" "\<not> ch_destroyed ch"
  shows "yields db (channel_receive exec ch (bytes_of_string (notification sq label_id data))) d
     (Inr (map (\<lambda>i. (i, \<lparr>cm_sequence = sq, cm_label_id = label_id, cm_data = data\<rparr>)) (ch_subscribers ch))) d"
  unfolding channel_receive_def parse_notification_print
  using assms by (auto intro!: yields_bind [OF yields_get_binary] yields_retI)

end

text \<open>A channel with \<open>n\<close> subscribers, made one after the other.\<close>

definition subscribed_channel :: "nat \<Rightarrow> string \<Rightarrow> u32 \<Rightarrow> u64 \<Rightarrow> channel" where
  "subscribed_channel n name ttl cap = ((\<lambda>ch. snd (channel_subscribe ch)) ^^ n) (new_channel name ttl cap)"

lemma subscribed_channel_fields:
  "ch_subscribers (subscribed_channel n name ttl cap) = map int [1..<Suc n] \<and>
   ch_next_sub_id (subscribed_channel n name ttl cap) = int (Suc n) \<and>
   ch_nats_subs (subscribed_channel n name ttl cap) = (if n = 0 then 0 else 1) \<and>
   ch_max_pending (subscribed_channel n name ttl cap) = cap \<and> ch_next_seq (subscribed_channel n name ttl cap) = 1 \<and>
   \<not> ch_draining (subscribed_channel n name ttl cap) \<and> \<not> ch_destroyed (subscribed_channel n name ttl cap)"
  by (induction n) (auto simp: subscribed_channel_def new_channel_def channel_subscribe_def Let_def)

text \<open>
  C25: Channels deliver: on a fresh channel with subscribers, as long as no more messages are
  published than its limit, the i-th publish returns i, announces it on the channel's subject, and
  whenever the announcement is delivered every subscriber gets, once, the message with number i,
  the label it was published for and its bytes.
\<close>

theorem channel_delivers:
  assumes "io_link exec db lib sent" "0 < n" "ch = subscribed_channel n name ttl cap"
    and "Suc (length ms) < 2 ^ 64" "cap = 0 \<or> length ms \<le> unat cap" "i < length ms"
    and "publish_all exec lib ms ch w = (rs, ch', w')"
  shows "rs ! i = Inr (of_nat (Suc i)) \<and>
    sent (nc_lib (io_nats w')) ! (length (sent (nc_lib (io_nats w))) + i) = announced ch (Suc i) (ms ! i) \<and>
    fst (channel_deliver exec ch' (snd (snd (announced ch (Suc i) (ms ! i)))) (io_redis w')) =
      Inr (map (\<lambda>s. (int s, \<lparr>cm_sequence = of_nat (Suc i), cm_label_id = snd (ms ! i), cm_data = fst (ms ! i)\<rparr>)) [1..<Suc n])"
proof -
  note ch = subscribed_channel_fields [of n name ttl cap, folded assms(3)]
  have v: "io_view db sent w = (db (io_redis w), sent (nc_lib (io_nats w)))" by (simp add: io_view_def)
  obtain w1 where w1: "publish_all exec lib ms ch w =
       (map (\<lambda>i. Inr (of_nat i)) [1..<1 + length ms], ch\<lparr>ch_next_seq := of_nat (1 + length ms)\<rparr>, w1)"
     "io_view db sent w1 = (staged_all ch 1 ms (db (io_redis w)),
        sent (nc_lib (io_nats w)) @ map (\<lambda>i. announced ch (1 + i) (ms ! i)) [0..<length ms])"
    using io_link.publish_all_accepted [OF assms(1) v, of ch 1 ms] ch assms(4,5) by auto
  have w': "rs = map (\<lambda>i. Inr (of_nat i)) [1..<1 + length ms]" "ch' = ch\<lparr>ch_next_seq := of_nat (1 + length ms)\<rparr>" "w' = w1"
    using w1(1) assms(7) by simp_all
  let ?k = "of_nat (Suc i) :: u64"
  have "db (io_redis w') (warehouse_key ch ?k) = Some (VStr (string_of_bytes (fst (ms ! i))))"
    using w1(2) staged_all_nth [OF assms(6), of 1 ch "db (io_redis w)"] assms(4) by (simp add: w' io_view_def)
  moreover have "warehouse_key ch' = warehouse_key ch" by (rule ext) (simp add: w' warehouse_key_def)
  ultimately have "db_get (db (io_redis w')) (warehouse_key ch' ?k) = Some (string_of_bytes (fst (ms ! i)))"
    by (simp add: db_get_def)
  then have recv: "yields db (channel_receive exec ch' (bytes_of_string (notification ?k (snd (ms ! i)) (fst (ms ! i))))) (db (io_redis w'))
     (Inr (map (\<lambda>s. (s, \<lparr>cm_sequence = ?k, cm_label_id = snd (ms ! i), cm_data = fst (ms ! i)\<rparr>)) (ch_subscribers ch'))) (db (io_redis w'))"
    by (rule io_link.yields_channel_receive [OF assms(1)]) (simp add: w' ch)
  have "ch_nats_subs ch' = Suc 0" using ch assms(2) by (simp add: w')
  then have "yields db (channel_deliver exec ch' (bytes_of_string (notification ?k (snd (ms ! i)) (fst (ms ! i))))) (db (io_redis w'))
     (Inr (map (\<lambda>s. (s, \<lparr>cm_sequence = ?k, cm_label_id = snd (ms ! i), cm_data = fst (ms ! i)\<rparr>)) (ch_subscribers ch') @ [])) (db (io_redis w'))"
    unfolding channel_deliver_def by (simp only: op_repeat.simps) (rule yields_bind [OF recv], rule yields_bind [OF yields_ret], rule yields_ret)
  then have "fst (channel_deliver exec ch' (snd (snd (announced ch (Suc i) (ms ! i)))) (io_redis w')) =
     Inr (map (\<lambda>s. (s, \<lparr>cm_sequence = ?k, cm_label_id = snd (ms ! i), cm_data = fst (ms ! i)\<rparr>)) (ch_subscribers ch'))"
    by (simp add: yields_def announced_def)
  moreover have "ch_subscribers ch' = map int [1..<Suc n]" using ch by (simp add: w')
  moreover have "rs ! i = Inr ?k" using assms(6) by (simp add: w' del: upt_Suc)
  moreover have "sent (nc_lib (io_nats w')) ! (length (sent (nc_lib (io_nats w))) + i) = announced ch (Suc i) (ms ! i)"
    using w1(2) assms(6) by (simp add: w' io_view_def)
  ultimately show ?thesis by (simp add: comp_def del: upt_Suc)
qed

definition ref_io :: "(ref_state, nats_message list) io" where
  "ref_io = \<lparr>io_redis = [], io_nats = ref_conn\<rparr>"

theorem channel_delivers_witness:
  "let ch = subscribed_channel 2 ''c'' 0 10; (rs, ch', w') = publish_all ref_exec ref_lib [([1], 5), ([2, 3], 6)] ch ref_io
   in fst (channel_deliver ref_exec ch' (snd (snd (announced ch 2 ([2, 3], 6)))) (io_redis w')) =
     Inr [(1, \<lparr>cm_sequence = 2, cm_label_id = 6, cm_data = [2, 3]\<rparr>), (2, \<lparr>cm_sequence = 2, cm_label_id = 6, cm_data = [2, 3]\<rparr>)]"
proof -
  let ?ms = "[([1], 5), ([2, 3], 6)] :: (bytes \<times> u64) list"
  obtain rs ch' w' where p: "publish_all ref_exec ref_lib ?ms (subscribed_channel 2 ''c'' 0 10) ref_io = (rs, ch', w')"
    using prod_cases3 by blast
  have two: "Suc (Suc 0) = 2" "[Suc 0..<3] = [1, 2]" by (simp_all add: upt_rec)
  from channel_delivers [OF ref_io.io_link_axioms _ refl _ _ _ p, of 1]
  show ?thesis unfolding p Let_def prod.case by (simp add: two)
qed

text \<open>
  A channel whose last subscriber left delivers every message twice to the next one: the
  subscription of the next first subscriber is added to the one still there.
\<close>

lemma channel_resubscribe_doubles:
  assumes "io_link exec db lib sent"
    and "channel_unsubscribe fuel exec 1 (snd (channel_subscribe (new_channel name ttl 10000))) s = Some (r, ch, s')"
    and "channel_publish exec lib data label_id (snd (channel_subscribe ch)) w = (r', ch', w')"
  shows "r' = Inr 1 \<and>
    fst (channel_deliver exec ch' (bytes_of_string (notification 1 label_id data)) (io_redis w')) =
      Inr [(2, \<lparr>cm_sequence = 1, cm_label_id = label_id, cm_data = data\<rparr>),
           (2, \<lparr>cm_sequence = 1, cm_label_id = label_id, cm_data = data\<rparr>)]"
proof -
  let ?ch = "snd (channel_subscribe ch)"
  have ch: "ch_subscribers ?ch = [2]" "ch_nats_subs ?ch = 2" "\<not> ch_draining ?ch" "\<not> ch_destroyed ?ch"
    "ch_next_seq ?ch = of_nat 1" "ch_max_pending ?ch = 10000"
    using assms(2) by (auto simp: channel_unsubscribe_def channel_subscribe_def new_channel_def Let_def)
  have v: "io_view db sent w = (db (io_redis w), sent (nc_lib (io_nats w)))" by (simp add: io_view_def)
  have pub: "r' = Inr (of_nat 1)" "ch' = ?ch\<lparr>ch_next_seq := of_nat (Suc 1)\<rparr>"
    "io_view db sent w' = (staged ?ch 1 (data, label_id) (db (io_redis w)),
        sent (nc_lib (io_nats w)) @ [announced ?ch 1 (data, label_id)])"
    using io_link.publish_accepted [OF assms(1) v ch(3,4,5), of data label_id] ch assms(3) by auto
  have "warehouse_key ch' = warehouse_key ?ch" by (rule ext) (simp add: pub warehouse_key_def)
  then have "db_get (db (io_redis w')) (warehouse_key ch' 1) = Some (string_of_bytes data)"
    using pub(3) by (simp add: io_view_def staged_def)
  then have recv: "yields db (channel_receive exec ch' (bytes_of_string (notification 1 label_id data))) (db (io_redis w'))
      (Inr (map (\<lambda>s. (s, \<lparr>cm_sequence = 1, cm_label_id = label_id, cm_data = data\<rparr>)) (ch_subscribers ch'))) (db (io_redis w'))"
    by (rule io_link.yields_channel_receive [OF assms(1)]) (simp add: pub ch)
  have n: "ch_nats_subs ch' = Suc (Suc 0)" using ch by (simp add: pub)
  let ?m = "map (\<lambda>s. (s, \<lparr>cm_sequence = 1, cm_label_id = label_id, cm_data = data\<rparr>)) (ch_subscribers ch')"
  have "yields db (channel_deliver exec ch' (bytes_of_string (notification 1 label_id data))) (db (io_redis w'))
      (Inr (?m @ ?m @ [])) (db (io_redis w'))"
    unfolding channel_deliver_def n op_repeat.simps
    by (rule yields_bind [OF recv], rule yields_bind [OF yields_bind [OF recv]], rule yields_bind [OF yields_ret], rule yields_ret, rule yields_ret)
  then show ?thesis using ch pub by (simp add: yields_def)
qed

end
