(* ===== verification/Continuation.thy ===== *)
theory Continuation
  imports Channel LabelCodec
begin

text \<open>
  Continuations (\<^verbatim>\<open>src/labios/continuation.cpp\<close>): what happens after a label completed. A
  channel is notified, or a label template, carried as the hexadecimal text of its serialized form,
  becomes a new label, always or under a condition on the completion. \<open>new_id\<close> is the number
  \<^verbatim>\<open>generate_label_id\<close> gives during the call; \<open>enc\<close> and \<open>dec\<close> are the byte
  format of FlatBuffers.
\<close>

subsection \<open>Hexadecimal\<close>

definition hex_char :: "nat \<Rightarrow> char" where
  "hex_char n = (if n < 10 then char_of (48 + n) else char_of (87 + n))"

fun to_hex :: "bytes \<Rightarrow> string" where
  "to_hex [] = []"
| "to_hex (b # bs) = hex_char (unat b div 16) # hex_char (unat b mod 16) # to_hex bs"

definition nibble :: "char \<Rightarrow> nat result" where
  "nibble c =
     (let n = of_char c in
      if 48 \<le> n \<and> n \<le> 57 then Inr (n - 48)
      else if 97 \<le> n \<and> n \<le> 102 then Inr (n - 87)
      else if 65 \<le> n \<and> n \<le> 70 then Inr (n - 55)
      else Inl ''invalid hex character'')"

fun hex_pairs :: "string \<Rightarrow> bytes result" where
  "hex_pairs (c # d # cs) =
     (case nibble c of
        Inl e \<Rightarrow> Inl e
      | Inr h \<Rightarrow>
          (case nibble d of
             Inl e \<Rightarrow> Inl e
           | Inr l \<Rightarrow> (case hex_pairs cs of Inl e \<Rightarrow> Inl e | Inr bs \<Rightarrow> Inr (of_nat (16 * h + l) # bs))))"
| "hex_pairs cs = Inr []"

definition from_hex :: "string \<Rightarrow> bytes result" where
  "from_hex hex = (if length hex mod 2 \<noteq> 0 then Inl ''invalid hex string length'' else hex_pairs hex)"

definition encode_chain_params :: "(fb_label \<Rightarrow> bytes) \<Rightarrow> label_data \<Rightarrow> string" where
  "encode_chain_params enc l = to_hex (serialize_label enc l)"

definition decode_chain_params :: "(bytes \<Rightarrow> fb_label) \<Rightarrow> string \<Rightarrow> label_data result" where
  "decode_chain_params dec t =
     (case from_hex t of Inl e \<Rightarrow> Inl e | Inr bs \<Rightarrow> deserialize_label dec bs)"

subsection \<open>Conditions\<close>

definition is_blank :: "char \<Rightarrow> bool" where
  "is_blank c \<longleftrightarrow> c = CHR '' '' \<or> c = CHR 0x09"

definition cond_trim :: "string \<Rightarrow> string" where
  "cond_trim s = rev (dropWhile is_blank (rev (dropWhile is_blank s)))"

definition find_operator :: "string \<Rightarrow> (nat \<times> nat) option" where
  "find_operator e =
     (case find_sub ''=='' e of
        Some p \<Rightarrow> Some (p, 2)
      | None \<Rightarrow>
          (case find_sub ''!='' e of
             Some p \<Rightarrow> Some (p, 2)
           | None \<Rightarrow>
               (case find_char (CHR ''>'') e of
                  Some p \<Rightarrow> Some (p, 1)
                | None \<Rightarrow> map_option (\<lambda>p. (p, 1)) (find_char (CHR ''<'') e))))"

definition unquote :: "string \<Rightarrow> string" where
  "unquote v =
     (if length v \<ge> 2 \<and> hd v = CHR 0x22 \<and> last v = CHR 0x22 then butlast (tl v) else v)"

fun status_string :: "completion_status \<Rightarrow> string" where
  "status_string CompComplete = ''Complete''"
| "status_string CompError = ''Error''"

definition compare_string :: "string \<Rightarrow> string \<Rightarrow> string \<Rightarrow> string \<Rightarrow> bool result" where
  "compare_string field oper actual v =
     (if oper = ''=='' then Inr (actual = v)
      else if oper = ''!='' then Inr (actual \<noteq> v)
      else Inl (''operator '' @ oper @ '' not supported for string field '' @ field))"

definition compare_numeric :: "string \<Rightarrow> u64 \<Rightarrow> string \<Rightarrow> bool result" where
  "compare_numeric oper actual v =
     (case from_chars_u64 v of
        Parsed rhs r \<Rightarrow>
          Inr (if oper = ''=='' then actual = rhs
               else if oper = ''!='' then actual \<noteq> rhs
               else if oper = ''>'' then actual > rhs
               else if oper = ''<'' then actual < rhs
               else False)
      | _ \<Rightarrow> Inl (''invalid numeric value: '' @ v))"

definition evaluate_condition :: "string \<Rightarrow> label_data \<Rightarrow> completion_data \<Rightarrow> bool result" where
  "evaluate_condition condition l cmpl =
     (let trimmed = cond_trim condition in
      case find_operator trimmed of
        None \<Rightarrow> Inl (''invalid condition: no operator found in '' @ [CHR 0x27] @ condition @ [CHR 0x27])
      | Some (start, len) \<Rightarrow>
          (let field = cond_trim (take start trimmed);
               oper = take len (drop start trimmed);
               v = unquote (cond_trim (drop (start + len) trimmed))
           in if field = ''status'' then compare_string field oper (status_string (comp_status cmpl)) v
              else if field = ''error'' then compare_string field oper (comp_error cmpl) v
              else if field = ''data_size'' then compare_numeric oper (l_data_size l) v
              else if field = ''label_id'' then compare_numeric oper (comp_label_id cmpl) v
              else Inl (''unknown condition field: '' @ field)))"

subsection \<open>Processing\<close>

definition chained_label :: "(bytes \<Rightarrow> fb_label) \<Rightarrow> u64 \<Rightarrow> label_data \<Rightarrow> label_data result" where
  "chained_label dec new_id l =
     (case decode_chain_params dec (cont_chain_params (l_continuation l)) of
        Inl e \<Rightarrow> Inl e
      | Inr c \<Rightarrow> Inr (c\<lparr>l_id := new_id, l_app_id := l_app_id l, l_status := Created\<rparr>))"

definition notify_channel ::
    "'s server \<Rightarrow> 'n nats_lib \<Rightarrow> (fb_completion \<Rightarrow> bytes) \<Rightarrow> label_data \<Rightarrow> completion_data \<Rightarrow>
     channel_registry \<Rightarrow> ('s, 'n) io \<Rightarrow> label_data option result \<times> channel_registry \<times> ('s, 'n) io" where
  "notify_channel exec lib encc l cmpl reg w =
     (let name = cont_target_channel (l_continuation l);
          reg1 = (case registry_get name reg of Some _ \<Rightarrow> reg | None \<Rightarrow> snd (registry_create name 0 reg))
      in case registry_get name reg1 of
           None \<Rightarrow> (Inr None, reg1, w)
         | Some ch \<Rightarrow>
             (let (r, ch', w') = channel_publish exec lib (encc (serialize_completion_core cmpl)) (l_id l) ch w
              in (case r of Inl e \<Rightarrow> Inl e | Inr _ \<Rightarrow> Inr None, AList.update name ch' reg1, w')))"

definition process_continuation ::
    "'s server \<Rightarrow> 'n nats_lib \<Rightarrow> (fb_completion \<Rightarrow> bytes) \<Rightarrow> (bytes \<Rightarrow> fb_label) \<Rightarrow> u64 \<Rightarrow>
     label_data \<Rightarrow> completion_data \<Rightarrow> channel_registry \<Rightarrow> ('s, 'n) io \<Rightarrow>
     label_data option result \<times> channel_registry \<times> ('s, 'n) io" where
  "process_continuation exec lib encc dec new_id l cmpl reg w =
     (case cont_kind (l_continuation l) of
        ContNone \<Rightarrow> (Inr None, reg, w)
      | Notify \<Rightarrow> notify_channel exec lib encc l cmpl reg w
      | Chain \<Rightarrow> (case chained_label dec new_id l of Inl e \<Rightarrow> Inl e | Inr c \<Rightarrow> Inr (Some c), reg, w)
      | Conditional \<Rightarrow>
          (case evaluate_condition (cont_condition (l_continuation l)) l cmpl of
             Inl e \<Rightarrow> Inl e
           | Inr False \<Rightarrow> Inr None
           | Inr True \<Rightarrow> (case chained_label dec new_id l of Inl e \<Rightarrow> Inl e | Inr c \<Rightarrow> Inr (Some c)), reg, w))"

subsection \<open>Templates survive\<close>

lemma nibble_hex_char: "n < 16 \<Longrightarrow> nibble (hex_char n) = Inr n"
  by (auto simp: nibble_def hex_char_def Let_def)

lemma hex_roundtrip: "from_hex (to_hex bs) = Inr bs"
proof -
  have "even (length (to_hex bs))" by (induction bs) auto
  moreover have "hex_pairs (to_hex bs) = Inr bs"
  proof (induction bs)
    case (Cons b bs)
    have "unat b < 256" using unsigned_less [of b] by simp
    then have "unat b div 16 < 16" by simp
    moreover have "(of_nat (16 * (unat b div 16) + unat b mod 16) :: u8) = b"
      by (simp only: mult_div_mod_eq) simp
    ultimately show ?case using Cons by (simp add: nibble_hex_char)
  qed simp
  ultimately show ?thesis by (simp add: from_hex_def even_iff_mod_2_eq_zero)
qed

text \<open>
  A chain template survives: a label written into a continuation's parameters is decoded, when
  the continuation fires, as the label it was (in its wire form), with the new number, the parent's
  application and status Created.
\<close>

lemma chain_template_roundtrip:
  assumes "dec (enc (serialize_label_core t)) = serialize_label_core t" "\<forall>s \<in> set (l_pipeline t). stage_wf s"
    and "cont_kind (l_continuation l) = Chain" "cont_chain_params (l_continuation l) = encode_chain_params enc t"
  shows "process_continuation exec lib encc dec new_id l cmpl reg w =
    (Inr (Some (wire_form t\<lparr>l_id := new_id, l_app_id := l_app_id l, l_status := Created\<rparr>)), reg, w)"
  using label_table_roundtrip [OF assms(2)] assms(1,3,4)
  by (simp add: process_continuation_def chained_label_def decode_chain_params_def encode_chain_params_def
      hex_roundtrip deserialize_label_def serialize_label_def)

subsection \<open>What a condition means\<close>

lemma cond_trim_blanks:
  assumes "list_all is_blank b" "list_all is_blank b'" "s \<noteq> []" "\<not> is_blank (hd s)" "\<not> is_blank (last s)"
  shows "cond_trim (b @ s @ b') = s"
proof -
  have "dropWhile is_blank (b @ s @ b') = s @ b'"
    using assms by (induction b) (cases s; auto)+
  moreover have "dropWhile is_blank (rev b' @ rev s) = rev s"
  proof -
    obtain ys y where "s = ys @ [y]" using assms(3) by (metis rev_exhaust)
    then have "dropWhile is_blank (rev s) = rev s" using assms(5) by simp
    moreover have "\<And>x. x \<in> set (rev b') \<Longrightarrow> is_blank x" using assms(2) by (simp add: list_all_iff)
    ultimately show ?thesis by (metis dropWhile_append2)
  qed
  ultimately show ?thesis by (simp add: cond_trim_def)
qed

lemma find_sub_missing: "c \<in> set p \<Longrightarrow> c \<notin> set s \<Longrightarrow> find_sub p s = None"
  unfolding find_sub_None by auto

lemma blank_chars: "list_all is_blank b \<Longrightarrow> c \<noteq> CHR '' '' \<Longrightarrow> c \<noteq> CHR 0x09 \<Longrightarrow> c \<notin> set b"
  by (auto simp: list_all_iff is_blank_def)

text \<open>The operators, and what they say of two numbers.\<close>

fun operator_holds :: "string \<Rightarrow> u64 \<Rightarrow> u64 \<Rightarrow> bool" where
  "operator_holds oper a b =
     (if oper = ''=='' then a = b else if oper = ''!='' then a \<noteq> b
      else if oper = ''>'' then a > b else a < b)"

lemma find_operator_split:
  assumes "\<forall>c \<in> set u \<union> set v. c \<notin> {CHR ''='', CHR ''!'', CHR ''>'', CHR ''<''}"
    and "oper \<in> {''=='', ''!='', ''>'', ''<''}"
  shows "find_operator (u @ oper @ v) = Some (length u, length oper)"
proof -
  have nu: "CHR ''='' \<notin> set u" "CHR ''!'' \<notin> set u" "CHR ''>'' \<notin> set u" "CHR ''<'' \<notin> set u"
    and nv: "CHR ''='' \<notin> set v" "CHR ''!'' \<notin> set v" "CHR ''>'' \<notin> set v" "CHR ''<'' \<notin> set v"
    using assms(1) by auto
  consider "oper = ''==''" | "oper = ''!=''" | "oper = ''>''" | "oper = ''<''" using assms(2) by blast
  then show ?thesis
  proof cases
    case 1
    then show ?thesis using find_sub_append [OF nu(1), of "''=''" v] by (simp add: find_operator_def)
  next
    case 2
    have "find_sub ''=='' (u @ ''!='' @ v) = None"
    proof -
      have "count_list (u @ ''!='' @ v) (CHR ''='') = 1"
        using nu(1) nv(1) by (simp add: count_notin)
      moreover have "count_list (x @ ''=='' @ y) (CHR ''='') \<ge> 2" for x y by simp
      ultimately show ?thesis unfolding find_sub_None by (metis not_less_eq_eq numeral_2_eq_2 le_refl One_nat_def)
    qed
    then show ?thesis using 2 find_sub_append [OF nu(2), of "''=''" v] by (simp add: find_operator_def)
  next
    case 3
    then show ?thesis
      using nu nv find_sub_missing [of "CHR ''=''" "''==''" "u @ ''>'' @ v"]
        find_sub_missing [of "CHR ''=''" "''!=''" "u @ ''>'' @ v"] find_char_append [OF nu(3), of v]
      by (simp add: find_operator_def)
  next
    case 4
    then show ?thesis
      using nu nv find_sub_missing [of "CHR ''=''" "''==''" "u @ ''<'' @ v"]
        find_sub_missing [of "CHR ''=''" "''!=''" "u @ ''<'' @ v"] find_char_append [OF nu(4), of v]
        find_char_None [of "CHR ''>''" "u @ ''<'' @ v"]
      by (simp add: find_operator_def)
  qed
qed

text \<open>
  Conditions mean what they say: a number field, one of the four operators and a number,
  with any blanks around them, compares the field of the completed label with the number; any
  other field name is an error.
\<close>

lemma condition_compares:
  assumes "list_all is_blank b1" "list_all is_blank b2" "list_all is_blank b3" "list_all is_blank b4"
    and "oper \<in> {''=='', ''!='', ''>'', ''<''}"
    and "field \<noteq> []" "list_all (\<lambda>c. c \<notin> {CHR ''='', CHR ''!'', CHR ''>'', CHR ''<'', CHR '' '', CHR 0x09}) field"
    and "field \<notin> {''status'', ''error''}"
  shows "evaluate_condition (b1 @ field @ b2 @ oper @ b3 @ u64_to_string n @ b4) l cmpl =
    (if field = ''data_size'' then Inr (operator_holds oper (l_data_size l) n)
     else if field = ''label_id'' then Inr (operator_holds oper (comp_label_id cmpl) n)
     else Inl (''unknown condition field: '' @ field))"
proof -
  let ?n = "u64_to_string n"
  let ?core = "field @ b2 @ oper @ b3 @ ?n"
  have digits: "c \<in> set ?n \<Longrightarrow> is_digit c" for c
    using nat_to_string_digits [of "unat n"] by (simp add: list_all_iff)
  have digit_facts: "\<not> is_blank c \<and> c \<notin> {CHR ''='', CHR ''!'', CHR ''>'', CHR ''<'', CHR 0x22}" if "is_digit c" for c
    using that by (auto simp: is_digit_def is_blank_def)
  have field_blank: "\<not> is_blank c" if "c \<in> set field" for c
    using assms(7) that by (auto simp: list_all_iff is_blank_def)
  have "cond_trim (b1 @ ?core @ b4) = ?core"
  proof (rule cond_trim_blanks [OF assms(1,4)])
    show "?core \<noteq> []" "\<not> is_blank (hd ?core)" using assms(6) field_blank [of "hd field"] by simp_all
    show "\<not> is_blank (last ?core)"
      using digits [of "last ?n"] digit_facts by (simp add: last_append)
  qed
  then have trimmed: "cond_trim (b1 @ field @ b2 @ oper @ b3 @ ?n @ b4) = ?core" by simp
  have "find_operator ((field @ b2) @ oper @ b3 @ ?n) = Some (length (field @ b2), length oper)"
  proof (rule find_operator_split [OF _ assms(5)])
    let ?bad = "{CHR ''='', CHR ''!'', CHR ''>'', CHR ''<''}"
    have "c \<notin> ?bad" if "is_blank c" for c using that by (auto simp: is_blank_def)
    then have "\<forall>c \<in> set b2. c \<notin> ?bad" "\<forall>c \<in> set b3. c \<notin> ?bad"
      using assms(2,3) unfolding list_all_iff by blast+
    moreover have "\<forall>c \<in> set field. c \<notin> ?bad" using assms(7) unfolding list_all_iff by blast
    moreover have "\<forall>c \<in> set ?n. c \<notin> ?bad"
    proof
      fix c
      assume "c \<in> set ?n"
      then show "c \<notin> ?bad" using digit_facts [OF digits] by simp
    qed
    ultimately show "\<forall>c \<in> set (field @ b2) \<union> set (b3 @ ?n). c \<notin> ?bad" by (metis Un_iff set_append)
  qed
  then have oper: "find_operator ?core = Some (length (field @ b2), length oper)" by simp
  have parts: "take (length (field @ b2)) ?core = field @ b2"
    "take (length oper) (drop (length (field @ b2)) ?core) = oper"
    "drop (length (field @ b2) + length oper) ?core = b3 @ ?n" by simp_all
  have field: "cond_trim (field @ b2) = field"
    using cond_trim_blanks [of "[]" b2 field] assms(2,6) field_blank [of "hd field"] field_blank [of "last field"] by simp
  have "cond_trim (b3 @ ?n) = ?n"
    using cond_trim_blanks [of b3 "[]" ?n] assms(3) digits [of "hd ?n"] digits [of "last ?n"] digit_facts by simp
  moreover have "unquote ?n = ?n"
    using digits [of "hd ?n"] digit_facts by (auto simp: unquote_def)
  ultimately have v: "unquote (cond_trim (b3 @ ?n)) = ?n" by simp
  have num: "compare_numeric oper a ?n = Inr (operator_holds oper a n)" for a
    using from_chars_u64_print [of "[]" n] assms(5) by (auto simp: compare_numeric_def)
  show ?thesis
    unfolding evaluate_condition_def trimmed Let_def oper option.case prod.case parts field v num
    using assms(8) by simp
qed

end
