(* ===== verification/Worker.thy ===== *)
theory Worker
  imports Backend Catalog Content Continuation Shuffler Solver
begin

text \<open>
  The worker service (\<^verbatim>\<open>src/services/labios-worker.cpp\<close>): the handler of its subject, which
  executes a label against the warehouse, the catalog and a storage backend and answers with a
  completion. Everything fixed while a message is handled is the record \<open>env\<close> (the servers,
  the byte formats, the backends, the worker's number, name and tier, the clock); the rest is the
  state \<open>worker\<close>, with the handler's \<^verbatim>\<open>completion\<close> and \<^verbatim>\<open>child_comp\<close> variables,
  which its \<^verbatim>\<open>catch\<close> clauses read. The finishing mark of the handler's local label is left
  out (of the label only the identity, reply address, size and continuation are read afterwards, which it
  does not touch), and so is \<^verbatim>\<open>nats.flush()\<close>, which sends nothing. The worker mutex serialises messages, so the handler is one function. Logging
  is left out; the score thread and start-up are not modelled.
\<close>

subsection \<open>Environment and state\<close>

record ('s, 'n, 'b) env =
  e_redis :: "'s server"
  e_nats :: "'n nats_lib"
  e_enc :: "fb_label \<Rightarrow> bytes"
  e_dec :: "bytes \<Rightarrow> fb_label"
  e_encc :: "fb_completion \<Rightarrow> bytes"
  e_backends :: "'b backend_registry"
  e_repo :: program_repository
  e_tier :: worker_tier
  e_worker_id :: int
  e_worker_name :: string
  e_now_us :: u64
  e_now_ms :: string
  e_new_id :: u64

record ('s, 'n, 'b) worker =
  wk_io :: "('s, 'n) io"
  wk_backend :: 'b
  wk_channels :: channel_registry
  wk_active :: int
  wk_suspended :: bool
  wk_completion :: completion_data
  wk_child :: completion_data

definition wk_redis :: "('s, 'a) redis_op \<Rightarrow> (('s, 'n, 'b) worker, 'a) redis_op" where
  "wk_redis m w = (let (r, io) = on_redis m (wk_io w) in (r, w\<lparr>wk_io := io\<rparr>))"

definition wk_nats :: "('n nats_conn, 'a) redis_op \<Rightarrow> (('s, 'n, 'b) worker, 'a) redis_op" where
  "wk_nats m w = (let (r, io) = on_nats m (wk_io w) in (r, w\<lparr>wk_io := io\<rparr>))"

definition wk_store :: "('b, 'a) redis_op \<Rightarrow> (('s, 'n, 'b) worker, 'a) redis_op" where
  "wk_store m w = (let (r, b) = m (wk_backend w) in (r, w\<lparr>wk_backend := b\<rparr>))"

definition wk_update :: "(('s, 'n, 'b) worker \<Rightarrow> ('s, 'n, 'b) worker) \<Rightarrow> (('s, 'n, 'b) worker, unit) redis_op" where
  "wk_update f w = ret () (f w)"

definition op_catch :: "('s, 'a) redis_op \<Rightarrow> (string \<Rightarrow> ('s, 'a) redis_op) \<Rightarrow> ('s, 'a) redis_op" where
  "op_catch m h s = (case m s of (Inl e, s') \<Rightarrow> h e s' | (Inr x, s') \<Rightarrow> (Inr x, s'))"

record completion_result =
  cr_status :: completion_status
  cr_data_key :: string
  cr_result_location :: string
  cr_bytes_transferred :: u64

subsection \<open>Answers\<close>

definition publish_completion ::
    "('s, 'n, 'b) env \<Rightarrow> string \<Rightarrow> completion_data \<Rightarrow> (('s, 'n, 'b) worker, unit) redis_op" where
  "publish_completion env reply_to c =
     (if reply_to = [] then ret ()
      else wk_nats (nats_publish (e_nats env) reply_to (e_encc env (serialize_completion_core c))))"

definition publish_chained_label :: "('s, 'n, 'b) env \<Rightarrow> label_data \<Rightarrow> (('s, 'n, 'b) worker, unit) redis_op" where
  "publish_chained_label env l = wk_nats (nats_publish (e_nats env) ''labios.labels'' (serialize_label (e_enc env) l))"

definition wk_continue ::
    "('s, 'n, 'b) env \<Rightarrow> label_data \<Rightarrow> completion_data \<Rightarrow> (('s, 'n, 'b) worker, label_data option) redis_op" where
  "wk_continue env l c w =
     (let (r, reg, io) = process_continuation (e_redis env) (e_nats env) (e_encc env) (e_dec env) (e_new_id env)
                           l c (wk_channels w) (wk_io w)
      in (r, w\<lparr>wk_channels := reg, wk_io := io\<rparr>))"

definition maybe_process_continuation ::
    "('s, 'n, 'b) env \<Rightarrow> label_data \<Rightarrow> completion_data \<Rightarrow> (('s, 'n, 'b) worker, unit) redis_op" where
  "maybe_process_continuation env l c =
     (if cont_kind (l_continuation l) = ContNone then ret ()
      else op_catch
        (op_bind (wk_continue env l c) (\<lambda>chained.
           case chained of None \<Rightarrow> ret () | Some l' \<Rightarrow> publish_chained_label env l'))
        (\<lambda>e. ret ()))"

subsection \<open>Writes and reads\<close>

definition backend_check :: "backend_result \<Rightarrow> (('s, 'n, 'b) worker, unit) redis_op" where
  "backend_check r = (if br_success r then ret () else throw (br_error r))"

definition run_label_pipeline :: "('s, 'n, 'b) env \<Rightarrow> label_data \<Rightarrow> bytes \<Rightarrow> (('s, 'n, 'b) worker, bytes) redis_op" where
  "run_label_pipeline env l blob =
     (if l_pipeline l = [] then ret blob
      else (case execute_pipeline (l_pipeline l) blob (e_repo env) of
              Inl e \<Rightarrow> throw (''SDS pipeline failed: '' @ e) | Inr out \<Rightarrow> ret out))"

definition store_label ::
    "('s, 'n, 'b) env \<Rightarrow> label_data \<Rightarrow> bytes \<Rightarrow> string \<Rightarrow> string \<Rightarrow> u64 \<Rightarrow> u64 \<Rightarrow> string \<Rightarrow>
     (('s, 'n, 'b) worker, completion_result) redis_op" where
  "store_label env l blob scheme path offset len location =
     (case backend_resolve (e_backends env) scheme of
        None \<Rightarrow> throw (''no backend for scheme: '' @ scheme)
      | Some b \<Rightarrow>
          op_bind (wk_store (ab_put b l blob)) (\<lambda>r.
          op_bind (backend_check r) (\<lambda>_.
          op_bind (wk_redis (content_remove (e_redis env) (l_id l) 0 [])) (\<lambda>_.
          op_bind (wk_redis (set_location (e_redis env) path offset len (e_worker_id env))) (\<lambda>_.
          ret \<lparr>cr_status = CompComplete, cr_data_key = [], cr_result_location = location,
               cr_bytes_transferred = of_nat (length blob)\<rparr>)))))"

definition execute_write :: "('s, 'n, 'b) env \<Rightarrow> label_data \<Rightarrow> (('s, 'n, 'b) worker, completion_result) redis_op" where
  "execute_write env l =
     (if l_pipeline l \<noteq> [] \<and> e_tier env = Databot
      then throw ''Tier 0 (Databot) worker cannot execute labels with SDS pipelines''
      else
        op_bind (wk_redis (retrieve (e_redis env) (l_id l) 0 [])) (\<lambda>staged.
        op_bind (run_label_pipeline env l staged) (\<lambda>blob.
        if l_dest_uri l \<noteq> []
        then (let uri = parse_uri (l_dest_uri l)
              in store_label env l blob (u_scheme uri) (u_path uri) 0 (of_nat (length blob)) (l_dest_uri l))
        else (case l_destination l of
                FilePath path offset len \<Rightarrow> store_label env l blob ''file'' path offset len path
              | _ \<Rightarrow> throw ''WRITE label missing FilePath destination''))))"

definition fetch_label ::
    "('s, 'n, 'b) env \<Rightarrow> label_data \<Rightarrow> string \<Rightarrow> u64 \<Rightarrow> (('s, 'n, 'b) worker, completion_result) redis_op" where
  "fetch_label env l scheme read_size =
     (case backend_resolve (e_backends env) scheme of
        None \<Rightarrow> throw (''no backend for scheme: '' @ scheme)
      | Some b \<Rightarrow>
          op_bind (wk_store (ab_get b l)) (\<lambda>r.
          if \<not> bd_success r then throw (bd_error r)
          else
            (let data = (if read_size > 0 \<and> length (bd_data r) > unat read_size
                         then take (unat read_size) (bd_data r) else bd_data r);
                 key = data_key (l_id l) 0 []
             in op_bind (wk_redis (stage (e_redis env) (l_id l) data 0 [])) (\<lambda>_.
                ret \<lparr>cr_status = CompComplete, cr_data_key = key, cr_result_location = key,
                     cr_bytes_transferred = of_nat (length data)\<rparr>))))"

text \<open>A read by URI is not cut to size; one by path is, to the label's size or its range.\<close>

definition execute_read :: "('s, 'n, 'b) env \<Rightarrow> label_data \<Rightarrow> (('s, 'n, 'b) worker, completion_result) redis_op" where
  "execute_read env l =
     (if l_source_uri l \<noteq> [] then fetch_label env l (u_scheme (parse_uri (l_source_uri l))) 0
      else (case l_source l of
              FilePath path offset len \<Rightarrow>
                fetch_label env l ''file'' (if l_data_size l > 0 then l_data_size l else len)
            | _ \<Rightarrow> throw ''READ label missing FilePath source''))"

subsection \<open>Supertasks\<close>

definition catalog_executing :: "('s, 'n, 'b) env \<Rightarrow> label_data \<Rightarrow> (('s, 'n, 'b) worker, unit) redis_op" where
  "catalog_executing env l =
     op_bind (wk_redis (set_status (e_redis env) (e_now_ms env) (l_id l) StExecuting)) (\<lambda>_.
     wk_redis (set_flags (e_redis env) (e_now_ms env) (l_id l) (l_flags l)))"

definition catalog_failed :: "('s, 'n, 'b) env \<Rightarrow> u64 \<Rightarrow> string \<Rightarrow> (('s, 'n, 'b) worker, unit) redis_op" where
  "catalog_failed env label_id e =
     op_bind (wk_redis (set_status (e_redis env) (e_now_ms env) label_id StError)) (\<lambda>_.
     wk_redis (set_error (e_redis env) (e_now_ms env) label_id e))"

definition answer ::
    "('s, 'n, 'b) env \<Rightarrow> label_data \<Rightarrow> completion_data \<Rightarrow> (('s, 'n, 'b) worker, unit) redis_op" where
  "answer env l c =
     op_bind (publish_completion env (l_reply_to l) c) (\<lambda>_. maybe_process_continuation env l c)"

definition fresh_completion :: "u64 \<Rightarrow> completion_data" where
  "fresh_completion label_id =
     \<lparr>comp_label_id = label_id, comp_status = CompComplete, comp_error = [], comp_data_key = []\<rparr>"

text \<open>The body of a child's \<^verbatim>\<open>try\<close>; it gives the bytes moved.\<close>

definition run_child :: "('s, 'n, 'b) env \<Rightarrow> label_data \<Rightarrow> (('s, 'n, 'b) worker, u64) redis_op" where
  "run_child env child0 =
     (let child = mark_label_executing (e_now_us env) (e_worker_name env) (e_now_us env) child0 in
      op_bind (catalog_executing env child) (\<lambda>_.
      op_bind (if l_type child = Write then execute_write env child
               else if l_type child = Read
               then op_bind (execute_read env child) (\<lambda>r.
                    op_bind (wk_update (\<lambda>w. w\<lparr>wk_child := (wk_child w)\<lparr>comp_data_key := cr_data_key r\<rparr>\<rparr>)) (\<lambda>_. ret r))
               else throw (''unsupported child label type: '' @ nat_to_string (type_num (l_type child)))) (\<lambda>r.
      op_bind (wk_update (\<lambda>w. w\<lparr>wk_child := (wk_child w)\<lparr>comp_status := cr_status r\<rparr>\<rparr>)) (\<lambda>_.
      op_bind (wk_redis (set_status (e_redis env) (e_now_ms env) (l_id child) StComplete)) (\<lambda>_.
      ret (cr_bytes_transferred r))))))"

text \<open>What the \<^verbatim>\<open>catch\<close> of a child does before it throws on.\<close>

definition child_failed ::
    "('s, 'n, 'b) env \<Rightarrow> label_data \<Rightarrow> string \<Rightarrow> (('s, 'n, 'b) worker, u64) redis_op" where
  "child_failed env child e =
     op_bind (wk_update (\<lambda>w. w\<lparr>wk_child := (wk_child w)\<lparr>comp_status := CompError, comp_error := e\<rparr>\<rparr>)) (\<lambda>_.
     op_bind (catalog_failed env (l_id child) e) (\<lambda>_ w.
     op_bind (answer env child (wk_child w)) (\<lambda>_. throw e) w))"

fun run_children :: "('s, 'n, 'b) env \<Rightarrow> bytes list \<Rightarrow> u64 \<Rightarrow> (('s, 'n, 'b) worker, u64) redis_op" where
  "run_children env [] moved = ret moved"
| "run_children env (payload # ps) moved =
     (case deserialize_label (e_dec env) payload of
        Inl e \<Rightarrow> throw e
      | Inr child \<Rightarrow>
          op_bind (wk_update (\<lambda>w. w\<lparr>wk_child := fresh_completion (l_id child)\<rparr>)) (\<lambda>_.
          op_bind (op_catch (run_child env child) (child_failed env child)) (\<lambda>n w.
          op_bind (answer env child (wk_child w)) (\<lambda>_.
          run_children env ps (moved + n)) w)))"

definition pack_key :: "u64 \<Rightarrow> string" where
  "pack_key label_id = ''labios:supertask:'' @ u64_to_string label_id"

definition execute_composite :: "('s, 'n, 'b) env \<Rightarrow> label_data \<Rightarrow> (('s, 'n, 'b) worker, unit) redis_op" where
  "execute_composite env l =
     op_bind (wk_redis (redis_get_binary (e_redis env) (pack_key (l_id l)))) (\<lambda>packed.
     if packed = [] then throw (''supertask children not found for '' @ u64_to_string (l_id l))
     else
       op_bind (run_children env (unpack_labels packed) 0) (\<lambda>moved.
       wk_redis (redis_del (e_redis env) (pack_key (l_id l)))))"

subsection \<open>The handler\<close>

definition run_label :: "('s, 'n, 'b) env \<Rightarrow> label_data \<Rightarrow> (('s, 'n, 'b) worker, unit) redis_op" where
  "run_label env l =
     (if l_type l = Write
      then op_bind (execute_write env l) (\<lambda>r.
           wk_update (\<lambda>w. w\<lparr>wk_completion := (wk_completion w)\<lparr>comp_status := cr_status r\<rparr>\<rparr>))
      else if l_type l = Read
      then op_bind (execute_read env l) (\<lambda>r.
           wk_update (\<lambda>w. w\<lparr>wk_completion := (wk_completion w)\<lparr>comp_status := cr_status r, comp_data_key := cr_data_key r\<rparr>\<rparr>))
      else if l_type l = Composite
      then op_bind (execute_composite env l) (\<lambda>_.
           wk_update (\<lambda>w. w\<lparr>wk_completion := (wk_completion w)\<lparr>comp_status := CompComplete\<rparr>\<rparr>))
      else throw (''unsupported label type: '' @ nat_to_string (type_num (l_type l))))"

definition start_label :: "('s, 'n, 'b) env \<Rightarrow> label_data \<Rightarrow> (('s, 'n, 'b) worker, unit) redis_op" where
  "start_label env l0 =
     (let l = mark_label_executing (e_now_us env) (e_worker_name env) (e_now_us env) l0
      in op_bind (catalog_executing env l) (\<lambda>_. run_label env l))"

text \<open>The \<^verbatim>\<open>try\<close> of the handler once it has the label.\<close>

definition handle_label :: "('s, 'n, 'b) env \<Rightarrow> label_data \<Rightarrow> (('s, 'n, 'b) worker, unit) redis_op" where
  "handle_label env l =
     op_bind (start_label env l) (\<lambda>_.
     op_bind (wk_redis (set_status (e_redis env) (e_now_ms env) (l_id l) StComplete)) (\<lambda>_ w.
     op_bind (answer env l (wk_completion w)) (\<lambda>_.
     wk_update (\<lambda>w. w\<lparr>wk_active := wk_active w - 1\<rparr>)) w))"

text \<open>The \<^verbatim>\<open>catch\<close> of the handler; \<open>None\<close> when the message was no label.\<close>

definition label_failed ::
    "('s, 'n, 'b) env \<Rightarrow> label_data option \<Rightarrow> string \<Rightarrow> (('s, 'n, 'b) worker, unit) redis_op" where
  "label_failed env have e =
     op_bind (wk_update (\<lambda>w. w\<lparr>wk_active := wk_active w - 1,
        wk_completion := (wk_completion w)\<lparr>comp_status := CompError, comp_error := e\<rparr>\<rparr>)) (\<lambda>_ w.
     op_bind (op_catch (if comp_label_id (wk_completion w) \<noteq> 0
                        then catalog_failed env (comp_label_id (wk_completion w)) e else ret ()) (\<lambda>_. ret ())) (\<lambda>_.
       case have of
         None \<Rightarrow> ret ()
       | Some l \<Rightarrow> op_catch (answer env l (wk_completion w)) (\<lambda>_. ret ())) w)"

definition handle_message :: "('s, 'n, 'b) env \<Rightarrow> bytes \<Rightarrow> (('s, 'n, 'b) worker, unit) redis_op" where
  "handle_message env payload =
     op_bind (wk_update (\<lambda>w. w\<lparr>wk_active := wk_active w + 1, wk_suspended := False, wk_completion := fresh_completion 0\<rparr>)) (\<lambda>_.
     case deserialize_label (e_dec env) payload of
       Inl e \<Rightarrow> label_failed env None e
     | Inr l \<Rightarrow>
         op_bind (wk_update (\<lambda>w. w\<lparr>wk_completion := (wk_completion w)\<lparr>comp_label_id := l_id l\<rparr>\<rparr>)) (\<lambda>_.
         op_catch (handle_label env l) (label_failed env (Some l))))"

subsection \<open>What execution leaves alone\<close>

definition keeps :: "('w \<Rightarrow> bool) \<Rightarrow> ('w, 'a) redis_op \<Rightarrow> bool" where
  "keeps P m \<longleftrightarrow> (\<forall>w. P w \<longrightarrow> P (snd (m w)))"

named_theorems keeps_rules \<open>operations that keep a property of the state\<close>

lemma keeps_ret [keeps_rules]: "keeps P (ret x)"
  by (simp add: keeps_def ret_def)

lemma keeps_throw [keeps_rules]: "keeps P (throw e)"
  by (simp add: keeps_def throw_def)

lemma keeps_bind [keeps_rules]: "keeps P m \<Longrightarrow> (\<And>x. keeps P (f x)) \<Longrightarrow> keeps P (op_bind m f)"
  by (fastforce simp: keeps_def op_bind_def split: prod.split sum.split)

lemma keeps_if [keeps_rules]: "(c \<Longrightarrow> keeps P m) \<Longrightarrow> (\<not> c \<Longrightarrow> keeps P m') \<Longrightarrow> keeps P (if c then m else m')"
  by simp

text \<open>The keys of staged data and locations are not keys of the catalog.\<close>

lemma catalog_key_apart [simp]:
  "data_key j app room \<noteq> catalog_key i" "location_key f \<noteq> catalog_key i" "offset_location_key f \<noteq> catalog_key i"
  "catalog_key i \<noteq> data_key j app room" "catalog_key i \<noteq> location_key f" "catalog_key i \<noteq> offset_location_key f"
  by (simp_all add: data_key_def location_key_def offset_location_key_def catalog_key_def)

lemma hash_key_cong: "d' k = d k \<Longrightarrow> hash_key d' k \<longleftrightarrow> hash_key d k"
  by (simp add: hash_key_def)

text \<open>
  Between receiving a label and answering it: its catalog entry is a hash or absent, nothing has
  been sent, and the completion is still that of a success.
\<close>

definition executing :: "('s \<Rightarrow> redis_db) \<Rightarrow> ('n \<Rightarrow> nats_message list) \<Rightarrow> u64 \<Rightarrow> nats_message list \<Rightarrow> int \<Rightarrow>
    ('s, 'n, 'b) worker \<Rightarrow> bool" where
  "executing db sent i ms a w \<longleftrightarrow>
     hash_key (db (io_redis (wk_io w))) (catalog_key i) \<and> sent (nc_lib (io_nats (wk_io w))) = ms \<and>
     wk_active w = a \<and> comp_label_id (wk_completion w) = i \<and>
     comp_status (wk_completion w) = CompComplete \<and> comp_error (wk_completion w) = []"

lemma keeps_store [keeps_rules]: "keeps (executing db sent i ms a) (wk_store m)"
  by (simp add: keeps_def wk_store_def executing_def case_prod_beta Let_def)

lemma keeps_redis:
  assumes "\<And>d. hash_key d (catalog_key i) \<Longrightarrow> \<exists>r d'. yields db m d r d' \<and> hash_key d' (catalog_key i)"
  shows "keeps (executing db sent i ms a) (wk_redis m)"
  using assms
  by (fastforce simp: keeps_def wk_redis_def on_redis_def executing_def yields_def case_prod_beta Let_def)

context io_link
begin

lemma keeps_retrieve [keeps_rules]: "keeps (executing db sent i ms a) (wk_redis (retrieve exec j app room))"
  unfolding retrieve_def by (rule keeps_redis) (use yields_get_binary in blast)

lemma keeps_remove [keeps_rules]: "keeps (executing db sent i ms a) (wk_redis (content_remove exec j app room))"
  unfolding content_remove_def by (rule keeps_redis) (use yields_del hash_key_del in blast)

lemma keeps_stage [keeps_rules]: "keeps (executing db sent i ms a) (wk_redis (stage exec j data app room))"
  unfolding stage_def
proof (rule keeps_redis)
  fix d
  assume "hash_key d (catalog_key i)"
  then have "hash_key (d(data_key j app room \<mapsto> VStr (string_of_bytes data))) (catalog_key i)"
    by (subst hash_key_cong [where d = d]) simp_all
  then show "\<exists>r d'. yields db (redis_set_binary exec (data_key j app room) data) d r d' \<and> hash_key d' (catalog_key i)"
    using yields_set_binary by blast
qed

lemma keeps_set_location [keeps_rules]: "keeps (executing db sent i ms a) (wk_redis (set_location exec f off len wid))"
proof (rule keeps_redis)
  fix d
  assume "hash_key d (catalog_key i)"
  then have "hash_key (loc_effect f (off, len, wid) d) (catalog_key i)"
    by (subst hash_key_cong [where d = d]) (simp_all add: loc_effect_def)
  then show "\<exists>r d'. yields db (set_location exec f off len wid) d r d' \<and> hash_key d' (catalog_key i)"
    using yields_set_location by blast
qed

lemma yields_hset_twice:
  "yields db (op_bind (redis_hset exec k f v) (\<lambda>_. redis_hset exec k f' v')) d (Inr ()) (db_hset k f' v' (db_hset k f v d))"
  by (rule yields_bind [OF yields_hset], rule yields_hset)

lemma keeps_set_status [keeps_rules]: "keeps (executing db sent i ms a) (wk_redis (set_status exec now j st))"
  unfolding set_status_def by (rule keeps_redis, intro exI conjI, rule yields_hset_twice) simp

lemma keeps_set_flags [keeps_rules]: "keeps (executing db sent i ms a) (wk_redis (set_flags exec now j fl))"
  unfolding set_flags_def by (rule keeps_redis, intro exI conjI, rule yields_hset_twice) simp

lemma keeps_case_option:
  "(a = None \<Longrightarrow> keeps P m) \<Longrightarrow> (\<And>x. a = Some x \<Longrightarrow> keeps P (f x)) \<Longrightarrow> keeps P (case a of None \<Rightarrow> m | Some x \<Rightarrow> f x)"
  by (cases a) simp_all

lemma keeps_store_label:
  assumes "e_redis env = exec"
  shows "keeps (executing db sent i ms a) (store_label env l blob scheme path off len loc)"
  unfolding store_label_def backend_check_def assms
  by (intro keeps_case_option keeps_rules)

lemma keeps_run_pipeline: "keeps P (run_label_pipeline env l blob)"
  by (auto simp: run_label_pipeline_def split: sum.split intro: keeps_rules)

lemma keeps_execute_write:
  assumes "e_redis env = exec"
  shows "keeps (executing db sent i ms a) (execute_write env l)"
proof -
  have "keeps (executing db sent i ms a) (case l_destination l of
      FilePath path off len \<Rightarrow> store_label env l blob ''file'' path off len path
    | _ \<Rightarrow> throw ''WRITE label missing FilePath destination'')" for blob
    by (cases "l_destination l") (simp_all add: keeps_throw keeps_store_label [OF assms])
  then show ?thesis
    unfolding execute_write_def Let_def assms
    by (intro keeps_rules keeps_run_pipeline keeps_store_label [OF assms])
qed

lemma keeps_fetch_label:
  assumes "e_redis env = exec"
  shows "keeps (executing db sent i ms a) (fetch_label env l scheme n)"
  unfolding fetch_label_def Let_def assms
  by (intro keeps_case_option keeps_rules)

lemma keeps_execute_read:
  assumes "e_redis env = exec"
  shows "keeps (executing db sent i ms a) (execute_read env l)"
  unfolding execute_read_def
  by (cases "l_source l") (simp_all add: keeps_throw keeps_fetch_label [OF assms])

end

text \<open>Results of operations.\<close>

definition gives :: "('a \<Rightarrow> bool) \<Rightarrow> ('w, 'a) redis_op \<Rightarrow> bool" where
  "gives Q m \<longleftrightarrow> (\<forall>w x. fst (m w) = Inr x \<longrightarrow> Q x)"

lemma gives_bind: "(\<And>x. gives Q (f x)) \<Longrightarrow> gives Q (op_bind m f)"
  by (auto simp: gives_def op_bind_def split: prod.splits sum.splits)

lemma gives_ret: "Q x \<Longrightarrow> gives Q (ret x)"
  by (simp add: gives_def ret_def)

lemma gives_throw: "gives Q (throw e)"
  by (simp add: gives_def throw_def)

lemma gives_if: "gives Q m \<Longrightarrow> gives Q m' \<Longrightarrow> gives Q (if c then m else m')"
  by simp

lemma keeps_bind_gives:
  assumes "keeps P m" "gives Q m" "\<And>x. Q x \<Longrightarrow> keeps P (f x)"
  shows "keeps P (op_bind m f)"
  unfolding keeps_def
proof (intro allI impI)
  fix w
  assume "P w"
  obtain r w' where m: "m w = (r, w')" by fastforce
  then have w': "P w'" using assms(1) \<open>P w\<close> by (metis keeps_def snd_conv)
  show "P (snd (op_bind m f w))"
  proof (cases r)
    case (Inl e)
    then show ?thesis using m w' by (simp add: op_bind_def)
  next
    case (Inr x)
    then have "Q x" using assms(2) m by (metis gives_def fst_conv)
    then show ?thesis using assms(3) w' m Inr by (simp add: op_bind_def keeps_def)
  qed
qed

lemma execute_write_status: "gives (\<lambda>r. cr_status r = CompComplete) (execute_write env l)"
proof -
  have store: "gives (\<lambda>r. cr_status r = CompComplete) (store_label env l blob scheme path off len loc)"
    for blob scheme path off len loc
    unfolding store_label_def
    by (cases "backend_resolve (e_backends env) scheme";
        simp only: option.case; (rule gives_throw | intro gives_bind gives_ret; simp))
  then have "gives (\<lambda>r. cr_status r = CompComplete) (case l_destination l of
      FilePath path off len \<Rightarrow> store_label env l blob ''file'' path off len path
    | _ \<Rightarrow> throw ''WRITE label missing FilePath destination'')" for blob
    by (cases "l_destination l") (simp_all add: gives_throw)
  with store show ?thesis
    unfolding execute_write_def Let_def by (intro gives_if gives_throw gives_bind)
qed

lemma execute_read_status: "gives (\<lambda>r. cr_status r = CompComplete) (execute_read env l)"
proof -
  have "gives (\<lambda>r. cr_status r = CompComplete) (fetch_label env l scheme n)" for scheme n
    unfolding fetch_label_def Let_def
    by (cases "backend_resolve (e_backends env) scheme";
        simp only: option.case; (rule gives_throw | intro gives_bind gives_if gives_throw gives_ret; simp))
  then show ?thesis
    unfolding execute_read_def by (cases "l_source l") (simp_all add: gives_throw)
qed

context io_link
begin

lemma keeps_run_label:
  assumes "e_redis env = exec" "l_type l \<noteq> Composite"
  shows "keeps (executing db sent i ms a) (run_label env l)"
proof -
  have upd: "keeps (executing db sent i ms a) (wk_update (\<lambda>w. w\<lparr>wk_completion := (wk_completion w)\<lparr>comp_status := cr_status r\<rparr>\<rparr>))"
    "keeps (executing db sent i ms a) (wk_update (\<lambda>w. w\<lparr>wk_completion := (wk_completion w)\<lparr>comp_status := cr_status r, comp_data_key := cr_data_key r\<rparr>\<rparr>))"
    if "cr_status r = CompComplete" for r
    using that by (simp_all add: keeps_def wk_update_def ret_def executing_def)
  have "keeps (executing db sent i ms a) (op_bind (execute_write env l) (\<lambda>r.
           wk_update (\<lambda>w. w\<lparr>wk_completion := (wk_completion w)\<lparr>comp_status := cr_status r\<rparr>\<rparr>)))"
    by (rule keeps_bind_gives [OF keeps_execute_write [OF assms(1)] execute_write_status upd(1)])
  moreover have "keeps (executing db sent i ms a) (op_bind (execute_read env l) (\<lambda>r.
           wk_update (\<lambda>w. w\<lparr>wk_completion := (wk_completion w)\<lparr>comp_status := cr_status r, comp_data_key := cr_data_key r\<rparr>\<rparr>)))"
    by (rule keeps_bind_gives [OF keeps_execute_read [OF assms(1)] execute_read_status upd(2)])
  ultimately show ?thesis
    using assms(2) by (simp add: run_label_def keeps_throw)
qed

lemma keeps_start_label:
  assumes "e_redis env = exec" "l_type l \<noteq> Composite"
  shows "keeps (executing db sent i ms a) (start_label env l)"
proof -
  have "l_type (mark_label_executing now name ts l) = l_type l" for now name ts by (simp add: mark_defs)
  then show ?thesis
    unfolding start_label_def Let_def catalog_executing_def assms(1)
    by (intro keeps_bind keeps_set_status keeps_set_flags keeps_run_label [OF assms(1)]) (simp add: assms(2))
qed

end

subsection \<open>Every label is answered once\<close>

text \<open>What the answer is about: the catalog, the messages, the active count, the completion.\<close>

definition wk_view :: "('s \<Rightarrow> redis_db) \<Rightarrow> ('n \<Rightarrow> nats_message list) \<Rightarrow> ('s, 'n, 'b) worker \<Rightarrow>
    redis_db \<times> nats_message list \<times> int \<times> completion_data" where
  "wk_view db sent w = (db (io_redis (wk_io w)), sent (nc_lib (io_nats (wk_io w))), wk_active w, wk_completion w)"

lemma yields_wk_redis:
  "yields db m d r d' \<Longrightarrow> yields (wk_view db sent) (wk_redis m) (d, rest) r (d', rest)"
  by (cases rest) (auto simp: yields_def wk_redis_def on_redis_def wk_view_def case_prod_beta Let_def)

context io_link
begin

lemma yields_wk_publish:
  "yields (wk_view db sent) (wk_nats (nats_publish lib subject data)) (d, ms, rest) (Inr ()) (d, ms @ [(subject, [], data)], rest)"
  using publish_law [of subject "[]" data]
  by (cases rest) (auto simp: yields_def wk_nats_def on_nats_def nats_publish_def wk_view_def case_prod_beta Let_def ret_def)

lemma yields_answer:
  assumes "e_nats env = lib" "l_reply_to l \<noteq> []" "cont_kind (l_continuation l) = ContNone"
  shows "yields (wk_view db sent) (answer env l c) (d, ms, rest) (Inr ())
     (d, ms @ [(l_reply_to l, [], e_encc env (serialize_completion_core c))], rest)"
  unfolding answer_def publish_completion_def maybe_process_continuation_def assms(1) if_not_P [OF assms(2)] if_P [OF assms(3)]
  by (rule yields_bind [OF yields_wk_publish], rule yields_ret)

lemma yields_of_completion:
  "yields (wk_view db sent) (f c) (d, ms, a, c) r st \<Longrightarrow>
   yields (wk_view db sent) (\<lambda>w. f (wk_completion w) w) (d, ms, a, c) r st"
  by (auto simp: yields_def wk_view_def)

lemma yields_wk_hset_twice:
  "yields (wk_view db sent) (wk_redis (op_bind (redis_hset exec k f v) (\<lambda>_. redis_hset exec k f' v'))) (d, rest) (Inr ())
     (db_hset k f' v' (db_hset k f v d), rest)"
  by (rule yields_wk_redis [OF yields_hset_twice])

lemma yields_catch_Inr: "yields v m d (Inr x) d' \<Longrightarrow> yields v (op_catch m h) d (Inr x) d'"
  by (auto simp: yields_def op_catch_def split: prod.splits)

text \<open>The end of a success and the whole of a failure.\<close>

lemma yields_success:
  assumes "e_redis env = exec" "e_nats env = lib" "l_reply_to l \<noteq> []" "cont_kind (l_continuation l) = ContNone"
    and "hash_key d (catalog_key (l_id l))"
  shows "\<exists>d'. yields (wk_view db sent)
       (op_bind (wk_redis (set_status (e_redis env) now (l_id l) StComplete)) (\<lambda>_ w.
        op_bind (answer env l (wk_completion w)) (\<lambda>_. wk_update (\<lambda>w. w\<lparr>wk_active := wk_active w - 1\<rparr>)) w))
       (d, ms, a, c) (Inr ()) (d', ms @ [(l_reply_to l, [], e_encc env (serialize_completion_core c))], a - 1, c) \<and>
     db_hash d' (catalog_key (l_id l)) ''status'' = Some (status_to_string StComplete)"
proof (intro exI conjI)
  let ?d = "db_hset (catalog_key (l_id l)) ''updated_at'' now (db_hset (catalog_key (l_id l)) ''status'' (status_to_string StComplete) d)"
  have "yields (wk_view db sent)
      (\<lambda>w. op_bind (answer env l (wk_completion w)) (\<lambda>_. wk_update (\<lambda>w. w\<lparr>wk_active := wk_active w - 1\<rparr>)) w)
      (?d, ms, a, c) (Inr ()) (?d, ms @ [(l_reply_to l, [], e_encc env (serialize_completion_core c))], a - 1, c)"
  proof (rule yields_of_completion)
    have "yields (wk_view db sent) (wk_update (\<lambda>w. w\<lparr>wk_active := wk_active w - 1\<rparr>))
        (?d, ms', a, c) (Inr ()) (?d, ms', a - 1, c)" for ms'
      by (simp add: yields_def wk_update_def ret_def wk_view_def)
    from yields_bind [OF yields_answer [OF assms(2-4)] this]
    show "yields (wk_view db sent) (op_bind (answer env l c) (\<lambda>_. wk_update (\<lambda>w. w\<lparr>wk_active := wk_active w - 1\<rparr>)))
      (?d, ms, a, c) (Inr ()) (?d, ms @ [(l_reply_to l, [], e_encc env (serialize_completion_core c))], a - 1, c)" .
  qed
  then show "yields (wk_view db sent)
       (op_bind (wk_redis (set_status (e_redis env) now (l_id l) StComplete)) (\<lambda>_ w.
        op_bind (answer env l (wk_completion w)) (\<lambda>_. wk_update (\<lambda>w. w\<lparr>wk_active := wk_active w - 1\<rparr>)) w))
       (d, ms, a, c) (Inr ()) (?d, ms @ [(l_reply_to l, [], e_encc env (serialize_completion_core c))], a - 1, c)"
    unfolding set_status_def assms(1) by (rule yields_bind [OF yields_wk_hset_twice])
  show "db_hash ?d (catalog_key (l_id l)) ''status'' = Some (status_to_string StComplete)"
    using assms(5) by simp
qed

lemma yields_failure:
  assumes "e_redis env = exec" "e_nats env = lib" "l_reply_to l \<noteq> []" "cont_kind (l_continuation l) = ContNone"
    and "hash_key d (catalog_key i)" "comp_label_id c = i" "i \<noteq> 0"
  shows "\<exists>d'. yields (wk_view db sent) (label_failed env (Some l) e) (d, ms, a, c) (Inr ())
       (d', ms @ [(l_reply_to l, [], e_encc env (serialize_completion_core (c\<lparr>comp_status := CompError, comp_error := e\<rparr>)))],
        a - 1, c\<lparr>comp_status := CompError, comp_error := e\<rparr>) \<and>
     db_hash d' (catalog_key i) ''status'' = Some (status_to_string StError) \<and>
     db_hash d' (catalog_key i) ''error'' = Some e"
proof (intro exI conjI)
  let ?c = "c\<lparr>comp_status := CompError, comp_error := e\<rparr>"
  let ?upd = "wk_update (\<lambda>w. w\<lparr>wk_active := wk_active w - 1,
        wk_completion := (wk_completion w)\<lparr>comp_status := CompError, comp_error := e\<rparr>\<rparr>)"
  let ?d1 = "db_hset (catalog_key i) ''updated_at'' (e_now_ms env) (db_hset (catalog_key i) ''status'' (status_to_string StError) d)"
  let ?d = "db_hset (catalog_key i) ''updated_at'' (e_now_ms env) (db_hset (catalog_key i) ''error'' e ?d1)"
  let ?ms = "ms @ [(l_reply_to l, [], e_encc env (serialize_completion_core ?c))]"
  have upd: "yields (wk_view db sent) ?upd (d, ms, a, c) (Inr ()) (d, ms, a - 1, ?c)"
    by (simp add: yields_def wk_update_def ret_def wk_view_def)
  have cat: "yields (wk_view db sent) (catalog_failed env i e) (d, rest) (Inr ()) (?d, rest)" for rest
    unfolding catalog_failed_def set_status_def set_error_def assms(1)
    by (rule yields_bind [OF yields_wk_hset_twice yields_wk_hset_twice])
  have "yields (wk_view db sent)
     (op_bind (op_catch (if comp_label_id ?c \<noteq> 0 then catalog_failed env (comp_label_id ?c) e else ret ()) (\<lambda>_. ret ()))
       (\<lambda>_. op_catch (answer env l ?c) (\<lambda>_. ret ())))
     (d, ms, a - 1, ?c) (Inr ()) (?d, ?ms, a - 1, ?c)"
  proof (rule yields_bind)
    show "yields (wk_view db sent)
       (op_catch (if comp_label_id ?c \<noteq> 0 then catalog_failed env (comp_label_id ?c) e else ret ()) (\<lambda>_. ret ()))
       (d, ms, a - 1, ?c) (Inr ()) (?d, ms, a - 1, ?c)"
      using yields_catch_Inr [OF cat] assms(6,7) by simp
    show "yields (wk_view db sent) (op_catch (answer env l ?c) (\<lambda>_. ret ())) (?d, ms, a - 1, ?c) (Inr ()) (?d, ?ms, a - 1, ?c)"
      by (rule yields_catch_Inr [OF yields_answer [OF assms(2-4)]])
  qed
  then have "yields (wk_view db sent)
     (\<lambda>w. op_bind (op_catch (if comp_label_id (wk_completion w) \<noteq> 0
                  then catalog_failed env (comp_label_id (wk_completion w)) e else ret ()) (\<lambda>_. ret ()))
       (\<lambda>_. op_catch (answer env l (wk_completion w)) (\<lambda>_. ret ())) w)
     (d, ms, a - 1, ?c) (Inr ()) (?d, ?ms, a - 1, ?c)"
    by (rule yields_of_completion [where f = "\<lambda>c. op_bind (op_catch (if comp_label_id c \<noteq> 0
                  then catalog_failed env (comp_label_id c) e else ret ()) (\<lambda>_. ret ()))
       (\<lambda>_. op_catch (answer env l c) (\<lambda>_. ret ()))"])
  then show "yields (wk_view db sent) (label_failed env (Some l) e) (d, ms, a, c) (Inr ()) (?d, ?ms, a - 1, ?c)"
    unfolding label_failed_def option.case by (rule yields_bind [OF upd])
  show "db_hash ?d (catalog_key i) ''status'' = Some (status_to_string StError)" "db_hash ?d (catalog_key i) ''error'' = Some e"
    using assms(5) by simp_all
qed

end

text \<open>The state in which a label is started.\<close>

definition received :: "u64 \<Rightarrow> ('s, 'n, 'b) worker \<Rightarrow> ('s, 'n, 'b) worker" where
  "received i w = w\<lparr>wk_active := wk_active w + 1, wk_suspended := False, wk_completion := fresh_completion i\<rparr>"

lemma handle_message_label:
  assumes "deserialize_label (e_dec env) payload = Inr l"
  shows "handle_message env payload w = op_catch (handle_label env l) (label_failed env (Some l)) (received (l_id l) w)"
  by (simp add: handle_message_def assms op_bind_def wk_update_def ret_def received_def fresh_completion_def)

text \<open>
  C4: A label that carries a reply address and no continuation is answered exactly once, success
  or failure: the worker publishes one completion of its ID to that address and nothing else. The
  completion and the catalog say complete when the execution went through, and error, with the
  exception's text, when it threw. Afterwards the worker counts as many active labels as before.
\<close>

theorem worker_answers_once:
  assumes "io_link (e_redis env) db (e_nats env) sent"
    and "deserialize_label (e_dec env) payload = Inr l" "l_type l \<noteq> Composite"
    and "cont_kind (l_continuation l) = ContNone" "l_reply_to l \<noteq> []" "l_id l \<noteq> 0"
    and "hash_key (db (io_redis (wk_io w))) (catalog_key (l_id l))"
  shows "\<exists>c w'. handle_message env payload w = (Inr (), w') \<and> wk_active w' = wk_active w \<and>
     sent (nc_lib (io_nats (wk_io w'))) =
       sent (nc_lib (io_nats (wk_io w))) @ [(l_reply_to l, [], e_encc env (serialize_completion_core c))] \<and>
     comp_label_id c = l_id l \<and>
     (case fst (start_label env l (received (l_id l) w)) of
        Inr _ \<Rightarrow> comp_status c = CompComplete \<and> comp_error c = [] \<and>
                 fst (get_status (e_redis env) (l_id l) (io_redis (wk_io w'))) = Inr StComplete
      | Inl e \<Rightarrow> comp_status c = CompError \<and> comp_error c = e \<and>
                 fst (get_status (e_redis env) (l_id l) (io_redis (wk_io w'))) = Inr StError \<and>
                 fst (get_error (e_redis env) (l_id l) (io_redis (wk_io w'))) = Inr (Some e))"
proof -
  let ?i = "l_id l" and ?ms = "sent (nc_lib (io_nats (wk_io w)))" and ?rw = "received (l_id l) w"
  let ?P = "executing db sent ?i ?ms (wk_active w + 1)"
  note link = io_link.axioms(1) [OF assms(1)]
  obtain r w1 where start: "start_label env l ?rw = (r, w1)" by fastforce
  have "?P ?rw" using assms(7) by (simp add: executing_def received_def fresh_completion_def)
  then have w1: "?P w1"
    using io_link.keeps_start_label [OF assms(1) refl assms(3)] start by (metis keeps_def snd_conv)
  let ?d = "db (io_redis (wk_io w1))" and ?c = "wk_completion w1"
  have view: "wk_view db sent w1 = (?d, ?ms, wk_active w + 1, ?c)" and key: "hash_key ?d (catalog_key ?i)"
    and c: "comp_label_id ?c = ?i" "comp_status ?c = CompComplete" "comp_error ?c = []"
    using w1 by (simp_all add: executing_def wk_view_def)
  have reads: "fst (get_status (e_redis env) ?i (io_redis (wk_io w'))) = Inr st"
    if "db_hash (db (io_redis (wk_io w'))) (catalog_key ?i) ''status'' = Some (status_to_string st)" for w' st
    using redis_server.yields_get_status [OF link that] by (auto simp: yields_def)
  show ?thesis
  proof (cases r)
    case (Inr u)
    obtain d' where "yields (wk_view db sent) (op_bind (wk_redis (set_status (e_redis env) (e_now_ms env) ?i StComplete)) (\<lambda>_ w.
        op_bind (answer env l (wk_completion w)) (\<lambda>_. wk_update (\<lambda>w. w\<lparr>wk_active := wk_active w - 1\<rparr>)) w))
        (?d, ?ms, wk_active w + 1, ?c) (Inr ())
        (d', ?ms @ [(l_reply_to l, [], e_encc env (serialize_completion_core ?c))], wk_active w + 1 - 1, ?c)"
      and d': "db_hash d' (catalog_key ?i) ''status'' = Some (status_to_string StComplete)"
      using io_link.yields_success [OF assms(1) refl refl assms(5,4) key] by blast
    from yields_run [OF this(1) view]
    obtain w' where w': "op_bind (wk_redis (set_status (e_redis env) (e_now_ms env) ?i StComplete)) (\<lambda>_ w.
        op_bind (answer env l (wk_completion w)) (\<lambda>_. wk_update (\<lambda>w. w\<lparr>wk_active := wk_active w - 1\<rparr>)) w) w1 = (Inr (), w')"
      "wk_view db sent w' = (d', ?ms @ [(l_reply_to l, [], e_encc env (serialize_completion_core ?c))], wk_active w, ?c)"
      by auto
    have "handle_message env payload w = (Inr (), w')"
      using start w'(1) Inr
      by (simp add: handle_message_label [OF assms(2)] op_catch_def handle_label_def op_bind_def [of "start_label env l"])
    then show ?thesis using start Inr w'(2) d' c reads [of w' StComplete]
      by (intro exI [of _ ?c] exI [of _ w']) (simp add: wk_view_def)
  next
    case (Inl e)
    let ?ce = "?c\<lparr>comp_status := CompError, comp_error := e\<rparr>"
    obtain d' where "yields (wk_view db sent) (label_failed env (Some l) e) (?d, ?ms, wk_active w + 1, ?c) (Inr ())
        (d', ?ms @ [(l_reply_to l, [], e_encc env (serialize_completion_core ?ce))], wk_active w + 1 - 1, ?ce)"
      and d': "db_hash d' (catalog_key ?i) ''status'' = Some (status_to_string StError)"
        "db_hash d' (catalog_key ?i) ''error'' = Some e"
      using io_link.yields_failure [OF assms(1) refl refl assms(5,4) key c(1) assms(6)] by blast
    from yields_run [OF this(1) view]
    obtain w' where w': "label_failed env (Some l) e w1 = (Inr (), w')"
      "wk_view db sent w' = (d', ?ms @ [(l_reply_to l, [], e_encc env (serialize_completion_core ?ce))], wk_active w, ?ce)"
      by auto
    have "handle_message env payload w = (Inr (), w')"
      using start w'(1) Inl
      by (simp add: handle_message_label [OF assms(2)] op_catch_def handle_label_def op_bind_def [of "start_label env l"])
    moreover have "fst (get_error (e_redis env) ?i (io_redis (wk_io w'))) = Inr (Some e)"
      using redis_server.yields_hget [OF link, of "catalog_key ?i" "''error''" "db (io_redis (wk_io w'))"] w'(2) d'(2)
      by (auto simp: yields_def get_error_def wk_view_def)
    ultimately show ?thesis using start Inl w'(2) d' c reads [of w' StError]
      by (intro exI [of _ ?ce] exI [of _ w']) (simp add: wk_view_def)
  qed
qed

definition sample_env :: "label_data \<Rightarrow> (ref_state, nats_message list, fs \<times> ref_state) env" where
  "sample_env l = \<lparr>e_redis = ref_exec, e_nats = ref_lib, e_enc = (\<lambda>_. []), e_dec = (\<lambda>_. serialize_label_core l),
     e_encc = (\<lambda>c. case fbcomp_error c of None \<Rightarrow> [] | Some e \<Rightarrow> bytes_of_string e), e_backends = register_backend ''file'' (posix_backend [''data'']) [],
     e_repo = Map.empty, e_tier = Pipeline, e_worker_id = 3, e_worker_name = ''worker-3'', e_now_us = 1,
     e_now_ms = ''1'', e_new_id = 9\<rparr>"

definition sample_worker :: "(ref_state, nats_message list, fs \<times> ref_state) worker" where
  "sample_worker = \<lparr>wk_io = ref_io, wk_backend = ([([''data''], Dir)], []), wk_channels = [], wk_active = 0,
     wk_suspended = False, wk_completion = fresh_completion 0, wk_child = fresh_completion 0\<rparr>"

definition observe_label :: label_data where
  "observe_label = default_label\<lparr>l_id := 42, l_type := Observe, l_reply_to := ''_INBOX.1''\<rparr>"

lemma observe_label_fails:
  "fst (start_label (sample_env observe_label) observe_label (received 42 sample_worker)) = Inl ''unsupported label type: 5''"
proof -
  have five: "nat_to_string 5 = ''5''" by code_simp
  have "yields (wk_view ref_db (\<lambda>ms. ms)) (run_label (sample_env observe_label) l) st (Inl ''unsupported label type: 5'') st"
    if "l_type l = Observe" for l st
    unfolding run_label_def using that yields_throw by (simp add: five)
  moreover have "l_type (mark_label_executing now name ts observe_label) = Observe" for now name ts
    by (simp add: mark_defs observe_label_def)
  ultimately have run: "yields (wk_view ref_db (\<lambda>ms. ms))
      (run_label (sample_env observe_label) (mark_label_executing now name ts observe_label)) st (Inl ''unsupported label type: 5'') st"
    for st now name ts by blast
  have redis: "e_redis (sample_env observe_label) = ref_exec" by (simp add: sample_env_def)
  have "\<exists>st'. yields (wk_view ref_db (\<lambda>ms. ms)) (start_label (sample_env observe_label) observe_label) (d, rest)
      (Inl ''unsupported label type: 5'') st'" for d rest
    unfolding start_label_def Let_def catalog_executing_def set_status_def set_flags_def redis
    by (rule exI, rule yields_bind, rule yields_bind, rule ref_io.yields_wk_hset_twice,
        rule ref_io.yields_wk_hset_twice, rule run)
  then obtain st' where "yields (wk_view ref_db (\<lambda>ms. ms)) (start_label (sample_env observe_label) observe_label)
      (wk_view ref_db (\<lambda>ms. ms) (received 42 sample_worker)) (Inl ''unsupported label type: 5'') st'"
    unfolding wk_view_def by blast
  then show ?thesis by (simp only: yields_def simp_thms)
qed

theorem worker_answers_once_witness:
  "\<exists>w'. handle_message (sample_env observe_label) [] sample_worker = (Inr (), w') \<and> wk_active w' = 0 \<and>
     nc_lib (io_nats (wk_io w')) = [(''_INBOX.1'', [], bytes_of_string ''unsupported label type: 5'')] \<and>
     fst (get_status ref_exec 42 (io_redis (wk_io w'))) = Inr StError"
proof -
  have "deserialize_label (e_dec (sample_env observe_label)) [] = Inr observe_label"
    by (simp add: sample_env_def deserialize_label_def) code_simp
  moreover have "hash_key (ref_db (io_redis (wk_io sample_worker))) (catalog_key (l_id observe_label))"
    by (simp add: sample_worker_def ref_io_def hash_key_def ref_db_def)
  moreover have "l_type observe_label \<noteq> Composite" "cont_kind (l_continuation observe_label) = ContNone"
    "l_reply_to observe_label = ''_INBOX.1''" "l_id observe_label = 42"
    by (simp_all add: observe_label_def default_defs)
  moreover have "io_link (e_redis (sample_env observe_label)) ref_db (e_nats (sample_env observe_label)) (\<lambda>ms. ms)"
    by (simp add: sample_env_def ref_io.io_link_axioms)
  ultimately obtain c w' where
    "handle_message (sample_env observe_label) [] sample_worker = (Inr (), w')"
    "wk_active w' = wk_active sample_worker"
    "nc_lib (io_nats (wk_io w')) = nc_lib (io_nats (wk_io sample_worker)) @
       [(''_INBOX.1'', [], e_encc (sample_env observe_label) (serialize_completion_core c))]"
    "comp_label_id c = 42" "comp_error c = ''unsupported label type: 5''"
    "fst (get_status (e_redis (sample_env observe_label)) 42 (io_redis (wk_io w'))) = Inr StError"
    using worker_answers_once [of "sample_env observe_label" ref_db "\<lambda>ms. ms" "[]" observe_label sample_worker]
    by (auto simp: observe_label_fails)
  then show ?thesis
    by - (rule exI [of _ w'],
      simp add: sample_env_def sample_worker_def ref_io_def ref_conn_def serialize_completion_core_def maybe_string_def)
qed

end
