(* ===== verification/LabelManager.thy ===== *)
theory LabelManager
  imports Catalog Content Nats LabelCodec
begin

text \<open>
  The label manager (\<^verbatim>\<open>src/labios/label_manager.cpp\<close>) and the session it works in
  (\<^verbatim>\<open>session.cpp\<close>): an I/O call is cut into labels of bounded size, published one by one, and
  the replies are collected in order. The session's state is \<open>session\<close> (both connections, the content
  manager, the configuration and how many labels it has made); what does not change is
  \<open>session_env\<close>. Label identifiers come from \<open>sv_id\<close> (see \<open>Snowflake\<close>), and \<open>sv_world\<close>
  is what the rest of the system does to the servers while the session waits for a reply.
\<close>

subsection \<open>Session\<close>

record ('s, 'n) session_env =
  sv_redis :: "'s server"
  sv_nats :: "'n nats_lib"
  sv_enc :: "fb_label \<Rightarrow> bytes"
  sv_dec :: "bytes \<Rightarrow> fb_completion"
  sv_app_id :: u32
  sv_max_label_size :: u64
  sv_id :: "nat \<Rightarrow> u64"
  sv_now_us :: u64
  sv_now_ms :: string
  sv_buffer :: u64
  sv_world :: "('s, 'n) io \<Rightarrow> ('s, 'n) io"

record ('s, 'n) session =
  se_io :: "('s, 'n) io"
  se_content :: content_manager
  se_config :: config
  se_labels :: nat

type_synonym ('s, 'n, 'a) session_op = "(('s, 'n) session, 'a) redis_op"

definition se_redis :: "('s, 'a) redis_op \<Rightarrow> ('s, 'n, 'a) session_op" where
  "se_redis m w = (let (r, io) = on_redis m (se_io w) in (r, w\<lparr>se_io := io\<rparr>))"

definition se_nats :: "('n nats_conn, 'a) redis_op \<Rightarrow> ('s, 'n, 'a) session_op" where
  "se_nats m w = (let (r, io) = on_nats m (se_io w) in (r, w\<lparr>se_io := io\<rparr>))"

definition new_label_id :: "('s, 'n) session_env \<Rightarrow> ('s, 'n, u64) session_op" where
  "new_label_id env w = ret (sv_id env (se_labels w)) (w\<lparr>se_labels := Suc (se_labels w)\<rparr>)"

subsection \<open>Publishing\<close>

record pending_label =
  pl_label_id :: u64
  pl_reply_data :: bytes
  pl_async_reply :: "nat option"

text \<open>With a maximum of 0 the division is undefined in C++.\<close>

definition label_count :: "u64 \<Rightarrow> u64 \<Rightarrow> u64" where
  "label_count mx data_size = (if data_size = 0 then 0 else (data_size + mx - 1) div mx)"

definition write_label :: "('s, 'n) session_env \<Rightarrow> u64 \<Rightarrow> string \<Rightarrow> u64 \<Rightarrow> u64 \<Rightarrow> u64 \<Rightarrow> label_data" where
  "write_label env i path offset pos n =
     mark_label_created (sv_now_us env) 0
       (default_label\<lparr>l_id := i, l_type := Write, l_source := memory_ptr (sv_buffer env + pos) n,
          l_destination := file_path_range path (offset + pos) n, l_operation := ''write'',
          l_flags := flag_Queued, l_file_key := path, l_app_id := sv_app_id env, l_data_size := n\<rparr>)"

definition read_label :: "('s, 'n) session_env \<Rightarrow> u64 \<Rightarrow> string \<Rightarrow> u64 \<Rightarrow> u64 \<Rightarrow> u64 \<Rightarrow> label_data" where
  "read_label env i path offset pos n =
     mark_label_created (sv_now_us env) 0
       (default_label\<lparr>l_id := i, l_type := Read, l_source := file_path_range path (offset + pos) n,
          l_destination := memory_ptr 0 n, l_operation := ''read'',
          l_flags := flag_Queued, l_file_key := path, l_app_id := sv_app_id env, l_data_size := n\<rparr>)"

definition publish_label :: "('s, 'n) session_env \<Rightarrow> label_data \<Rightarrow> ('s, 'n, pending_label) session_op" where
  "publish_label env l =
     op_bind (se_nats (publish_request_async (sv_nats env) ''labios.labels'' (serialize_label (sv_enc env) l))) (\<lambda>h.
     ret \<lparr>pl_label_id = l_id l, pl_reply_data = [], pl_async_reply = Some h\<rparr>)"

definition publish_write_chunk ::
    "('s, 'n) session_env \<Rightarrow> string \<Rightarrow> u64 \<Rightarrow> u64 \<Rightarrow> bytes \<Rightarrow> ('s, 'n, pending_label) session_op" where
  "publish_write_chunk env path offset pos chunk =
     op_bind (new_label_id env) (\<lambda>i.
     let l = write_label env i path offset pos (of_nat (length chunk)) in
     op_bind (se_redis (stage (sv_redis env) i chunk 0 [])) (\<lambda>_.
     op_bind (se_redis (catalog_create (sv_redis env) (sv_now_ms env) l)) (\<lambda>_.
     publish_label env l)))"

definition publish_read_chunk ::
    "('s, 'n) session_env \<Rightarrow> string \<Rightarrow> u64 \<Rightarrow> u64 \<Rightarrow> u64 \<Rightarrow> ('s, 'n, pending_label) session_op" where
  "publish_read_chunk env path offset pos n =
     op_bind (new_label_id env) (\<lambda>i.
     let l = read_label env i path offset pos n in
     op_bind (se_redis (catalog_create (sv_redis env) (sv_now_ms env) l)) (\<lambda>_.
     publish_label env l))"

text \<open>The loops take what remains; they do not end when the maximum label size is 0 (\<open>None\<close>).\<close>

partial_function (option) write_chunks ::
    "('s, 'n) session_env \<Rightarrow> string \<Rightarrow> u64 \<Rightarrow> u64 \<Rightarrow> bytes \<Rightarrow> pending_label list \<Rightarrow> ('s, 'n) session \<Rightarrow>
     (pending_label list result \<times> ('s, 'n) session) option" where
  "write_chunks env path offset pos rest pending w =
     (if rest = [] then Some (Inr pending, w)
      else
        (let n = min (length rest) (unat (sv_max_label_size env)) in
         case publish_write_chunk env path offset pos (take n rest) w of
           (Inl e, w') \<Rightarrow> Some (Inl e, w')
         | (Inr p, w') \<Rightarrow> write_chunks env path offset (pos + of_nat n) (drop n rest) (pending @ [p]) w'))"

partial_function (option) read_chunks ::
    "('s, 'n) session_env \<Rightarrow> string \<Rightarrow> u64 \<Rightarrow> u64 \<Rightarrow> u64 \<Rightarrow> pending_label list \<Rightarrow> ('s, 'n) session \<Rightarrow>
     (pending_label list result \<times> ('s, 'n) session) option" where
  "read_chunks env path offset pos remaining pending w =
     (if remaining = 0 then Some (Inr pending, w)
      else
        (let n = min remaining (sv_max_label_size env) in
         case publish_read_chunk env path offset pos n w of
           (Inl e, w') \<Rightarrow> Some (Inl e, w')
         | (Inr p, w') \<Rightarrow> read_chunks env path offset (pos + n) (remaining - n) (pending @ [p]) w'))"

definition publish_write ::
    "('s, 'n) session_env \<Rightarrow> string \<Rightarrow> u64 \<Rightarrow> bytes \<Rightarrow> ('s, 'n) session \<Rightarrow>
     (pending_label list result \<times> ('s, 'n) session) option" where
  "publish_write env path offset data w = write_chunks env path offset 0 data [] w"

definition publish_read ::
    "('s, 'n) session_env \<Rightarrow> string \<Rightarrow> u64 \<Rightarrow> u64 \<Rightarrow> ('s, 'n) session \<Rightarrow>
     (pending_label list result \<times> ('s, 'n) session) option" where
  "publish_read env path offset sz w = read_chunks env path offset 0 sz [] w"

subsection \<open>Waiting\<close>

text \<open>Waiting changes the pending labels too, also when it throws, so they are part of the result.\<close>

definition await_reply :: "('s, 'n) session_env \<Rightarrow> nat \<Rightarrow> ('s, 'n, bytes) session_op" where
  "await_reply env h w = se_nats (async_wait h) (w\<lparr>se_io := sv_world env (se_io w)\<rparr>)"

definition resolve_reply ::
    "('s, 'n) session_env \<Rightarrow> pending_label \<Rightarrow> ('s, 'n) session \<Rightarrow> unit result \<times> pending_label \<times> ('s, 'n) session" where
  "resolve_reply env p w =
     (case pl_async_reply p of
        Some h \<Rightarrow>
          if pl_reply_data p = []
          then (case await_reply env h w of
                  (Inl e, w') \<Rightarrow> (Inl e, p, w')
                | (Inr d, w') \<Rightarrow> (Inr (), p\<lparr>pl_reply_data := d, pl_async_reply := None\<rparr>, w'))
          else (Inr (), p, w)
      | None \<Rightarrow> (Inr (), p, w))"

definition deserialize_completion :: "('s, 'n) session_env \<Rightarrow> bytes \<Rightarrow> completion_data" where
  "deserialize_completion env buf = deserialize_completion_core (sv_dec env buf)"

fun label_wait ::
    "('s, 'n) session_env \<Rightarrow> pending_label list \<Rightarrow> ('s, 'n) session \<Rightarrow>
     unit result \<times> pending_label list \<times> ('s, 'n) session" where
  "label_wait env [] w = (Inr (), [], w)"
| "label_wait env (p # ps) w =
     (case resolve_reply env p w of
        (Inl e, p', w') \<Rightarrow> (Inl e, p' # ps, w')
      | (Inr _, p', w') \<Rightarrow>
          (let comp = deserialize_completion env (pl_reply_data p') in
           if pl_reply_data p' \<noteq> [] \<and> comp_status comp = CompError
           then (Inl (''label '' @ u64_to_string (pl_label_id p) @ '' failed: '' @ comp_error comp), p' # ps, w')
           else (let (r, ps', w'') = label_wait env ps w' in (r, p' # ps', w''))))"

definition take_staged :: "('s, 'n) session_env \<Rightarrow> string \<Rightarrow> ('s, 'n, bytes) session_op" where
  "take_staged env key =
     op_bind (se_redis (retrieve_key (sv_redis env) key)) (\<lambda>data.
     op_bind (se_redis (remove_key (sv_redis env) key)) (\<lambda>_. ret data))"

fun label_wait_read ::
    "('s, 'n) session_env \<Rightarrow> bytes \<Rightarrow> pending_label list \<Rightarrow> ('s, 'n) session \<Rightarrow>
     bytes result \<times> pending_label list \<times> ('s, 'n) session" where
  "label_wait_read env acc [] w = (Inr acc, [], w)"
| "label_wait_read env acc (p # ps) w =
     (case resolve_reply env p w of
        (Inl e, p', w') \<Rightarrow> (Inl e, p' # ps, w')
      | (Inr _, p', w') \<Rightarrow>
          (let comp = deserialize_completion env (pl_reply_data p') in
           if pl_reply_data p' = []
           then (let (r, ps', w'') = label_wait_read env acc ps w' in (r, p' # ps', w''))
           else if comp_status comp = CompError
           then (Inl (''read label '' @ u64_to_string (pl_label_id p) @ '' failed: '' @ comp_error comp), p' # ps, w')
           else
             (case take_staged env (if comp_data_key comp = [] then data_key (pl_label_id p) 0 [] else comp_data_key comp) w' of
                (Inl e, w'') \<Rightarrow> (Inl e, p' # ps, w'')
              | (Inr data, w'') \<Rightarrow>
                  (let (r, ps', w3) = label_wait_read env (acc @ data) ps w'' in (r, p' # ps', w3)))))"

subsection \<open>What a write publishes\<close>

text \<open>The pieces of the data, and the labels that carry them.\<close>

function chunks :: "nat \<Rightarrow> bytes \<Rightarrow> bytes list" where
  "chunks m data = (if data = [] \<or> m = 0 then [] else take m data # chunks m (drop m data))"
  by pat_completeness auto
termination by (relation "measure (\<lambda>(m, data). length data)") auto

declare chunks.simps [simp del]

fun chunk_labels :: "('s, 'n) session_env \<Rightarrow> string \<Rightarrow> u64 \<Rightarrow> nat \<Rightarrow> u64 \<Rightarrow> bytes list \<Rightarrow> label_data list" where
  "chunk_labels env path offset k pos [] = []"
| "chunk_labels env path offset k pos (c # cs) =
     write_label env (sv_id env k) path offset pos (of_nat (length c)) #
     chunk_labels env path offset (Suc k) (pos + of_nat (length c)) cs"

lemma chunks_concat: "0 < m \<Longrightarrow> concat (chunks m data) = data"
proof (induction m data rule: chunks.induct)
  case (1 m data)
  then show ?case by (subst chunks.simps) simp
qed

lemma chunks_length: "0 < m \<Longrightarrow> length (chunks m data) = (length data + m - 1) div m"
proof (induction m data rule: chunks.induct)
  case (1 m data)
  show ?case
  proof (cases "data = []")
    case False
    have split: "length data + m - 1 = (length data - 1) + m" using False by (cases data) auto
    have "(length data + m - 1) div m = Suc ((length data - 1) div m)"
      unfolding split using 1(2) by (simp add: div_add_self2)
    moreover have "(length (drop m data) + m - 1) div m = (length data - 1) div m"
    proof (cases "length data \<le> m")
      case True
      then show ?thesis using False 1(2) by (simp add: less_imp_diff_less div_less)
    next
      case False
      then show ?thesis using 1(2) by simp
    qed
    moreover have "length (chunks m data) = Suc (length (chunks m (drop m data)))"
      using False 1(2) by (subst chunks.simps) simp
    ultimately show ?thesis using 1 False by simp
  next
    case True
    moreover have "length (chunks m []) = 0" by (subst chunks.simps) simp
    ultimately show ?thesis using 1(2) by simp
  qed
qed

lemma chunks_sizes: "c \<in> set (chunks m data) \<Longrightarrow> 0 < length c \<and> length c \<le> m"
proof (induction m data rule: chunks.induct)
  case (1 m data)
  then have "c = take m data \<or> c \<in> set (chunks m (drop m data))" "data \<noteq> []" "m \<noteq> 0"
    by (subst (asm) (2) chunks.simps, auto split: if_splits)+
  then show ?case using 1(1) by auto
qed

text \<open>What a session shows: database, messages (without reply subjects), handles, labels made.\<close>

definition se_view :: "('s \<Rightarrow> redis_db) \<Rightarrow> ('n \<Rightarrow> nats_message list) \<Rightarrow> ('s, 'n) session \<Rightarrow>
    redis_db \<times> (string \<times> bytes) list \<times> nat \<times> nat" where
  "se_view db sent w =
     (db (io_redis (se_io w)), map (\<lambda>(s, r, b). (s, b)) (sent (nc_lib (io_nats (se_io w)))),
      length (async_replies (io_nats (se_io w))), se_labels w)"

lemma yields_se_redis:
  "yields db m d r d' \<Longrightarrow> yields (se_view db sent) (se_redis m) (d, rest) r (d', rest)"
  by (cases rest) (auto simp: yields_def se_redis_def on_redis_def se_view_def case_prod_beta Let_def)

lemma yields_new_label_id:
  "yields (se_view db sent) (new_label_id env) (d, ms, n, k) (Inr (sv_id env k)) (d, ms, n, Suc k)"
  by (auto simp: yields_def new_label_id_def ret_def se_view_def)

definition label_message :: "('s, 'n) session_env \<Rightarrow> label_data \<Rightarrow> string \<times> bytes" where
  "label_message env l = (''labios.labels'', serialize_label (sv_enc env) l)"

text \<open>The catalog entry of a new label.\<close>

definition create_effect :: "string \<Rightarrow> label_data \<Rightarrow> redis_db \<Rightarrow> redis_db" where
  "create_effect now l d =
     (let key = catalog_key (l_id l) in
      fold (\<lambda>(f, v). db_hset key f v)
        [(''status'', ''queued''), (''app_id'', nat_to_string (unat (l_app_id l))),
         (''type'', nat_to_string (type_num (l_type l))), (''flags'', nat_to_string (unat (l_flags l))),
         (''priority'', nat_to_string (unat (l_priority l))), (''operation'', l_operation l),
         (''created_at'', now), (''updated_at'', now)] d)"

text \<open>One piece: its data is staged, then its label gets a catalog entry.\<close>

definition write_effect :: "('s, 'n) session_env \<Rightarrow> label_data \<Rightarrow> bytes \<Rightarrow> redis_db \<Rightarrow> redis_db" where
  "write_effect env l c d = create_effect (sv_now_ms env) l (d(data_key (l_id l) 0 [] \<mapsto> VStr (string_of_bytes c)))"

lemma create_effect_other: "k \<noteq> catalog_key (l_id l) \<Longrightarrow> create_effect now l d k = d k"
  by (simp add: create_effect_def Let_def)

lemma create_effect_status:
  assumes "hash_key d (catalog_key (l_id l))"
  shows "db_hash (create_effect now l d) (catalog_key (l_id l)) ''status'' = Some ''queued''"
    and "hash_key (create_effect now l d) k \<longleftrightarrow> hash_key d k"
proof -
  show "db_hash (create_effect now l d) (catalog_key (l_id l)) ''status'' = Some ''queued''"
    using assms by (simp add: create_effect_def Let_def)
  show "hash_key (create_effect now l d) k \<longleftrightarrow> hash_key d k"
  proof (cases "k = catalog_key (l_id l)")
    case True
    then show ?thesis using assms by (simp add: create_effect_def Let_def)
  next
    case False
    then show ?thesis by (simp add: hash_key_def create_effect_other)
  qed
qed

lemma data_key_not_catalog [simp]: "data_key i app room \<noteq> catalog_key j" "catalog_key j \<noteq> data_key i app room"
  by (simp_all add: data_key_def catalog_key_def)

lemma label_ids [simp]: "l_id (write_label env i path off pos n) = i" "l_id (read_label env i path off pos n) = i"
  by (simp_all add: write_label_def read_label_def mark_label_created_def stamp_created_def Let_def)

context io_link
begin

lemma yields_catalog_create: "yields db (catalog_create exec now l) d (Inr ()) (create_effect now l d)"
proof -
  have "yields db (catalog_create exec now l) d (Inr ())
      (fold (\<lambda>cmd. db_hset (cmd ! 1) (cmd ! 2) (cmd ! 3))
        [pipeline_hset (catalog_key (l_id l)) ''status'' ''queued'',
         pipeline_hset (catalog_key (l_id l)) ''app_id'' (nat_to_string (unat (l_app_id l))),
         pipeline_hset (catalog_key (l_id l)) ''type'' (nat_to_string (type_num (l_type l))),
         pipeline_hset (catalog_key (l_id l)) ''flags'' (nat_to_string (unat (l_flags l))),
         pipeline_hset (catalog_key (l_id l)) ''priority'' (nat_to_string (unat (l_priority l))),
         pipeline_hset (catalog_key (l_id l)) ''operation'' (l_operation l),
         pipeline_hset (catalog_key (l_id l)) ''created_at'' now,
         pipeline_hset (catalog_key (l_id l)) ''updated_at'' now] d)"
    unfolding catalog_create_def Let_def by (rule yields_pipeline_hset) auto
  then show ?thesis by (simp add: create_effect_def pipeline_hset_def Let_def)
qed

lemma yields_publish_label:
  assumes "sv_nats env = lib"
  shows "yields (se_view db sent) (publish_label env l) (d, ms, n, k)
     (Inr \<lparr>pl_label_id = l_id l, pl_reply_data = [], pl_async_reply = Some n\<rparr>) (d, ms @ [label_message env l], Suc n, k)"
  unfolding yields_def
proof (intro allI impI)
  fix w
  assume w: "se_view db sent w = (d, ms, n, k)"
  obtain c' reply where c': "publish_request_async lib ''labios.labels'' (serialize_label (sv_enc env) l) (io_nats (se_io w)) =
      (Inr (length (async_replies (io_nats (se_io w)))), c')"
    "sent (nc_lib c') = sent (nc_lib (io_nats (se_io w))) @ [(''labios.labels'', reply, serialize_label (sv_enc env) l)]"
    "async_replies c' = async_replies (io_nats (se_io w)) @ [None]"
    using publish_request_async_sends by blast
  then show "fst (publish_label env l w) = Inr \<lparr>pl_label_id = l_id l, pl_reply_data = [], pl_async_reply = Some n\<rparr> \<and>
      se_view db sent (snd (publish_label env l w)) = (d, ms @ [label_message env l], Suc n, k)"
    using w by (simp add: publish_label_def se_nats_def on_nats_def op_bind_def ret_def assms se_view_def label_message_def)
qed

lemma yields_write_chunk:
  assumes "sv_redis env = exec" "sv_nats env = lib"
    and lab_def: "lab = (\<lambda>k. write_label env (sv_id env k) path offset pos (of_nat (length c)))"
  shows "yields (se_view db sent) (publish_write_chunk env path offset pos c) (d, ms, n, k)
     (Inr \<lparr>pl_label_id = sv_id env k, pl_reply_data = [], pl_async_reply = Some n\<rparr>)
     (write_effect env (lab k) c d, ms @ [label_message env (lab k)], Suc n, Suc k)"
proof -
  have pub: "yields (se_view db sent) (publish_label env (lab k)) (write_effect env (lab k) c d, ms, n, Suc k)
     (Inr \<lparr>pl_label_id = sv_id env k, pl_reply_data = [], pl_async_reply = Some n\<rparr>)
     (write_effect env (lab k) c d, ms @ [label_message env (lab k)], Suc n, Suc k)"
    using yields_publish_label [OF assms(2), of "lab k"] by (simp add: lab_def)
  have create: "yields (se_view db sent) (se_redis (catalog_create exec (sv_now_ms env) (lab k)))
      (d(data_key (sv_id env k) 0 [] \<mapsto> VStr (string_of_bytes c)), ms, n, Suc k) (Inr ())
      (write_effect env (lab k) c d, ms, n, Suc k)"
    using yields_se_redis [OF yields_catalog_create] by (simp add: write_effect_def lab_def)
  show ?thesis
    unfolding publish_write_chunk_def Let_def assms(1) stage_def
    by (rule yields_bind [OF yields_new_label_id], rule yields_bind [OF yields_se_redis [OF yields_set_binary]],
        unfold lab_def [symmetric] fun_cong [OF lab_def, symmetric], rule yields_bind [OF create], rule pub)
qed

lemma write_chunks_run:
  assumes "sv_redis env = exec" "sv_nats env = lib" "m = unat (sv_max_label_size env)" "0 < m"
    and "se_view db sent w = (d, ms, n, k)"
  shows "\<exists>ls w'. ls = chunk_labels env path offset k pos (chunks m rest) \<and> write_chunks env path offset pos rest pending w =
      Some (Inr (pending @ map (\<lambda>(l, h). \<lparr>pl_label_id = l_id l, pl_reply_data = [], pl_async_reply = Some h\<rparr>)
        (zip ls [n..<n + length ls])), w') \<and>
    se_view db sent w' = (fold (\<lambda>(l, c). write_effect env l c) (zip ls (chunks m rest)) d,
      ms @ map (label_message env) ls, n + length ls, k + length ls)"
  using assms(5)
proof (induction "length rest" arbitrary: rest pos pending w d ms n k rule: less_induct)
  case less
  show ?case
  proof (cases "rest = []")
    case True
    then show ?thesis using less(2) by (subst write_chunks.simps) (simp add: chunks.simps)
  next
    case False
    let ?c = "take m rest" and ?q = "min (length rest) m"
    let ?l = "write_label env (sv_id env k) path offset pos (of_nat (length ?c))"
    have cs: "chunks m rest = ?c # chunks m (drop m rest)" using False assms(4) by (subst chunks.simps) simp
    have q: "take ?q rest = ?c" "drop ?q rest = drop m rest" "of_nat ?q = (of_nat (length ?c) :: u64)" by (auto simp: min_def)
    obtain w1 where w1: "publish_write_chunk env path offset pos ?c w =
        (Inr \<lparr>pl_label_id = sv_id env k, pl_reply_data = [], pl_async_reply = Some n\<rparr>, w1)"
      "se_view db sent w1 = (write_effect env ?l ?c d, ms @ [label_message env ?l], Suc n, Suc k)"
      using yields_run [OF yields_write_chunk [OF assms(1,2) refl] less(2)] by blast
    have step: "write_chunks env path offset pos rest pending w =
        write_chunks env path offset (pos + of_nat (length ?c)) (drop m rest)
          (pending @ [\<lparr>pl_label_id = sv_id env k, pl_reply_data = [], pl_async_reply = Some n\<rparr>]) w1"
      using False w1(1) q assms(3) by (subst write_chunks.simps) (simp add: Let_def)
    have "length (drop m rest) < length rest" using False assms(4) by simp
    from less(1) [OF this w1(2)]
    obtain ls w' where ls: "ls = chunk_labels env path offset (Suc k) (pos + of_nat (length ?c)) (chunks m (drop m rest))"
      and w': "write_chunks env path offset (pos + of_nat (length ?c)) (drop m rest)
          (pending @ [\<lparr>pl_label_id = sv_id env k, pl_reply_data = [], pl_async_reply = Some n\<rparr>]) w1 =
        Some (Inr ((pending @ [\<lparr>pl_label_id = sv_id env k, pl_reply_data = [], pl_async_reply = Some n\<rparr>]) @
          map (\<lambda>(l, h). \<lparr>pl_label_id = l_id l, pl_reply_data = [], pl_async_reply = Some h\<rparr>) (zip ls [Suc n..<Suc n + length ls])), w')"
      "se_view db sent w' = (fold (\<lambda>(l, c). write_effect env l c) (zip ls (chunks m (drop m rest))) (write_effect env ?l ?c d),
        (ms @ [label_message env ?l]) @ map (label_message env) ls, Suc n + length ls, Suc k + length ls)"
      by blast
    have ns: "[n..<n + length (?l # ls)] = n # [Suc n..<Suc n + length ls]" by (simp add: upt_conv_Cons del: upt_Suc)
    show ?thesis
      unfolding step cs chunk_labels.simps ls [symmetric] w'(1)
      by (rule exI [of _ "?l # ls"], rule exI [of _ w'], unfold ns) (simp add: w'(2) del: upt_Suc)
  qed
qed

end

text \<open>What is left in the database of a list of pieces.\<close>

lemma chunk_labels_nth:
  "i < length cs \<Longrightarrow> chunk_labels env path offset k pos cs ! i =
     write_label env (sv_id env (k + i)) path offset (pos + of_nat (length (concat (take i cs)))) (of_nat (length (cs ! i)))"
proof (induction cs arbitrary: i k pos)
  case (Cons c cs)
  then show ?case by (cases i) (simp_all add: add.assoc)
qed simp

lemma chunk_labels_length [simp]: "length (chunk_labels env path offset k pos cs) = length cs"
  by (induction cs arbitrary: k pos) auto

lemma write_effects_other:
  assumes "\<forall>l \<in> set ls. x \<noteq> catalog_key (l_id l) \<and> x \<noteq> data_key (l_id l) 0 []"
  shows "fold (\<lambda>(l, c). write_effect env l c) (zip ls cs) d x = d x"
  using assms
proof (induction ls arbitrary: cs d)
  case (Cons l ls)
  then show ?case by (cases cs) (simp_all add: write_effect_def create_effect_other)
qed simp

lemma write_effects:
  assumes "distinct (map l_id ls)" "length cs = length ls" "i < length ls"
    and "\<forall>l \<in> set ls. hash_key d (catalog_key (l_id l))"
  shows "db_get (fold (\<lambda>(l, c). write_effect env l c) (zip ls cs) d) (data_key (l_id (ls ! i)) 0 []) =
      Some (string_of_bytes (cs ! i)) \<and>
    db_hash (fold (\<lambda>(l, c). write_effect env l c) (zip ls cs) d) (catalog_key (l_id (ls ! i))) ''status'' =
      Some ''queued''"
  using assms
proof (induction ls arbitrary: cs d i)
  case (Cons l ls)
  obtain c cs' where cs: "cs = c # cs'" using Cons.prems(2) by (cases cs) auto
  let ?d = "write_effect env l c d"
  let ?key = "data_key (l_id l) 0 []" and ?cat = "catalog_key (l_id l)"
  have hash: "hash_key ?d (catalog_key j) \<longleftrightarrow> hash_key d (catalog_key j)" if "hash_key d ?cat" for j
  proof -
    have upd: "hash_key (d(?key \<mapsto> v)) (catalog_key j) \<longleftrightarrow> hash_key d (catalog_key j)" for v j
      by (simp add: hash_key_def)
    show ?thesis unfolding write_effect_def using that upd by (subst create_effect_status(2)) simp_all
  qed
  have here: "db_get ?d ?key = Some (string_of_bytes c)" "db_hash ?d ?cat ''status'' = Some ''queued''"
  proof -
    show "db_get ?d ?key = Some (string_of_bytes c)" by (simp add: write_effect_def db_get_def create_effect_other)
    have "hash_key (d(?key \<mapsto> VStr (string_of_bytes c))) ?cat" using Cons.prems(4) by (simp add: hash_key_def)
    then show "db_hash ?d ?cat ''status'' = Some ''queued''"
      unfolding write_effect_def by (rule create_effect_status(1))
  qed
  show ?case
  proof (cases i)
    case 0
    have "fold (\<lambda>(l, c). write_effect env l c) (zip ls cs') ?d ?key = ?d ?key"
      "fold (\<lambda>(l, c). write_effect env l c) (zip ls cs') ?d ?cat = ?d ?cat"
      using Cons.prems(1) by (auto intro!: write_effects_other)
    then show ?thesis using here 0 cs by (simp add: db_get_def db_hash_def)
  next
    case (Suc j)
    then show ?thesis using Cons.IH [of cs' j ?d] Cons.prems cs hash by simp
  qed
qed simp

lemma chunks_take:
  assumes "i < length (chunks m data)"
  shows "length (concat (take i (chunks m data))) = i * m"
  using assms
proof (induction m data arbitrary: i rule: chunks.induct)
  case (1 m data)
  have ne: "\<not> (data = [] \<or> m = 0)" using 1(2) by (subst (asm) chunks.simps) (auto split: if_splits)
  have cs: "chunks m data = take m data # chunks m (drop m data)" using ne by (subst chunks.simps) simp
  show ?case
  proof (cases i)
    case (Suc j)
    then have j: "j < length (chunks m (drop m data))" using 1(2) cs by simp
    then have "drop m data \<noteq> []" by (subst (asm) chunks.simps) (auto split: if_splits)
    then show ?thesis using 1(1) [OF ne j] Suc cs by simp
  qed simp
qed

lemma chunks_count: "0 < m \<Longrightarrow> length (chunks m data) \<le> length data"
proof -
  assume "0 < m"
  have "length (chunks m data) = sum_list (map (\<lambda>_. 1) (chunks m data))" by (simp add: sum_list_triv)
  also have "\<dots> \<le> sum_list (map length (chunks m data))"
    by (rule sum_list_mono) (use chunks_sizes in \<open>force simp: Suc_le_eq\<close>)
  also have "\<dots> = length data" using chunks_concat [OF \<open>0 < m\<close>, of data] by (metis length_concat)
  finally show ?thesis .
qed

text \<open>
  C31: Publishing a write cuts the data into pieces of at most the maximum label size, in as few labels
  as possible: for each piece one write label goes out to the dispatcher, in order, for its part of the
  file; the piece is staged under the label's number and the catalog has it as queued.
\<close>

theorem publish_write_splits:
  assumes "io_link (sv_redis env) db (sv_nats env) sent" "0 < sv_max_label_size env"
    and "inj_on (sv_id env) {se_labels w..<se_labels w + length data}"
    and "\<forall>i. hash_key (db (io_redis (se_io w))) (catalog_key (sv_id env i))"
  shows "\<exists>ls ps w'. publish_write env path offset data w = Some (Inr ps, w') \<and>
    map pl_label_id ps = map l_id ls \<and>
    map (\<lambda>(s, r, b). (s, b)) (sent (nc_lib (io_nats (se_io w')))) =
      map (\<lambda>(s, r, b). (s, b)) (sent (nc_lib (io_nats (se_io w)))) @ map (label_message env) ls \<and>
    (let m = unat (sv_max_label_size env); cs = chunks m data in
     concat cs = data \<and> length ls = length cs \<and> length cs = (length data + m - 1) div m \<and>
     (\<forall>i < length cs. length (cs ! i) \<le> m \<and> l_id (ls ! i) = sv_id env (se_labels w + i) \<and> l_type (ls ! i) = Write \<and>
        l_destination (ls ! i) = FilePath path (offset + of_nat (i * m)) (of_nat (length (cs ! i))) \<and>
        fst (retrieve (sv_redis env) (l_id (ls ! i)) 0 [] (io_redis (se_io w'))) = Inr (cs ! i) \<and>
        fst (get_status (sv_redis env) (l_id (ls ! i)) (io_redis (se_io w'))) = Inr StQueued))"
proof -
  let ?m = "unat (sv_max_label_size env)" and ?k = "se_labels w"
  let ?cs = "chunks ?m data" and ?d = "db (io_redis (se_io w))"
  note server = io_link.axioms(1) [OF assms(1)]
  have m: "0 < ?m" using assms(2) by (simp add: unat_gt_0 word_greater_zero_iff)
  obtain ms n where view: "se_view db sent w = (?d, ms, n, ?k)" "ms = map (\<lambda>(s, r, b). (s, b)) (sent (nc_lib (io_nats (se_io w))))"
    by (simp add: se_view_def)
  obtain ls w' where ls: "ls = chunk_labels env path offset ?k 0 ?cs"
    and w': "publish_write env path offset data w =
        Some (Inr (map (\<lambda>(l, h). \<lparr>pl_label_id = l_id l, pl_reply_data = [], pl_async_reply = Some h\<rparr>) (zip ls [n..<n + length ls])), w')"
      "se_view db sent w' = (fold (\<lambda>(l, c). write_effect env l c) (zip ls ?cs) ?d, ms @ map (label_message env) ls, n + length ls, ?k + length ls)"
    using io_link.write_chunks_run [OF assms(1) refl refl refl m view(1), of path offset 0 data "[]"]
    by (auto simp: publish_write_def)
  have len: "length ls = length ?cs" by (simp add: ls)
  have lab: "ls ! i = write_label env (sv_id env (?k + i)) path offset (of_nat (i * ?m)) (of_nat (length (?cs ! i)))"
    if "i < length ?cs" for i
    using chunk_labels_nth [OF that, of env path offset ?k 0] chunks_take [OF that] by (simp add: ls)
  have ids: "map l_id ls = map (\<lambda>i. sv_id env (?k + i)) [0..<length ?cs]"
    by (rule nth_equalityI) (simp_all add: len lab)
  have "inj_on (\<lambda>i. sv_id env (?k + i)) (set [0..<length ?cs])"
  proof (rule inj_onI)
    fix i j
    assume i: "i \<in> set [0..<length ?cs]" "j \<in> set [0..<length ?cs]" "sv_id env (?k + i) = sv_id env (?k + j)"
    have "?k + i = ?k + j"
      by (rule inj_onD [OF assms(3) i(3)]) (use i(1,2) chunks_count [OF m, of data] in auto)
    then show "i = j" by simp
  qed
  then have dist: "distinct (map l_id ls)" unfolding ids by (simp only: distinct_map distinct_upt simp_thms)
  have hash: "\<forall>l \<in> set ls. hash_key ?d (catalog_key (l_id l))"
    using assms(4) len lab by (auto simp: in_set_conv_nth)
  have db': "db (io_redis (se_io w')) = fold (\<lambda>(l, c). write_effect env l c) (zip ls ?cs) ?d"
    using w'(2) by (simp add: se_view_def)
  have pieces: "length (?cs ! i) \<le> ?m \<and> l_id (ls ! i) = sv_id env (?k + i) \<and> l_type (ls ! i) = Write \<and>
        l_destination (ls ! i) = FilePath path (offset + of_nat (i * ?m)) (of_nat (length (?cs ! i))) \<and>
        fst (retrieve (sv_redis env) (l_id (ls ! i)) 0 [] (io_redis (se_io w'))) = Inr (?cs ! i) \<and>
        fst (get_status (sv_redis env) (l_id (ls ! i)) (io_redis (se_io w'))) = Inr StQueued"
    if i: "i < length ?cs" for i
  proof -
    note eff = write_effects [OF dist len [symmetric], of i ?d env, unfolded len, OF i hash, folded db']
    have "fst (retrieve (sv_redis env) (l_id (ls ! i)) 0 [] (io_redis (se_io w'))) = Inr (?cs ! i)"
      using redis_server.yields_get_binary [OF server, of "data_key (l_id (ls ! i)) 0 []"] eff
      by (simp add: retrieve_def yields_def)
    moreover have "fst (get_status (sv_redis env) (l_id (ls ! i)) (io_redis (se_io w'))) = Inr StQueued"
      using redis_server.yields_get_status [OF server, of "db (io_redis (se_io w'))" "l_id (ls ! i)" StQueued] eff
      by (simp add: yields_def)
    moreover have "length (?cs ! i) \<le> ?m" using chunks_sizes [OF nth_mem [OF i]] by simp
    ultimately show ?thesis
      by (simp add: lab [OF i] write_label_def mark_label_created_def stamp_created_def file_path_range_def Let_def)
  qed
  have "map pl_label_id (map (\<lambda>(l, h). \<lparr>pl_label_id = l_id l, pl_reply_data = [], pl_async_reply = Some h\<rparr>)
      (zip ls [n..<n + length ls])) = map l_id ls"
    by (rule nth_equalityI) simp_all
  moreover have "map (\<lambda>(s, r, b). (s, b)) (sent (nc_lib (io_nats (se_io w')))) = ms @ map (label_message env) ls"
    using w'(2) by (simp add: se_view_def)
  ultimately show ?thesis
    using w'(1) view(2) len pieces chunks_concat [OF m] chunks_length [OF m] unfolding Let_def by blast
qed

text \<open>
  With a maximum label size of 0 publishing a write of any data never returns: the loop publishes
  empty labels for ever.
\<close>

lemma publish_write_diverges:
  assumes "io_link (sv_redis env) db (sv_nats env) sent" "sv_max_label_size env = 0" "data \<noteq> []"
  shows "publish_write env path offset data w = None"
proof -
  have never: "\<not> (sv_max_label_size env = 0 \<and> io_link (sv_redis env) db (sv_nats env) sent \<and> rest \<noteq> [])"
    if "write_chunks env path offset pos rest pending w = Some y"
    for env :: "('a, 'b) session_env" and path offset pos rest pending w y
  proof (rule write_chunks.raw_induct [OF _ that, where P = "\<lambda>env path offset pos rest pending w y.
      \<not> (sv_max_label_size env = 0 \<and> io_link (sv_redis env) db (sv_nats env) sent \<and> rest \<noteq> [])"])
    fix wc and env :: "('a, 'b) session_env" and path offset pos rest pending w y
    assume 1: "\<And>env path offset pos rest pending w y. wc env path offset pos rest pending w = Some y \<Longrightarrow>
        \<not> (sv_max_label_size env = 0 \<and> io_link (sv_redis env) db (sv_nats env) sent \<and> rest \<noteq> [])"
      "(if rest = [] then Some (Inr pending, w)
        else let n = min (length rest) (unat (sv_max_label_size env))
          in case publish_write_chunk env path offset pos (take n rest) w of
               (Inl e, w') \<Rightarrow> Some (Inl e, w')
             | (Inr p, w') \<Rightarrow> wc env path offset (pos + of_nat n) (drop n rest) (pending @ [p]) w') = Some y"
    show "\<not> (sv_max_label_size env = 0 \<and> io_link (sv_redis env) db (sv_nats env) sent \<and> rest \<noteq> [])"
    proof
      assume a: "sv_max_label_size env = 0 \<and> io_link (sv_redis env) db (sv_nats env) sent \<and> rest \<noteq> []"
      then have link: "io_link (sv_redis env) db (sv_nats env) sent" by simp
      obtain d ms n k where view: "se_view db sent w = (d, ms, n, k)" by (metis prod.exhaust)
      obtain p w1 where "publish_write_chunk env path offset pos [] w = (Inr p, w1)"
        using yields_run [OF io_link.yields_write_chunk [OF link refl refl refl] view] by blast
      then have "wc env path offset (pos + of_nat 0) rest (pending @ [p]) w1 = Some y"
        using 1(2) a by (simp add: Let_def)
      then show False using 1(1) a by blast
    qed
  qed
  show ?thesis
    using never [of env path offset 0 data "[]" w] assms by (cases "publish_write env path offset data w") (auto simp: publish_write_def)
qed

subsection \<open>What a read collects\<close>

text \<open>An awaited label: its number, its handle, the reply that has come in and the data it stands for.\<close>

record awaited =
  aw_label_id :: u64
  aw_handle :: nat
  aw_reply :: bytes
  aw_data :: bytes

definition pending_of :: "awaited \<Rightarrow> pending_label" where
  "pending_of a = \<lparr>pl_label_id = aw_label_id a, pl_reply_data = [], pl_async_reply = Some (aw_handle a)\<rparr>"

definition resolved_of :: "awaited \<Rightarrow> pending_label" where
  "resolved_of a = \<lparr>pl_label_id = aw_label_id a, pl_reply_data = aw_reply a, pl_async_reply = None\<rparr>"

definition awaited_key :: "('s, 'n) session_env \<Rightarrow> awaited \<Rightarrow> string" where
  "awaited_key env a =
     (let k = comp_data_key (deserialize_completion env (aw_reply a)) in if k = [] then data_key (aw_label_id a) 0 [] else k)"

definition arrived :: "('s, 'n) session_env \<Rightarrow> ('s \<Rightarrow> redis_db) \<Rightarrow> ('s, 'n) session \<Rightarrow> awaited \<Rightarrow> bool" where
  "arrived env db w a \<longleftrightarrow>
     aw_handle a < length (async_replies (io_nats (se_io w))) \<and>
     async_replies (io_nats (se_io w)) ! aw_handle a = Some (aw_reply a) \<and> aw_reply a \<noteq> [] \<and>
     comp_status (deserialize_completion env (aw_reply a)) = CompComplete \<and>
     db_get (db (io_redis (se_io w))) (awaited_key env a) = Some (string_of_bytes (aw_data a))"

lemma wait_read_run:
  assumes "redis_server (sv_redis env) db" "\<forall>w. sv_world env w = w"
    and "\<forall>a \<in> set as. arrived env db w a" "distinct (map aw_handle as)" "distinct (map (awaited_key env) as)"
  shows "\<exists>w'. label_wait_read env acc (map pending_of as) w = (Inr (acc @ concat (map aw_data as)), map resolved_of as, w') \<and>
     (\<forall>k. db (io_redis (se_io w')) k =
        (if k \<in> awaited_key env ` set as then None else db (io_redis (se_io w)) k))"
  using assms(3-5)
proof (induction as arbitrary: acc w)
  case (Cons a as)
  let ?c = "io_nats (se_io w)" and ?key = "awaited_key env a"
  have a: "arrived env db w a" using Cons.prems(1) by simp
  define w1 where "w1 = w\<lparr>se_io := (se_io w)\<lparr>io_nats := ?c\<lparr>async_replies := (async_replies ?c)[aw_handle a := Some []]\<rparr>\<rparr>\<rparr>"
  let ?p = "(pending_of a)\<lparr>pl_reply_data := aw_reply a, pl_async_reply := None\<rparr>"
  have resolve: "resolve_reply env (pending_of a) w = (Inr (), ?p, w1)"
    using a assms(2)
    by (simp add: resolve_reply_def pending_of_def await_reply_def se_nats_def on_nats_def async_wait_def arrived_def ret_def w1_def)
  obtain s1 where s1: "retrieve_key (sv_redis env) ?key (io_redis (se_io w1)) = (Inr (aw_data a), s1)" "db s1 = db (io_redis (se_io w))"
    using yields_run [OF redis_server.yields_get_binary [OF assms(1)], of "io_redis (se_io w1)" "db (io_redis (se_io w))" ?key] a
    by (auto simp: retrieve_key_def w1_def arrived_def)
  obtain s2 where s2: "remove_key (sv_redis env) ?key s1 = (Inr (), s2)" "db s2 = (db (io_redis (se_io w)))(?key := None)"
    using yields_run [OF redis_server.yields_del [OF assms(1)] s1(2)] by (auto simp: remove_key_def)
  define w2 where "w2 = w1\<lparr>se_io := (se_io w1)\<lparr>io_redis := s2\<rparr>\<rparr>"
  have taken: "take_staged env ?key w1 = (Inr (aw_data a), w2)"
    using s1(1) s2(1) by (simp add: take_staged_def op_bind_def se_redis_def on_redis_def ret_def w2_def)
  have "arrived env db w2 b" if b: "b \<in> set as" for b
  proof -
    have "aw_handle b \<noteq> aw_handle a" "awaited_key env b \<noteq> ?key" using Cons.prems(2,3) b by (auto simp: image_iff)
    then show ?thesis
      using Cons.prems(1) b s2(2) by (auto simp: arrived_def w2_def w1_def)
  qed
  then obtain w' where rest: "label_wait_read env (acc @ aw_data a) (map pending_of as) w2 =
      (Inr ((acc @ aw_data a) @ concat (map aw_data as)), map resolved_of as, w')"
    "\<forall>k. db (io_redis (se_io w')) k = (if k \<in> awaited_key env ` set as then None else db (io_redis (se_io w2)) k)"
    using Cons.IH [of w2 "acc @ aw_data a"] Cons.prems(2,3) by auto
  have reply: "pl_reply_data ?p = aw_reply a" by simp
  have key: "(if comp_data_key (deserialize_completion env (aw_reply a)) = [] then data_key (pl_label_id (pending_of a)) 0 []
      else comp_data_key (deserialize_completion env (aw_reply a))) = ?key"
    by (simp add: awaited_key_def pending_of_def Let_def)
  have "label_wait_read env acc (map pending_of (a # as)) w = (Inr (acc @ concat (map aw_data (a # as))), map resolved_of (a # as), w')"
    unfolding list.map label_wait_read.simps resolve prod.case sum.case Let_def reply key
    using a taken rest(1) by (simp add: arrived_def resolved_of_def) (simp add: pending_of_def)
  moreover have "\<forall>k. db (io_redis (se_io w')) k =
      (if k \<in> awaited_key env ` set (a # as) then None else db (io_redis (se_io w)) k)"
    using rest(2) s2(2) by (auto simp: w2_def)
  ultimately show ?case by blast
qed simp

text \<open>
  C32: Once the replies are in, waiting for the labels of a read gives the concatenation of their data in
  the order of the file, in whatever order the replies came, and leaves none of that data staged.
\<close>

theorem wait_read_collects:
  assumes "redis_server (sv_redis env) db" "\<forall>w. sv_world env w = w"
    and "\<forall>a \<in> set as. arrived env db w a" "distinct (map aw_handle as)" "distinct (map (awaited_key env) as)"
  shows "\<exists>w'. label_wait_read env [] (map pending_of as) w = (Inr (concat (map aw_data as)), map resolved_of as, w') \<and>
     (\<forall>a \<in> set as. fst (exists_key (sv_redis env) (awaited_key env a) (io_redis (se_io w'))) = Inr False)"
proof -
  obtain w' where r: "label_wait_read env [] (map pending_of as) w = (Inr ([] @ concat (map aw_data as)), map resolved_of as, w')"
    "\<forall>k. db (io_redis (se_io w')) k = (if k \<in> awaited_key env ` set as then None else db (io_redis (se_io w)) k)"
    using wait_read_run [OF assms] by blast
  have "fst (exists_key (sv_redis env) (awaited_key env a) (io_redis (se_io w'))) = Inr False" if "a \<in> set as" for a
  proof -
    have none: "db_get (db (io_redis (se_io w'))) (awaited_key env a) = None" using r(2) that by (simp add: db_get_def)
    have "yields db (exists_key (sv_redis env) (awaited_key env a)) (db (io_redis (se_io w'))) (Inr False) (db (io_redis (se_io w')))"
      unfolding exists_key_def
      by (rule yields_bind [OF redis_server.yields_get [OF assms(1)]]) (simp add: none yields_ret)
    then show ?thesis by (simp add: yields_def)
  qed
  then show ?thesis using r(1) by auto
qed

definition sample_session_env :: "u64 \<Rightarrow> (ref_state, nats_message list) session_env" where
  "sample_session_env mx = \<lparr>sv_redis = ref_exec, sv_nats = ref_lib, sv_enc = (\<lambda>_. [1]),
     sv_dec = (\<lambda>_. \<lparr>fbcomp_label_id = 0, fbcomp_status = CompComplete, fbcomp_error = None, fbcomp_data_key = None\<rparr>),
     sv_app_id = 7, sv_max_label_size = mx, sv_id = of_nat, sv_now_us = 1, sv_now_ms = ''1'', sv_buffer = 4096,
     sv_world = (\<lambda>w. w)\<rparr>"

definition sample_session :: "(ref_state, nats_message list) session" where
  "sample_session = \<lparr>se_io = \<lparr>io_redis = [], io_nats = ref_conn\<rparr>,
     se_content = \<lparr>min_label_size = 0, default_policy = ReadThrough, caches = []\<rparr>, se_config = default_cfg, se_labels = 1\<rparr>"

theorem publish_write_splits_witness:
  "\<exists>ps w'. publish_write (sample_session_env 2) ''/f'' 10 [1, 2, 3] sample_session = Some (Inr ps, w') \<and>
     fst (retrieve ref_exec 1 0 [] (io_redis (se_io w'))) = Inr [1, 2] \<and>
     fst (retrieve ref_exec 2 0 [] (io_redis (se_io w'))) = Inr [3] \<and>
     fst (get_status ref_exec 2 (io_redis (se_io w'))) = Inr StQueued"
proof -
  have cs: "chunks 2 [1, 2, 3] = [[1, 2], [3]]" by code_simp
  have f: "sv_max_label_size (sample_session_env 2) = 2" "sv_redis (sample_session_env 2) = ref_exec"
    "sv_id (sample_session_env 2) = of_nat" "se_labels sample_session = 1"
    by (simp_all add: sample_session_env_def sample_session_def)
  have unat_two: "unat (2 :: u64) = 2" by simp
  have "io_link (sv_redis (sample_session_env 2)) ref_db (sv_nats (sample_session_env 2)) (\<lambda>ms. ms)"
    by (simp add: sample_session_env_def ref_io.io_link_axioms)
  moreover have "0 < sv_max_label_size (sample_session_env 2)" by (simp add: sample_session_env_def)
  moreover have "inj_on (sv_id (sample_session_env 2)) {se_labels sample_session..<se_labels sample_session + length [1, 2, 3 :: u8]}"
    by (auto simp: sample_session_env_def sample_session_def inj_on_def numeral_eq_Suc less_Suc_eq_le le_Suc_eq)
  moreover have "\<forall>i. hash_key (ref_db (io_redis (se_io sample_session))) (catalog_key (sv_id (sample_session_env 2) i))"
    by (simp add: sample_session_def hash_key_def ref_db_def)
  ultimately show ?thesis
    using publish_write_splits [of "sample_session_env 2" ref_db "\<lambda>ms. ms" sample_session "[1, 2, 3]" "''/f''" 10]
    unfolding f unat_two cs Let_def by (auto simp: numeral_2_eq_2 All_less_Suc)
qed

theorem wait_read_collects_witness:
  "let w = sample_session\<lparr>se_io := \<lparr>io_redis = [(data_key 5 0 [], LStr (string_of_bytes [1, 2])), (data_key 6 0 [], LStr (string_of_bytes [3]))],
         io_nats = ref_conn\<lparr>async_replies := [Some [9], Some [9]]\<rparr>\<rparr>\<rparr>
   in fst (label_wait_read (sample_session_env 2) [] [\<lparr>pl_label_id = 5, pl_reply_data = [], pl_async_reply = Some 1\<rparr>,
        \<lparr>pl_label_id = 6, pl_reply_data = [], pl_async_reply = Some 0\<rparr>] w) = Inr [1, 2, 3]"
proof -
  let ?w = "sample_session\<lparr>se_io := \<lparr>io_redis = [(data_key 5 0 [], LStr (string_of_bytes [1, 2])), (data_key 6 0 [], LStr (string_of_bytes [3]))],
         io_nats = ref_conn\<lparr>async_replies := [Some [9], Some [9]]\<rparr>\<rparr>\<rparr>"
  let ?as = "[\<lparr>aw_label_id = 5, aw_handle = 1, aw_reply = [9], aw_data = [1, 2]\<rparr>, \<lparr>aw_label_id = 6, aw_handle = 0, aw_reply = [9], aw_data = [3]\<rparr>]"
  have key: "awaited_key (sample_session_env 2) a = data_key (aw_label_id a) 0 []" for a
    by (simp add: awaited_key_def deserialize_completion_def sample_session_env_def deserialize_completion_core_def fb_read_string_def Let_def)
  have "redis_server (sv_redis (sample_session_env 2)) ref_db" by (simp add: sample_session_env_def ref.redis_server_axioms)
  moreover have "\<forall>w. sv_world (sample_session_env 2) w = w" by (simp add: sample_session_env_def)
  moreover have "\<forall>a \<in> set ?as. arrived (sample_session_env 2) ref_db ?w a"
    by (simp add: arrived_def key) (simp add: deserialize_completion_def sample_session_env_def deserialize_completion_core_def db_get_def ref_db_def)
  ultimately show ?thesis
    using wait_read_collects [of "sample_session_env 2" ref_db ?as ?w] by (auto simp: key pending_of_def Let_def simp del: label_wait_read.simps)
qed

end
