(* ===== verification/Workspace.thy ===== *)
theory Workspace
  imports Redis
begin

text \<open>
  Workspaces (\<^verbatim>\<open>src/labios/workspace.cpp\<close>): named key-value stores in Redis with versions and
  an access list. A workspace is its name, owner, expiry, access list and the destroyed flag; its
  mutex makes each method one operation. The clock's time is an argument. Below, the operations
  refine an abstract workspace, which is a map from keys to the data of all their versions.
\<close>

subsection \<open>A workspace\<close>

record workspace =
  ws_name :: string
  ws_owner_app_id :: u32
  ws_ttl_seconds :: u32
  ws_acl :: "u32 list"
  ws_destroyed :: bool

definition new_workspace :: "string \<Rightarrow> u32 \<Rightarrow> u32 \<Rightarrow> workspace" where
  "new_workspace name owner ttl =
     \<lparr>ws_name = name, ws_owner_app_id = owner, ws_ttl_seconds = ttl, ws_acl = [owner], ws_destroyed = False\<rparr>"

definition ws_data_key :: "workspace \<Rightarrow> string \<Rightarrow> string" where
  "ws_data_key ws key = ''labios:ws:'' @ ws_name ws @ '':'' @ key"

definition ws_version_key :: "workspace \<Rightarrow> string \<Rightarrow> u64 \<Rightarrow> string" where
  "ws_version_key ws key version = ''labios:ws:'' @ ws_name ws @ '':'' @ key @ '':v'' @ u64_to_string version"

definition ws_meta_key :: "workspace \<Rightarrow> string \<Rightarrow> string" where
  "ws_meta_key ws key = ''labios:ws:'' @ ws_name ws @ '':_meta:'' @ key"

definition ws_index_key :: "workspace \<Rightarrow> string" where
  "ws_index_key ws = ''labios:ws:'' @ ws_name ws @ '':_index''"

definition access_denied :: "string \<Rightarrow> u32 \<Rightarrow> string" where
  "access_denied name app_id =
     ''workspace '' @ [CHR 0x27] @ name @ [CHR 0x27] @ '': access denied for app_id '' @ nat_to_string (unat app_id)"

definition check_access :: "workspace \<Rightarrow> u32 \<Rightarrow> ('s, unit) redis_op" where
  "check_access ws app_id =
     (if app_id \<in> set (ws_acl ws) then ret ()
      else throw (access_denied (ws_name ws) app_id))"

definition grant_access :: "u32 \<Rightarrow> workspace \<Rightarrow> workspace" where
  "grant_access app_id ws = ws\<lparr>ws_acl := List.insert app_id (ws_acl ws)\<rparr>"

definition revoke_access :: "u32 \<Rightarrow> workspace \<Rightarrow> workspace" where
  "revoke_access app_id ws =
     (if app_id = ws_owner_app_id ws then ws else ws\<lparr>ws_acl := removeAll app_id (ws_acl ws)\<rparr>)"

definition has_access :: "workspace \<Rightarrow> u32 \<Rightarrow> bool" where
  "has_access ws app_id \<longleftrightarrow> app_id \<in> set (ws_acl ws)"

subsection \<open>Data\<close>

definition workspace_put ::
    "'s server \<Rightarrow> u64 \<Rightarrow> workspace \<Rightarrow> string \<Rightarrow> bytes \<Rightarrow> u32 \<Rightarrow> ('s, u64) redis_op" where
  "workspace_put exec now_us ws key data app_id =
     op_bind (check_access ws app_id) (\<lambda>_.
     op_bind (redis_hincrby exec (ws_meta_key ws key) ''version'' 1) (\<lambda>version.
     let mk = ws_meta_key ws key; dk = ws_data_key ws key; vk = ws_version_key ws key (of_int version) in
     op_bind (redis_set_binary exec dk data) (\<lambda>_.
     op_bind (redis_set_binary exec vk data) (\<lambda>_.
     op_bind (redis_hset exec mk ''size'' (nat_to_string (length data))) (\<lambda>_.
     op_bind (redis_hset exec mk ''updated_us'' (u64_to_string now_us)) (\<lambda>_.
     op_bind (if ws_ttl_seconds ws > 0
              then op_each (\<lambda>k. redis_expire exec k (ws_ttl_seconds ws)) [dk, vk, mk] else ret ()) (\<lambda>_.
     op_bind (redis_sadd exec (ws_index_key ws) key) (\<lambda>_.
     ret (of_int version)))))))))"

definition read_key :: "'s server \<Rightarrow> string \<Rightarrow> ('s, bytes option) redis_op" where
  "read_key exec k =
     op_bind (redis_get exec k) (\<lambda>v.
       case v of None \<Rightarrow> ret None
       | Some _ \<Rightarrow> op_bind (redis_get_binary exec k) (\<lambda>data. ret (Some data)))"

definition workspace_get :: "'s server \<Rightarrow> workspace \<Rightarrow> string \<Rightarrow> u32 \<Rightarrow> ('s, bytes option) redis_op" where
  "workspace_get exec ws key app_id = op_bind (check_access ws app_id) (\<lambda>_. read_key exec (ws_data_key ws key))"

definition workspace_get_version ::
    "'s server \<Rightarrow> workspace \<Rightarrow> string \<Rightarrow> u64 \<Rightarrow> u32 \<Rightarrow> ('s, bytes option) redis_op" where
  "workspace_get_version exec ws key version app_id =
     op_bind (check_access ws app_id) (\<lambda>_. read_key exec (ws_version_key ws key version))"

text \<open>The loop over the versions ends for every count below the largest 64-bit number.\<close>

definition workspace_del :: "'s server \<Rightarrow> workspace \<Rightarrow> string \<Rightarrow> u32 \<Rightarrow> ('s, bool) redis_op" where
  "workspace_del exec ws key app_id =
     op_bind (check_access ws app_id) (\<lambda>_.
     op_bind (redis_hget exec (ws_meta_key ws key) ''version'') (\<lambda>ver_str.
       case ver_str of
         None \<Rightarrow> ret False
       | Some t \<Rightarrow>
           op_bind (redis_del exec (ws_data_key ws key)) (\<lambda>_.
           case stoull t of
             Inl e \<Rightarrow> throw e
           | Inr max_ver \<Rightarrow>
               op_bind (op_each (\<lambda>v. redis_del exec (ws_version_key ws key (of_nat v))) [1..<Suc (unat max_ver)]) (\<lambda>_.
               op_bind (redis_del exec (ws_meta_key ws key)) (\<lambda>_.
               op_bind (redis_srem exec (ws_index_key ws) key) (\<lambda>_.
               ret True))))))"

record workspace_entry =
  we_key :: string
  we_version :: u64
  we_size :: u64
  we_updated_us :: u64

definition number_or_zero :: "string option \<Rightarrow> ('s, u64) redis_op" where
  "number_or_zero t =
     (case t of None \<Rightarrow> ret 0 | Some t \<Rightarrow> (case stoull t of Inl e \<Rightarrow> throw e | Inr n \<Rightarrow> ret n))"

definition workspace_entry_of :: "'s server \<Rightarrow> workspace \<Rightarrow> string \<Rightarrow> ('s, workspace_entry option) redis_op" where
  "workspace_entry_of exec ws k =
     op_bind (redis_hget exec (ws_meta_key ws k) ''version'') (\<lambda>ver_str.
     op_bind (redis_hget exec (ws_meta_key ws k) ''size'') (\<lambda>size_str.
     op_bind (redis_hget exec (ws_meta_key ws k) ''updated_us'') (\<lambda>ts_str.
       if ver_str = None then ret None
       else
         op_bind (number_or_zero ver_str) (\<lambda>version.
         op_bind (number_or_zero size_str) (\<lambda>sz.
         op_bind (number_or_zero ts_str) (\<lambda>updated.
         ret (Some \<lparr>we_key = k, we_version = version, we_size = sz, we_updated_us = updated\<rparr>)))))))"

fun workspace_entries :: "'s server \<Rightarrow> workspace \<Rightarrow> string list \<Rightarrow> ('s, workspace_entry list) redis_op" where
  "workspace_entries exec ws [] = ret []"
| "workspace_entries exec ws (k # ks) =
     op_bind (workspace_entry_of exec ws k) (\<lambda>e.
     op_bind (workspace_entries exec ws ks) (\<lambda>es.
     ret (case e of None \<Rightarrow> es | Some x \<Rightarrow> x # es)))"

definition workspace_list :: "'s server \<Rightarrow> workspace \<Rightarrow> u32 \<Rightarrow> ('s, workspace_entry list) redis_op" where
  "workspace_list exec ws app_id =
     op_bind (check_access ws app_id) (\<lambda>_.
     op_bind (redis_smembers exec (ws_index_key ws)) (workspace_entries exec ws))"

definition workspace_list_prefix ::
    "'s server \<Rightarrow> workspace \<Rightarrow> string \<Rightarrow> u32 \<Rightarrow> ('s, workspace_entry list) redis_op" where
  "workspace_list_prefix exec ws pre app_id =
     op_bind (workspace_list exec ws app_id) (\<lambda>es.
     ret (filter (\<lambda>e. take (length pre) (we_key e) = pre) es))"

text \<open>\<^verbatim>\<open>destroy\<close>; the scan has fuel (\<open>None\<close>: it ran out).\<close>

definition workspace_destroy :: "nat \<Rightarrow> 's server \<Rightarrow> workspace \<Rightarrow> 's \<Rightarrow> (unit result \<times> workspace \<times> 's) option" where
  "workspace_destroy fuel exec ws s =
     (if ws_destroyed ws then Some (Inr (), ws, s)
      else
        (case scan_loop fuel exec (''labios:ws:'' @ ws_name ws @ '':*'') 0 [] s of
           None \<Rightarrow> None
         | Some (Inl e, s') \<Rightarrow> Some (Inl e, ws, s')
         | Some (Inr keys, s') \<Rightarrow>
             (case op_each (redis_del exec) keys s' of
                (Inl e, s'') \<Rightarrow> Some (Inl e, ws, s'')
              | (Inr _, s'') \<Rightarrow> Some (Inr (), ws\<lparr>ws_destroyed := True\<rparr>, s''))))"

subsection \<open>Registry\<close>

type_synonym workspace_registry = "(string \<times> workspace) list"

definition workspaces_create :: "string \<Rightarrow> u32 \<Rightarrow> u32 \<Rightarrow> workspace_registry \<Rightarrow> workspace option \<times> workspace_registry" where
  "workspaces_create name owner ttl reg =
     (case map_of reg name of
        Some _ \<Rightarrow> (None, reg)
      | None \<Rightarrow> (Some (new_workspace name owner ttl), AList.update name (new_workspace name owner ttl) reg))"

definition workspaces_get :: "string \<Rightarrow> workspace_registry \<Rightarrow> workspace option" where
  "workspaces_get name reg = map_of reg name"

definition workspaces_remove :: "string \<Rightarrow> workspace_registry \<Rightarrow> workspace_registry" where
  "workspaces_remove name reg = AList.delete name reg"

definition workspaces_list :: "workspace_registry \<Rightarrow> string list" where
  "workspaces_list reg = map fst reg"

subsection \<open>The abstract workspace\<close>

text \<open>
  The data of all versions of each key, oldest first; a deletion forgets them. Runs collect the
  numbers the operations answer (1 and 0 for the booleans of \<^verbatim>\<open>del\<close>).
\<close>

type_synonym ws_history = "string \<Rightarrow> bytes list"

datatype ws_op = WsPut u64 string bytes | WsDel string

fun ws_spec :: "ws_op list \<Rightarrow> ws_history \<Rightarrow> u64 list \<times> ws_history" where
  "ws_spec [] h = ([], h)"
| "ws_spec (WsPut now k data # ops) h =
     (let (rs, h') = ws_spec ops (h(k := h k @ [data])) in (of_nat (Suc (length (h k))) # rs, h'))"
| "ws_spec (WsDel k # ops) h =
     (let (rs, h') = ws_spec ops (h(k := [])) in ((if h k = [] then 0 else 1) # rs, h'))"

fun run_ws :: "'s server \<Rightarrow> workspace \<Rightarrow> u32 \<Rightarrow> ws_op list \<Rightarrow> ('s, u64 list) redis_op" where
  "run_ws exec ws app_id [] = ret []"
| "run_ws exec ws app_id (WsPut now k data # ops) =
     op_bind (workspace_put exec now ws k data app_id) (\<lambda>r.
     op_bind (run_ws exec ws app_id ops) (\<lambda>rs. ret (r # rs)))"
| "run_ws exec ws app_id (WsDel k # ops) =
     op_bind (workspace_del exec ws k app_id) (\<lambda>b.
     op_bind (run_ws exec ws app_id ops) (\<lambda>rs. ret ((if b then 1 else 0) # rs)))"

fun op_key :: "ws_op \<Rightarrow> string" where
  "op_key (WsPut now k data) = k"
| "op_key (WsDel k) = k"

text \<open>Keys that cannot be mistaken for a version, the metadata or the index of the workspace.\<close>

definition plain_key :: "string \<Rightarrow> bool" where
  "plain_key k \<longleftrightarrow> CHR '':'' \<notin> set k \<and> k \<noteq> ''_index'' \<and> k \<noteq> ''_meta''"

lemma split_at_colon:
  "CHR '':'' \<notin> set a \<Longrightarrow> CHR '':'' \<notin> set b \<Longrightarrow> a @ CHR '':'' # x = b @ CHR '':'' # y \<longleftrightarrow> a = b \<and> x = y"
proof (induction a arbitrary: b)
  case Nil
  then show ?case by (cases b) auto
next
  case (Cons c a)
  then show ?case by (cases b) auto
qed

lemma no_colon [simp]: "CHR '':'' \<notin> set k \<Longrightarrow> k \<noteq> a @ CHR '':'' # b" "CHR '':'' \<notin> set k \<Longrightarrow> a @ CHR '':'' # b \<noteq> k"
  by auto

lemma ws_keys_apart:
  "ws_data_key ws k = ws_data_key ws k' \<longleftrightarrow> k = k'"
  "ws_meta_key ws k = ws_meta_key ws k' \<longleftrightarrow> k = k'"
  "plain_key k \<Longrightarrow> plain_key k' \<Longrightarrow> ws_version_key ws k v = ws_version_key ws k' v' \<longleftrightarrow> k = k' \<and> v = v'"
  "plain_key k \<Longrightarrow> ws_data_key ws k \<noteq> ws_version_key ws k' v"
  "plain_key k \<Longrightarrow> ws_data_key ws k \<noteq> ws_meta_key ws k'"
  "plain_key k \<Longrightarrow> ws_version_key ws k v \<noteq> ws_meta_key ws k'"
  "plain_key k \<Longrightarrow> ws_data_key ws k \<noteq> ws_index_key ws"
  "plain_key k \<Longrightarrow> ws_version_key ws k v \<noteq> ws_index_key ws"
  "plain_key k \<Longrightarrow> ws_meta_key ws k' \<noteq> ws_index_key ws"
  unfolding plain_key_def ws_data_key_def ws_version_key_def ws_meta_key_def ws_index_key_def
  using split_at_colon [of k k'] split_at_colon [of k "''_meta''"]
  by (auto simp: word_eq_iff_unsigned [where ?'a = nat] dest: arg_cong [where f = length])

lemmas ws_apart = ws_keys_apart ws_keys_apart(4-9) [THEN not_sym]

text \<open>What the database holds for one key with versions \<open>xs\<close>, and for the whole history.\<close>

definition key_ok :: "workspace \<Rightarrow> redis_db \<Rightarrow> string \<Rightarrow> bytes list \<Rightarrow> bool" where
  "key_ok ws d k xs \<longleftrightarrow>
     (if xs = [] then d (ws_meta_key ws k) = None
      else \<exists>m now. d (ws_meta_key ws k) = Some (VHash m) \<and> m ''version'' = Some (int_to_string (int (length xs))) \<and>
             m ''size'' = Some (nat_to_string (length (last xs))) \<and> m ''updated_us'' = Some (u64_to_string now)) \<and>
     d (ws_data_key ws k) = (if xs = [] then None else Some (VStr (string_of_bytes (last xs)))) \<and>
     (\<forall>v. d (ws_version_key ws k v) =
        (if 1 \<le> unat v \<and> unat v \<le> length xs then Some (VStr (string_of_bytes (xs ! (unat v - 1)))) else None))"

definition ws_rep :: "workspace \<Rightarrow> ws_history \<Rightarrow> redis_db \<Rightarrow> bool" where
  "ws_rep ws h d \<longleftrightarrow>
     set_key d (ws_index_key ws) \<and> db_set_members d (ws_index_key ws) = {k. h k \<noteq> []} \<and>
     (\<forall>k. plain_key k \<longrightarrow> key_ok ws d k (h k)) \<and> (\<forall>k. h k \<noteq> [] \<longrightarrow> plain_key k)"

lemma key_ok_cong:
  assumes "plain_key k" "plain_key k'" "k \<noteq> k'"
    and "\<And>x. x \<noteq> ws_meta_key ws k \<Longrightarrow> x \<noteq> ws_data_key ws k \<Longrightarrow> (\<And>v. x \<noteq> ws_version_key ws k v) \<Longrightarrow>
         x \<noteq> ws_index_key ws \<Longrightarrow> d' x = d x"
  shows "key_ok ws d' k' xs \<longleftrightarrow> key_ok ws d k' xs"
proof -
  have "d' (ws_meta_key ws k') = d (ws_meta_key ws k')" "d' (ws_data_key ws k') = d (ws_data_key ws k')"
    "d' (ws_version_key ws k' v) = d (ws_version_key ws k' v)" for v
    using assms(1-3) by (auto intro!: assms(4) simp: ws_apart)
  then show ?thesis by (simp add: key_ok_def)
qed

lemma op_bind_ret [simp]: "op_bind (ret x) f = f x"
  by (simp add: op_bind_def ret_def fun_eq_iff)

lemma op_bind_throw [simp]: "op_bind (throw e) f = throw e"
  by (simp add: op_bind_def throw_def fun_eq_iff)

lemma check_access_granted [simp]: "app_id \<in> set (ws_acl ws) \<Longrightarrow> check_access ws app_id = ret ()"
  by (simp add: check_access_def)

lemma check_access_denied: "app_id \<notin> set (ws_acl ws) \<Longrightarrow> check_access ws app_id = throw (access_denied (ws_name ws) app_id)"
  by (simp add: check_access_def)

text \<open>The database after a put of version \<open>n\<close>, and after a deletion of \<open>n\<close> versions.\<close>

definition put_effect :: "workspace \<Rightarrow> u64 \<Rightarrow> string \<Rightarrow> bytes \<Rightarrow> u64 \<Rightarrow> redis_db \<Rightarrow> redis_db" where
  "put_effect ws now k data n d =
     db_sadd (ws_index_key ws) k
      (db_hset (ws_meta_key ws k) ''updated_us'' (u64_to_string now)
        (db_hset (ws_meta_key ws k) ''size'' (nat_to_string (length data))
          ((db_hincrby (ws_meta_key ws k) ''version'' 1 d)
             (ws_data_key ws k \<mapsto> VStr (string_of_bytes data),
              ws_version_key ws k n \<mapsto> VStr (string_of_bytes data)))))"

definition del_effect :: "workspace \<Rightarrow> string \<Rightarrow> nat \<Rightarrow> redis_db \<Rightarrow> redis_db" where
  "del_effect ws k n d =
     db_srem (ws_index_key ws) k
      ((fold (\<lambda>v d. d(ws_version_key ws k (of_nat v) := None)) [1..<Suc n] (d(ws_data_key ws k := None)))
         (ws_meta_key ws k := None))"

lemma counter_of_key:
  assumes "key_ok ws d k xs"
  shows "db_counter d (ws_meta_key ws k) ''version'' = Some (int (length xs))"
  using assms by (cases "xs = []") (auto simp: key_ok_def db_counter_def decimal_print)

lemma meta_after_put:
  assumes "plain_key k" "key_ok ws d k xs"
  shows "\<exists>m. put_effect ws now k data n d (ws_meta_key ws k) = Some (VHash m) \<and>
     m ''version'' = Some (int_to_string (int (length xs) + 1)) \<and>
     m ''size'' = Some (nat_to_string (length data)) \<and> m ''updated_us'' = Some (u64_to_string now)"
proof -
  have "db_sadd (ws_index_key ws) k e (ws_meta_key ws k) = e (ws_meta_key ws k)" for e
    using assms(1) by (simp add: ws_apart)
  then show ?thesis
    using assms ws_apart
    by (cases "xs = []")
      (auto simp: put_effect_def db_hincrby_def counter_of_key [OF assms(2)] db_hset_def key_ok_def)
qed

lemma ws_rep_put:
  assumes "plain_key k" "ws_rep ws h d" and n: "unat n = Suc (length (h k))"
  shows "ws_rep ws (h(k := h k @ [data])) (put_effect ws now k data n d)"
    (is "ws_rep ws ?h (?e d)")
proof -
  have ok: "key_ok ws d k (h k)" using assms(1,2) by (simp add: ws_rep_def)
  have idx: "?e d (ws_index_key ws) = db_sadd (ws_index_key ws) k d (ws_index_key ws)"
    using assms(1) by (simp add: put_effect_def db_sadd_def ws_apart split: option.split redis_value.split)
  show ?thesis
    unfolding ws_rep_def
  proof (intro conjI allI impI)
    show "set_key (?e d) (ws_index_key ws)" "db_set_members (?e d) (ws_index_key ws) = {x. ?h x \<noteq> []}"
      using assms(2) unfolding set_key_def db_set_members_def idx
      by (auto simp: ws_rep_def set_key_def db_set_members_def db_sadd_def split: option.splits redis_value.splits)
    show "plain_key x" if "?h x \<noteq> []" for x using that assms(1,2) by (auto simp: ws_rep_def split: if_splits)
    fix x
    assume x: "plain_key x"
    show "key_ok ws (?e d) x (?h x)"
    proof (cases "x = k")
      case False
      have "key_ok ws (?e d) x (h x) \<longleftrightarrow> key_ok ws d x (h x)"
        by (rule key_ok_cong [OF assms(1) x]) (use False in \<open>auto simp: put_effect_def\<close>)
      then show ?thesis using False assms(2) x by (simp add: ws_rep_def)
    next
      case True
      have others: "?e d (ws_data_key ws k) = Some (VStr (string_of_bytes data))"
        "?e d (ws_version_key ws k v) = (if v = n then Some (VStr (string_of_bytes data)) else d (ws_version_key ws k v))" for v
        using assms(1) by (auto simp: put_effect_def ws_apart)
      have "?e d (ws_version_key ws k v) =
          (if 1 \<le> unat v \<and> unat v \<le> length (h k @ [data])
           then Some (VStr (string_of_bytes ((h k @ [data]) ! (unat v - 1)))) else None)" for v
      proof (cases "v = n")
        case True
        then show ?thesis using n by (simp add: others)
      next
        case False
        then have v: "unat v \<noteq> Suc (length (h k))" using n by (metis word_unat_eq_iff)
        have "d (ws_version_key ws k v) =
            (if 1 \<le> unat v \<and> unat v \<le> length (h k) then Some (VStr (string_of_bytes (h k ! (unat v - 1)))) else None)"
          using ok by (simp add: key_ok_def)
        then show ?thesis using False v unfolding others(2) by (auto simp: nth_append)
      qed
      then show ?thesis
        using meta_after_put [OF assms(1) ok, of now data n] others(1) True
        unfolding key_ok_def by (auto simp: add.commute)
    qed
  qed
qed

context redis_server
begin

lemma yields_put_number:
  assumes "app_id \<in> set (ws_acl ws)"
    and "n = of_int (case db_counter d (ws_meta_key ws k) ''version'' of Some i \<Rightarrow> i + 1 | None \<Rightarrow> 0)"
  shows "yields db (workspace_put exec now ws k data app_id) d (Inr n) (put_effect ws now k data n d)"
proof -
  have expire: "yields db (if c then op_each (\<lambda>k. redis_expire exec k t) ks else ret ()) e (Inr ()) e" for c t ks e
    using yields_each [of ks db "\<lambda>k. redis_expire exec k t" "\<lambda>_ d. d" e] yields_expire yields_ret [of db "()" e]
    by (simp add: fold_id [unfolded id_def])
  show ?thesis
    unfolding workspace_put_def check_access_granted [OF assms(1)] op_bind_ret put_effect_def Let_def assms(2)
    by (rule yields_bind [OF yields_hincrby],
        rule yields_bind [OF yields_set_binary], rule yields_bind [OF yields_set_binary],
        rule yields_bind [OF yields_hset], rule yields_bind [OF yields_hset],
        rule yields_bind [OF expire], rule yields_bind [OF yields_sadd], rule yields_ret)
qed

lemma yields_workspace_put:
  assumes "app_id \<in> set (ws_acl ws)" "plain_key k" "ws_rep ws h d"
  shows "yields db (workspace_put exec now ws k data app_id) d (Inr (of_nat (Suc (length (h k)))))
     (put_effect ws now k data (of_nat (Suc (length (h k)))) d)"
proof -
  have "db_counter d (ws_meta_key ws k) ''version'' = Some (int (length (h k)))"
    using assms(2,3) counter_of_key by (simp add: ws_rep_def)
  then show ?thesis using yields_put_number [OF assms(1) refl, where d = d and k = k and now = now and data = data] by (simp add: add.commute)
qed

end

text \<open>The deletion loop.\<close>

lemma del_versions:
  "fold (\<lambda>v d. d(ws_version_key ws k (of_nat v) := None)) vs d x =
     (if x \<in> (\<lambda>v. ws_version_key ws k (of_nat v)) ` set vs then None else d x)"
  by (induction vs arbitrary: d) auto

lemma ws_rep_del:
  assumes "plain_key k" "ws_rep ws h d" "length (h k) < 2 ^ 63"
  shows "ws_rep ws (h(k := [])) (del_effect ws k (length (h k)) d)"
    (is "ws_rep ws ?h ?e")
proof -
  have ok: "key_ok ws d k (h k)" using assms(1,2) by (simp add: ws_rep_def)
  have e: "?e x = (if x = ws_index_key ws then db_srem (ws_index_key ws) k d x
      else if x = ws_meta_key ws k \<or> x = ws_data_key ws k \<or>
        x \<in> (\<lambda>v. ws_version_key ws k (of_nat v)) ` {1..<Suc (length (h k))} then None else d x)" for x
    using assms(1)
    by (auto simp: del_effect_def del_versions ws_apart db_srem_def image_iff simp del: upt_Suc
        split: option.split redis_value.split)
  show ?thesis
    unfolding ws_rep_def
  proof (intro conjI allI impI)
    show "set_key ?e (ws_index_key ws)" "db_set_members ?e (ws_index_key ws) = {x. ?h x \<noteq> []}"
      using assms(2) unfolding set_key_def db_set_members_def e
      by (auto simp: ws_rep_def set_key_def db_set_members_def db_srem_def split: option.splits redis_value.splits)
    show "plain_key x" if "?h x \<noteq> []" for x using that assms(2) by (auto simp: ws_rep_def split: if_splits)
    fix x
    assume x: "plain_key x"
    show "key_ok ws ?e x (?h x)"
    proof (cases "x = k")
      case False
      have "key_ok ws ?e x (h x) \<longleftrightarrow> key_ok ws d x (h x)"
        by (rule key_ok_cong [OF assms(1) x]) (use False in \<open>auto simp: e\<close>)
      then show ?thesis using False assms(2) x by (simp add: ws_rep_def)
    next
      case True
      have "?e (ws_version_key ws k v) = None" for v
      proof (cases "1 \<le> unat v \<and> unat v \<le> length (h k)")
        case True
        then have "v \<in> of_nat ` {1..<Suc (length (h k))}"
          by (intro image_eqI [of _ _ "unat v"]) simp_all
        then show ?thesis using assms(1) unfolding e by (auto simp: ws_apart)
      next
        case False
        then have "d (ws_version_key ws k v) = None" using ok by (auto simp: key_ok_def)
        then show ?thesis using assms(1) by (simp add: e ws_apart)
      qed
      then show ?thesis using True assms(1) by (simp add: key_ok_def e ws_apart)
    qed
  qed
qed

context redis_server
begin

lemma yields_workspace_del:
  assumes "app_id \<in> set (ws_acl ws)" "plain_key k" "ws_rep ws h d" "length (h k) < 2 ^ 63"
  shows "h k = [] \<Longrightarrow> yields db (workspace_del exec ws k app_id) d (Inr False) d"
    and "h k \<noteq> [] \<Longrightarrow> yields db (workspace_del exec ws k app_id) d (Inr True) (del_effect ws k (length (h k)) d)"
proof -
  have ok: "key_ok ws d k (h k)" using assms(2,3) by (simp add: ws_rep_def)
  show "yields db (workspace_del exec ws k app_id) d (Inr False) d" if "h k = []"
  proof -
    have "db_hash d (ws_meta_key ws k) ''version'' = None" using ok that by (simp add: key_ok_def db_hash_def)
    then show ?thesis
      unfolding workspace_del_def check_access_granted [OF assms(1)] op_bind_ret
      by (intro yields_bind [OF yields_hget]) (simp add: yields_ret)
  qed
  show "yields db (workspace_del exec ws k app_id) d (Inr True) (del_effect ws k (length (h k)) d)" if "h k \<noteq> []"
  proof -
    let ?n = "of_nat (length (h k)) :: u64"
    have n: "unat ?n = length (h k)" by (rule unat_of_nat64) (use assms(4) in simp)
    have ver: "db_hash d (ws_meta_key ws k) ''version'' = Some (nat_to_string (length (h k)))"
      using ok that by (auto simp: key_ok_def db_hash_def int_to_string_def)
    have num: "stoull (nat_to_string (length (h k))) = Inr ?n" using stoull_print [of ?n] n by simp
    have loop: "yields db (op_each (\<lambda>v. redis_del exec (ws_version_key ws k (of_nat v))) vs) e (Inr ())
        (fold (\<lambda>v d. d(ws_version_key ws k (of_nat v) := None)) vs e)" for vs e
      by (rule yields_each) (rule yields_del)
    show ?thesis
      unfolding workspace_del_def check_access_granted [OF assms(1)] op_bind_ret del_effect_def
      by (rule yields_bind [OF yields_hget], unfold ver option.case num sum.case n,
          rule yields_bind [OF yields_del], rule yields_bind [OF loop], rule yields_bind [OF yields_del],
          rule yields_bind [OF yields_srem], rule yields_ret)
  qed
qed

text \<open>Runs refine the specification.\<close>

lemma run_ws_refines:
  assumes "app_id \<in> set (ws_acl ws)" "\<forall>p \<in> set ops. plain_key (op_key p)"
    and "ws_rep ws h d" "\<forall>k. length (h k) + length ops < 2 ^ 63"
  shows "\<exists>d'. yields db (run_ws exec ws app_id ops) d (Inr (fst (ws_spec ops h))) d' \<and>
     ws_rep ws (snd (ws_spec ops h)) d' \<and> (\<forall>k. length (snd (ws_spec ops h) k) < 2 ^ 63)"
  using assms(2-4)
proof (induction ops arbitrary: h d)
  case Nil
  then show ?case by (auto intro: yields_ret)
next
  case (Cons p ops)
  have lens: "length (h x) + Suc (length ops) < 2 ^ 63" for x using Cons.prems(3) by simp
  show ?case
  proof (cases p)
    case (WsPut now k data)
    have k: "plain_key k" using Cons.prems(1) WsPut by simp
    have "unat (of_nat (Suc (length (h k))) :: u64) = Suc (length (h k))"
      by (rule unat_of_nat64) (use Cons.prems(3) in \<open>auto dest: spec [of _ k]\<close>)
    then have "ws_rep ws (h(k := h k @ [data])) (put_effect ws now k data (of_nat (Suc (length (h k)))) d)"
      using Cons.prems(1,2) WsPut by (intro ws_rep_put) simp_all
    moreover have "\<forall>x. length ((h(k := h k @ [data])) x) + length ops < 2 ^ 63"
    proof
      show "length ((h(k := h k @ [data])) x) + length ops < 2 ^ 63" for x
        using lens [of x] lens [of k] by auto
    qed
    ultimately obtain d' where d': "yields db (run_ws exec ws app_id ops) (put_effect ws now k data (of_nat (Suc (length (h k)))) d)
        (Inr (fst (ws_spec ops (h(k := h k @ [data]))))) d'"
      "ws_rep ws (snd (ws_spec ops (h(k := h k @ [data])))) d'"
      "\<forall>x. length (snd (ws_spec ops (h(k := h k @ [data]))) x) < 2 ^ 63"
      using Cons.IH [of "h(k := h k @ [data])"] Cons.prems(1) by (metis list.set_intros(2))
    have "yields db (run_ws exec ws app_id (p # ops)) d (Inr (of_nat (Suc (length (h k))) # fst (ws_spec ops (h(k := h k @ [data]))))) d'"
      unfolding WsPut run_ws.simps
      by (rule yields_bind [OF yields_workspace_put [OF assms(1) k Cons.prems(2)]],
          rule yields_bind [OF d'(1)], rule yields_ret)
    then show ?thesis using d'(2,3) by (auto simp: WsPut Let_def case_prod_beta)
  next
    case (WsDel k)
    have k: "plain_key k" "length (h k) < 2 ^ 63"
      using Cons.prems(1,3) WsDel by (auto dest: spec [of _ k])
    define d1 where "d1 = (if h k = [] then d else del_effect ws k (length (h k)) d)"
    have del: "yields db (workspace_del exec ws k app_id) d (Inr (h k \<noteq> [])) d1"
      using yields_workspace_del [OF assms(1) k(1) Cons.prems(2) k(2)] by (simp add: d1_def)
    have "ws_rep ws (h(k := [])) d1"
      using ws_rep_del [OF k(1) Cons.prems(2) k(2)] Cons.prems(2) by (cases "h k = []") (simp_all add: d1_def fun_upd_idem)
    moreover have "\<forall>x. length ((h(k := [])) x) + length ops < 2 ^ 63"
    proof
      show "length ((h(k := [])) x) + length ops < 2 ^ 63" for x using lens [of x] by auto
    qed
    ultimately obtain d' where d': "yields db (run_ws exec ws app_id ops) d1 (Inr (fst (ws_spec ops (h(k := []))))) d'"
      "ws_rep ws (snd (ws_spec ops (h(k := [])))) d'" "\<forall>x. length (snd (ws_spec ops (h(k := []))) x) < 2 ^ 63"
      using Cons.IH [of "h(k := [])"] Cons.prems(1) by (metis list.set_intros(2))
    have "yields db (run_ws exec ws app_id (p # ops)) d
        (Inr ((if h k \<noteq> [] then 1 else 0) # fst (ws_spec ops (h(k := []))))) d'"
      unfolding WsDel run_ws.simps by (intro yields_bind [OF del] yields_bind [OF d'(1)] yields_ret)
    then show ?thesis using d'(2,3) by (cases "h k = []") (auto simp: WsDel Let_def case_prod_beta)
  qed
qed

end

text \<open>A listing names the keys that have versions.\<close>

fun op_data :: "ws_op \<Rightarrow> bytes list" where
  "op_data (WsPut now k data) = [data]"
| "op_data (WsDel k) = []"

lemma ws_spec_data: "set (snd (ws_spec ops h) k) \<subseteq> set (h k) \<union> (\<Union>p \<in> set ops. set (op_data p))"
proof (induction ops arbitrary: h)
  case (Cons p ops)
  obtain h' where h': "snd (ws_spec (p # ops) h) = snd (ws_spec ops h')" "set (h' k) \<subseteq> set (h k) \<union> set (op_data p)"
  proof (cases p)
    case (WsPut now x data)
    then show ?thesis using that [of "h(x := h x @ [data])"] by (cases "k = x") (auto simp: Let_def case_prod_beta)
  next
    case (WsDel x)
    then show ?thesis using that [of "h(x := [])"] by (auto simp: Let_def case_prod_beta)
  qed
  then show ?case using Cons.IH [of h'] by auto
qed simp

lemma number_or_zero_print [simp]: "n < 2 ^ 64 \<Longrightarrow> number_or_zero (Some (nat_to_string n)) = ret (of_nat n)"
  using stoull_print [of "of_nat n"] by (simp add: number_or_zero_def unat_of_nat64)

context redis_server
begin

lemma yields_entry:
  assumes "plain_key k" "ws_rep ws h d" "length (h k) < 2 ^ 63" "h k \<noteq> [] \<Longrightarrow> length (last (h k)) < 2 ^ 64"
  shows "\<exists>now. yields db (workspace_entry_of exec ws k) d
     (Inr (if h k = [] then None
           else Some \<lparr>we_key = k, we_version = of_nat (length (h k)), we_size = of_nat (length (last (h k))), we_updated_us = now\<rparr>)) d"
proof -
  have ok: "key_ok ws d k (h k)" using assms(1,2) by (simp add: ws_rep_def)
  show ?thesis
  proof (cases "h k = []")
    case True
    then have none: "db_hash d (ws_meta_key ws k) f = None" for f using ok by (simp add: key_ok_def db_hash_def)
    show ?thesis
      unfolding workspace_entry_of_def
      by (intro exI, rule yields_bind [OF yields_hget], rule yields_bind [OF yields_hget], rule yields_bind [OF yields_hget])
        (simp add: True none yields_ret)
  next
    case False
    then obtain now where f: "db_hash d (ws_meta_key ws k) ''version'' = Some (nat_to_string (length (h k)))"
      "db_hash d (ws_meta_key ws k) ''size'' = Some (nat_to_string (length (last (h k))))"
      "db_hash d (ws_meta_key ws k) ''updated_us'' = Some (u64_to_string now)"
      using ok by (auto simp: key_ok_def db_hash_def int_to_string_def)
    have l: "length (h k) < 2 ^ 64" using assms(3) by simp
    have now: "number_or_zero (Some (u64_to_string now)) = ret now" by (simp add: number_or_zero_def stoull_print)
    show ?thesis
      unfolding workspace_entry_of_def
      by (intro exI [of _ now], rule yields_bind [OF yields_hget], rule yields_bind [OF yields_hget], rule yields_bind [OF yields_hget])
        (simp add: False f now number_or_zero_print [OF l] number_or_zero_print [OF assms(4) [OF False]] yields_ret)
  qed
qed

lemma yields_entries:
  assumes "\<forall>k \<in> set ks. plain_key k" "ws_rep ws h d" "\<forall>k. length (h k) < 2 ^ 63" "\<forall>k. h k \<noteq> [] \<longrightarrow> length (last (h k)) < 2 ^ 64"
  shows "\<exists>es. yields db (workspace_entries exec ws ks) d (Inr es) d \<and>
     map (\<lambda>e. (we_key e, we_version e, we_size e)) es =
       map (\<lambda>k. (k, of_nat (length (h k)), of_nat (length (last (h k))))) (filter (\<lambda>k. h k \<noteq> []) ks)"
  using assms(1)
proof (induction ks)
  case Nil
  then show ?case by (auto intro: yields_ret)
next
  case (Cons k ks)
  then obtain es where es: "yields db (workspace_entries exec ws ks) d (Inr es) d"
    "map (\<lambda>e. (we_key e, we_version e, we_size e)) es =
       map (\<lambda>k. (k, of_nat (length (h k)), of_nat (length (last (h k))))) (filter (\<lambda>k. h k \<noteq> []) ks)" by auto
  obtain now where e: "yields db (workspace_entry_of exec ws k) d
     (Inr (if h k = [] then None
           else Some \<lparr>we_key = k, we_version = of_nat (length (h k)), we_size = of_nat (length (last (h k))), we_updated_us = now\<rparr>)) d"
    using yields_entry [of k ws h d] Cons.prems assms(2-4) by auto
  show ?case
    unfolding workspace_entries.simps
    by (intro exI conjI, rule yields_bind [OF e], rule yields_bind [OF es(1)], rule yields_ret) (simp add: es(2))
qed

lemma yields_read_key: "yields db (read_key exec k) d (Inr (map_option bytes_of_string (db_get d k))) d"
  unfolding read_key_def
  by (rule yields_bind [OF yields_get])
    (cases "db_get d k"; simp add: yields_ret; rule yields_bind [OF yields_get_binary], simp add: yields_ret)

end

text \<open>
  C29: A workspace keeps every version of every key. After any puts and deletions of an application
  with access on a fresh workspace the puts have answered consecutive version numbers and the
  deletions whether there was something to delete; reading a key gives the data of its last put,
  reading a version the data of that put, nothing exists of deleted keys, and the listing names
  exactly the keys there are, with their last version and size.
\<close>

theorem workspace_refines:
  assumes "redis_server exec db" "app_id \<in> set (ws_acl ws)"
    and "\<forall>x. db s (''labios:ws:'' @ ws_name ws @ '':'' @ x) = None"
    and "\<forall>p \<in> set ops. plain_key (op_key p) \<and> (\<forall>x \<in> set (op_data p). length x < 2 ^ 64)" "length ops < 2 ^ 63"
    and "run_ws exec ws app_id ops s = (r, s')" "ws_spec ops (\<lambda>_. []) = (rs, h)" "plain_key k"
  shows "r = Inr rs \<and>
    fst (workspace_get exec ws k app_id s') = Inr (if h k = [] then None else Some (last (h k))) \<and>
    fst (workspace_get_version exec ws k v app_id s') =
      Inr (if 1 \<le> unat v \<and> unat v \<le> length (h k) then Some (h k ! (unat v - 1)) else None) \<and>
    (\<exists>es. fst (workspace_list exec ws app_id s') = Inr es \<and>
       (\<lambda>e. (we_key e, we_version e, we_size e)) ` set es =
         (\<lambda>x. (x, of_nat (length (h x)), of_nat (length (last (h x))))) ` {x. h x \<noteq> []})"
proof -
  note server = redis_server.run_ws_refines [OF assms(1)] redis_server.yields_read_key [OF assms(1)]
    redis_server.smembers_answer [OF assms(1)] redis_server.yields_entries [OF assms(1)]
  have none: "db s (ws_data_key ws x) = None" "db s (ws_meta_key ws x) = None" "db s (ws_version_key ws x v') = None"
    "db s (ws_index_key ws) = None" for x v'
    using spec [OF assms(3), of x] spec [OF assms(3), of "''_meta:'' @ x"] spec [OF assms(3), of "''_index''"]
      spec [OF assms(3), of "x @ '':v'' @ u64_to_string v'"]
    by (simp_all add: ws_data_key_def ws_meta_key_def ws_version_key_def ws_index_key_def)
  then have "ws_rep ws (\<lambda>_. []) (db s)"
    by (auto simp: ws_rep_def key_ok_def set_key_def db_set_members_def)
  then obtain d' where d': "yields db (run_ws exec ws app_id ops) (db s) (Inr rs) d'" "ws_rep ws h d'" "\<forall>k. length (h k) < 2 ^ 63"
    using server(1) [OF assms(2), of ops "\<lambda>_. []" "db s"] assms(4,5,7) by auto
  then have run: "r = Inr rs" "db s' = d'" using assms(6) by (auto simp: yields_def)
  have ok: "key_ok ws d' k (h k)" using d'(2) assms(8) by (simp add: ws_rep_def)
  have sizes: "\<forall>x. h x \<noteq> [] \<longrightarrow> length (last (h x)) < 2 ^ 64"
  proof (intro allI impI)
    fix x assume "h x \<noteq> []"
    then have "last (h x) \<in> set (snd (ws_spec ops (\<lambda>_. [])) x)" using assms(7) by simp
    then show "length (last (h x)) < 2 ^ 64" using ws_spec_data [of ops "\<lambda>_. []" x] assms(4) by auto
  qed
  have "fst (workspace_get exec ws k app_id s') = Inr (map_option bytes_of_string (db_get d' (ws_data_key ws k)))"
    "fst (workspace_get_version exec ws k v app_id s') = Inr (map_option bytes_of_string (db_get d' (ws_version_key ws k v)))"
    using server(2) [of "ws_data_key ws k" d'] server(2) [of "ws_version_key ws k v" d'] run(2) assms(2)
    by (simp_all add: workspace_get_def workspace_get_version_def yields_def)
  moreover obtain ks where ks: "fst (redis_smembers exec (ws_index_key ws) s') = Inr ks" "set ks = {x. h x \<noteq> []}"
    "db (snd (redis_smembers exec (ws_index_key ws) s')) = d'"
    using server(3) [of "ws_index_key ws" s'] d'(2) run(2) by (metis ws_rep_def)
  obtain es where es: "yields db (workspace_entries exec ws ks) d' (Inr es) d'"
    "map (\<lambda>e. (we_key e, we_version e, we_size e)) es =
       map (\<lambda>k. (k, of_nat (length (h k)), of_nat (length (last (h k))))) (filter (\<lambda>k. h k \<noteq> []) ks)"
    using server(4) [OF _ d'(2,3) sizes, of ks] ks(2) d'(2) by (auto simp: ws_rep_def)
  have "fst (workspace_list exec ws app_id s') = Inr es"
    using ks es(1) assms(2) by (auto simp: workspace_list_def op_bind_def yields_def ret_def split: prod.split sum.split)
  moreover have "(\<lambda>e. (we_key e, we_version e, we_size e)) ` set es =
      (\<lambda>x. (x, of_nat (length (h x)), of_nat (length (last (h x))))) ` {x. h x \<noteq> []}"
    using arg_cong [OF es(2), of set] ks(2) by simp
  ultimately show ?thesis
    using run(1) ok by (auto simp: key_ok_def db_get_def)
qed

definition sample_workspace :: workspace where
  "sample_workspace = new_workspace ''w'' 7 0"

theorem workspace_refines_witness:
  "let ops = [WsPut 1 ''a'' [1], WsPut 2 ''b'' [9], WsPut 3 ''a'' [2, 3], WsDel ''b'', WsDel ''c''];
       (r, s') = run_ws ref_exec sample_workspace 7 ops []
   in r = Inr [1, 1, 2, 1, 0] \<and> fst (workspace_get ref_exec sample_workspace ''a'' 7 s') = Inr (Some [2, 3]) \<and>
      fst (workspace_get_version ref_exec sample_workspace ''a'' 1 7 s') = Inr (Some [1])"
proof -
  let ?ops = "[WsPut 1 ''a'' [1], WsPut 2 ''b'' [9], WsPut 3 ''a'' [2, 3], WsDel ''b'', WsDel ''c'']"
  obtain r s' where run: "run_ws ref_exec sample_workspace 7 ?ops [] = (r, s')" by fastforce
  obtain h where h: "ws_spec ?ops (\<lambda>_. []) = ([1, 1, 2, 1, 0], h)" "h ''a'' = [[1], [2, 3]]" by simp
  have "7 \<in> set (ws_acl sample_workspace)" by (simp add: sample_workspace_def new_workspace_def)
  moreover have "\<forall>x. ref_db [] (''labios:ws:'' @ ws_name sample_workspace @ '':'' @ x) = None" by (simp add: ref_db_def)
  moreover have "\<forall>p \<in> set ?ops. plain_key (op_key p) \<and> (\<forall>x \<in> set (op_data p). length x < 2 ^ 64)"
    by (simp add: plain_key_def)
  moreover have "plain_key ''a''" by (simp add: plain_key_def)
  ultimately show ?thesis
    using workspace_refines [OF ref.redis_server_axioms _ _ _ _ run h(1), of "''a''" 1] h(2) by (simp add: run del: run_ws.simps)
qed

subsection \<open>Access\<close>

datatype acl_op = Grant u32 | Revoke u32

fun acl_step :: "acl_op \<Rightarrow> workspace \<Rightarrow> workspace" where
  "acl_step (Grant a) ws = grant_access a ws"
| "acl_step (Revoke a) ws = revoke_access a ws"

text \<open>Whether the last grant or revocation of an application was a grant.\<close>

fun granted :: "u32 \<Rightarrow> acl_op list \<Rightarrow> bool" where
  "granted a [] = False"
| "granted a (p # ps) = (if Grant a \<in> set ps \<or> Revoke a \<in> set ps then granted a ps else p = Grant a)"

lemma granted_snoc: "granted a (ps @ [p]) = (if p = Grant a then True else if p = Revoke a then False else granted a ps)"
  by (induction ps) auto

lemma acl_after:
  "(let ws = fold acl_step ops (new_workspace name owner ttl)
    in ws_owner_app_id ws = owner \<and> ws_name ws = name \<and> set (ws_acl ws) = {a. a = owner \<or> granted a ops})"
proof (induction ops rule: rev_induct)
  case Nil
  then show ?case by (auto simp: new_workspace_def)
next
  case (snoc p ops)
  then show ?case
    by (cases p) (auto simp: Let_def granted_snoc grant_access_def revoke_access_def)
qed

text \<open>
  C30: Access control holds: after any grants and revocations on a new workspace exactly the owner and
  the applications last granted have access; every operation of any other application fails with the
  access error and leaves the server as it was.
\<close>

theorem workspace_access_control:
  "let ws = fold acl_step ops (new_workspace name owner ttl); denied = access_denied name app_id
   in (if app_id = owner \<or> granted app_id ops then has_access ws app_id
       else \<not> has_access ws app_id \<and> workspace_put exec now ws key data app_id s = (Inl denied, s) \<and>
         workspace_get exec ws key app_id s = (Inl denied, s) \<and>
         workspace_get_version exec ws key v app_id s = (Inl denied, s) \<and>
         workspace_del exec ws key app_id s = (Inl denied, s) \<and>
         workspace_list exec ws app_id s = (Inl denied, s) \<and>
         workspace_list_prefix exec ws pre app_id s = (Inl denied, s))"
proof -
  let ?ws = "fold acl_step ops (new_workspace name owner ttl)"
  have acl: "app_id \<in> set (ws_acl ?ws) \<longleftrightarrow> app_id = owner \<or> granted app_id ops" and name: "ws_name ?ws = name"
    using acl_after [of ops name owner ttl] by (simp_all add: Let_def)
  show ?thesis
  proof (cases "app_id = owner \<or> granted app_id ops")
    case True
    then show ?thesis using acl by (simp add: has_access_def Let_def)
  next
    case False
    then have "app_id \<notin> set (ws_acl ?ws)" using acl by blast
    note denied = check_access_denied [OF this, unfolded name]
    show ?thesis
      using False acl
      by (simp add: has_access_def Let_def workspace_put_def workspace_get_def workspace_get_version_def workspace_del_def
          workspace_list_def workspace_list_prefix_def denied) (simp add: throw_def)
  qed
qed

subsection \<open>Keys that look like versions\<close>

text \<open>
  A key that contains the mark of a version overwrites that version: after a put of the key
  \<^verbatim>\<open>k:v2\<close> the second version of \<^verbatim>\<open>k\<close> is the data just put, whatever it was.
\<close>

lemma workspace_version_overwritten:
  assumes "redis_server exec db" "app_id \<in> set (ws_acl ws)"
  shows "fst (workspace_get_version exec ws k v app_id
      (snd (workspace_put exec now ws (k @ '':v'' @ u64_to_string v) data app_id s))) = Inr (Some data)"
proof -
  let ?k = "k @ '':v'' @ u64_to_string v"
  obtain n where n: "yields db (workspace_put exec now ws ?k data app_id) (db s) (Inr n) (put_effect ws now ?k data n (db s))"
    using redis_server.yields_put_number [OF assms refl] by blast
  have "ws_version_key ws k v = ws_data_key ws ?k" by (simp add: ws_version_key_def ws_data_key_def)
  moreover have "ws_data_key ws ?k \<noteq> ws_version_key ws ?k n" "ws_data_key ws ?k \<noteq> ws_meta_key ws ?k" "ws_data_key ws ?k \<noteq> ws_index_key ws"
    by (auto simp: ws_data_key_def ws_version_key_def ws_meta_key_def ws_index_key_def dest: arg_cong [where f = length])
  ultimately have "db_get (put_effect ws now ?k data n (db s)) (ws_version_key ws k v) = Some (string_of_bytes data)"
    by (simp add: put_effect_def db_get_def)
  then show ?thesis
    using n redis_server.yields_read_key [OF assms(1), of "ws_version_key ws k v"] assms(2)
    by (simp add: yields_def workspace_get_version_def)
qed

end
