(* ===== verification/Client.thy ===== *)
theory Client
  imports LabelManager Channel Workspace
begin

text \<open>
  The client library (\<^verbatim>\<open>src/labios/client.cpp\<close>) and its C interface (\<^verbatim>\<open>c_api.cpp\<close>). A client is
  its session, channels and workspaces. Operations that publish pieces may not return (\<open>None\<close>, see
  \<open>LabelManager\<close>), which the type of their results keeps. A pointer argument of the C interface is an
  option (\<open>None\<close> is the null pointer); a buffer is the bytes it holds. Handles are not modelled beyond
  being null or not: creating and freeing them allocates memory and connects.
\<close>

subsection \<open>Operations that may not return\<close>

type_synonym ('w, 'a) div_op = "'w \<Rightarrow> ('a result \<times> 'w) option"

definition div_bind :: "('w, 'a) div_op \<Rightarrow> ('a \<Rightarrow> ('w, 'b) div_op) \<Rightarrow> ('w, 'b) div_op" where
  "div_bind m f w = (case m w of None \<Rightarrow> None | Some (Inl e, w') \<Rightarrow> Some (Inl e, w') | Some (Inr x, w') \<Rightarrow> f x w')"

definition div_ret :: "'a \<Rightarrow> ('w, 'a) div_op" where
  "div_ret x w = Some (Inr x, w)"

definition div_of :: "('w, 'a) redis_op \<Rightarrow> ('w, 'a) div_op" where
  "div_of m w = Some (m w)"

subsection \<open>Files\<close>

definition wait_op :: "('s, 'n) session_env \<Rightarrow> pending_label list \<Rightarrow> ('s, 'n, pending_label list) session_op" where
  "wait_op env ps w = (let (r, ps', w') = label_wait env ps w in (map_sum id (\<lambda>_. ps') r, w'))"

definition wait_read_op :: "('s, 'n) session_env \<Rightarrow> pending_label list \<Rightarrow> ('s, 'n, bytes) session_op" where
  "wait_read_op env ps w = (let (r, ps', w') = label_wait_read env [] ps w in (r, w'))"

definition client_write :: "('s, 'n) session_env \<Rightarrow> string \<Rightarrow> bytes \<Rightarrow> u64 \<Rightarrow> (('s, 'n) session, unit) div_op" where
  "client_write env path data offset =
     div_bind (publish_write env path offset data) (\<lambda>ps.
     div_bind (div_of (wait_op env ps)) (\<lambda>_.
     div_of (se_redis (track_write (sv_redis env) (sv_now_ms env) path offset (of_nat (length data))))))"

definition client_read :: "('s, 'n) session_env \<Rightarrow> string \<Rightarrow> u64 \<Rightarrow> u64 \<Rightarrow> (('s, 'n) session, bytes) div_op" where
  "client_read env path offset sz =
     div_bind (publish_read env path offset sz) (\<lambda>ps. div_of (wait_read_op env ps))"

definition client_async_write ::
    "('s, 'n) session_env \<Rightarrow> string \<Rightarrow> bytes \<Rightarrow> u64 \<Rightarrow> (('s, 'n) session, pending_label list) div_op" where
  "client_async_write env path data offset = publish_write env path offset data"

definition client_async_read ::
    "('s, 'n) session_env \<Rightarrow> string \<Rightarrow> u64 \<Rightarrow> u64 \<Rightarrow> (('s, 'n) session, pending_label list) div_op" where
  "client_async_read env path offset sz = publish_read env path offset sz"

subsection \<open>Labels\<close>

record label_params =
  lp_type :: label_type
  lp_source :: pointer
  lp_destination :: pointer
  lp_operation :: string
  lp_flags :: u32
  lp_priority :: u8
  lp_dependencies :: "label_dependency list"
  lp_intent :: intent
  lp_ttl_seconds :: u32
  lp_isolation :: isolation
  lp_version :: u64
  lp_durability :: durability
  lp_continuation :: continuation
  lp_source_uri :: string
  lp_dest_uri :: string
  lp_pipeline :: pipeline

definition default_params :: label_params where
  "default_params = \<lparr>lp_type = Write, lp_source = Monostate, lp_destination = Monostate, lp_operation = [],
     lp_flags = 0, lp_priority = 0, lp_dependencies = [], lp_intent = IntentNone, lp_ttl_seconds = 0,
     lp_isolation = IsoNone, lp_version = 0, lp_durability = Ephemeral, lp_continuation = default_continuation,
     lp_source_uri = [], lp_dest_uri = [], lp_pipeline = []\<rparr>"

definition create_label :: "('s, 'n) session_env \<Rightarrow> label_params \<Rightarrow> ('s, 'n, label_data) session_op" where
  "create_label env p =
     op_bind (new_label_id env) (\<lambda>i.
     ret (mark_label_created (sv_now_us env) 0
       (default_label\<lparr>l_id := i, l_type := lp_type p, l_source := lp_source p, l_destination := lp_destination p,
          l_operation := lp_operation p, l_flags := lp_flags p, l_priority := lp_priority p,
          l_dependencies := lp_dependencies p, l_intent := lp_intent p, l_ttl_seconds := lp_ttl_seconds p,
          l_isolation := lp_isolation p, l_app_id := sv_app_id env, l_version := lp_version p,
          l_durability := lp_durability p, l_continuation := lp_continuation p, l_source_uri := lp_source_uri p,
          l_dest_uri := lp_dest_uri p, l_pipeline := lp_pipeline p\<rparr>)))"

definition client_publish ::
    "('s, 'n) session_env \<Rightarrow> label_data \<Rightarrow> bytes \<Rightarrow> ('s, 'n, pending_label list) session_op" where
  "client_publish env l data =
     op_bind (if data \<noteq> [] then se_redis (stage (sv_redis env) (l_id l) data 0 []) else ret ()) (\<lambda>_.
     op_bind (publish_label env (if l_created_us l = 0 then mark_label_created (sv_now_us env) 0 l else l)) (\<lambda>p.
     ret [p]))"

definition client_observe :: "('s, 'n) session_env \<Rightarrow> string \<Rightarrow> ('s, 'n, string) session_op" where
  "client_observe env query =
     op_bind (create_label env (default_params\<lparr>lp_type := Observe, lp_source_uri := ''observe://'' @ query\<rparr>)) (\<lambda>l.
     op_bind (client_publish env l []) (\<lambda>ps.
     op_bind (wait_op env ps) (\<lambda>ps'.
     let key = (case ps' of
                  [] \<Rightarrow> data_key (l_id l) 0 []
                | p # _ \<Rightarrow>
                    if pl_reply_data p \<noteq> [] \<and> comp_data_key (deserialize_completion env (pl_reply_data p)) \<noteq> []
                    then comp_data_key (deserialize_completion env (pl_reply_data p)) else data_key (l_id l) 0 [])
     in op_bind (se_redis (retrieve_key (sv_redis env) key)) (\<lambda>data. ret (string_of_bytes data)))))"

definition async_write_to ::
    "('s, 'n) session_env \<Rightarrow> string \<Rightarrow> bytes \<Rightarrow> ('s, 'n, pending_label list) session_op" where
  "async_write_to env dest_uri data =
     op_bind (create_label env (default_params\<lparr>lp_type := Write, lp_dest_uri := dest_uri\<rparr>)) (\<lambda>l.
     client_publish env (l\<lparr>l_data_size := of_nat (length data)\<rparr>) data)"

definition write_to :: "('s, 'n) session_env \<Rightarrow> string \<Rightarrow> bytes \<Rightarrow> ('s, 'n, unit) session_op" where
  "write_to env dest_uri data =
     op_bind (async_write_to env dest_uri data) (\<lambda>ps. op_bind (wait_op env ps) (\<lambda>_. ret ()))"

definition async_read_from ::
    "('s, 'n) session_env \<Rightarrow> string \<Rightarrow> u64 \<Rightarrow> ('s, 'n, pending_label list) session_op" where
  "async_read_from env source_uri sz =
     op_bind (create_label env (default_params\<lparr>lp_type := Read, lp_source_uri := source_uri\<rparr>)) (\<lambda>l.
     client_publish env (l\<lparr>l_data_size := sz\<rparr>) [])"

definition read_from :: "('s, 'n) session_env \<Rightarrow> string \<Rightarrow> u64 \<Rightarrow> ('s, 'n, bytes) session_op" where
  "read_from env source_uri sz = op_bind (async_read_from env source_uri sz) (wait_read_op env)"

definition write_with_intent ::
    "('s, 'n) session_env \<Rightarrow> string \<Rightarrow> bytes \<Rightarrow> intent \<Rightarrow> u8 \<Rightarrow> ('s, 'n, pending_label list) session_op" where
  "write_with_intent env path data i priority =
     op_bind (create_label env (default_params\<lparr>lp_type := Write, lp_destination := file_path path,
        lp_intent := i, lp_priority := priority\<rparr>)) (\<lambda>l.
     client_publish env (l\<lparr>l_data_size := of_nat (length data)\<rparr>) data)"

definition client_execute_pipeline ::
    "('s, 'n) session_env \<Rightarrow> string \<Rightarrow> string \<Rightarrow> pipeline \<Rightarrow> intent \<Rightarrow> ('s, 'n, pending_label list) session_op" where
  "client_execute_pipeline env source_uri dest_uri p i =
     op_bind (create_label env (default_params\<lparr>lp_type := Write, lp_source_uri := source_uri,
        lp_dest_uri := dest_uri, lp_pipeline := p, lp_intent := i\<rparr>)) (\<lambda>l.
     client_publish env l [])"

definition get_config :: "('s, 'n) session_env \<Rightarrow> ('s, 'n, string) session_op" where
  "get_config env = client_observe env ''config/current''"

definition set_config :: "string \<Rightarrow> string \<Rightarrow> ('s, 'n, bool) session_op" where
  "set_config key v w =
     (case config_set key v (se_config w) of Inl e \<Rightarrow> throw e w | Inr (b, c) \<Rightarrow> ret b (w\<lparr>se_config := c\<rparr>))"

subsection \<open>Channels and workspaces\<close>

record ('s, 'n) client =
  cl_session :: "('s, 'n) session"
  cl_channels :: channel_registry
  cl_workspaces :: workspace_registry

definition client_redis :: "('s, 'a) redis_op \<Rightarrow> (('s, 'n) client, 'a) redis_op" where
  "client_redis m c = (let (r, w) = se_redis m (cl_session c) in (r, c\<lparr>cl_session := w\<rparr>))"

definition create_channel :: "string \<Rightarrow> u32 \<Rightarrow> (('s, 'n) client, channel option) redis_op" where
  "create_channel name ttl c = (let (ch, reg) = registry_create name ttl (cl_channels c) in ret ch (c\<lparr>cl_channels := reg\<rparr>))"

definition publish_to_channel ::
    "('s, 'n) session_env \<Rightarrow> string \<Rightarrow> bytes \<Rightarrow> u64 \<Rightarrow> (('s, 'n) client, u64) redis_op" where
  "publish_to_channel env name data label_id c =
     (case registry_get name (cl_channels c) of
        None \<Rightarrow> ret 0 c
      | Some ch \<Rightarrow>
          (let w = cl_session c;
               (r, ch', io) = channel_publish (sv_redis env) (sv_nats env) data label_id ch (se_io w)
           in (r, c\<lparr>cl_session := w\<lparr>se_io := io\<rparr>, cl_channels := AList.update name ch' (cl_channels c)\<rparr>)))"

definition subscribe_to_channel :: "string \<Rightarrow> (('s, 'n) client, int) redis_op" where
  "subscribe_to_channel name c =
     (case registry_get name (cl_channels c) of
        None \<Rightarrow> ret (-1) c
      | Some ch \<Rightarrow> (let (i, ch') = channel_subscribe ch in ret i (c\<lparr>cl_channels := AList.update name ch' (cl_channels c)\<rparr>)))"

text \<open>Unsubscribing may scan keys, which needs fuel (\<open>None\<close>: it ran out).\<close>

definition unsubscribe_from_channel ::
    "nat \<Rightarrow> ('s, 'n) session_env \<Rightarrow> string \<Rightarrow> int \<Rightarrow> (('s, 'n) client, unit) div_op" where
  "unsubscribe_from_channel fuel env name sub_id c =
     (case registry_get name (cl_channels c) of
        None \<Rightarrow> div_ret () c
      | Some ch \<Rightarrow>
          (let w = cl_session c; io = se_io w in
           map_option (\<lambda>(r, ch', s). (r, c\<lparr>cl_session := w\<lparr>se_io := io\<lparr>io_redis := s\<rparr>\<rparr>,
               cl_channels := AList.update name ch' (cl_channels c)\<rparr>))
             (channel_unsubscribe fuel (sv_redis env) sub_id ch (io_redis io))))"

definition create_workspace :: "('s, 'n) session_env \<Rightarrow> string \<Rightarrow> u32 \<Rightarrow> (('s, 'n) client, workspace option) redis_op" where
  "create_workspace env name ttl c =
     (let (ws, reg) = workspaces_create name (sv_app_id env) ttl (cl_workspaces c) in ret ws (c\<lparr>cl_workspaces := reg\<rparr>))"

definition client_workspace_put ::
    "('s, 'n) session_env \<Rightarrow> string \<Rightarrow> string \<Rightarrow> bytes \<Rightarrow> (('s, 'n) client, u64) redis_op" where
  "client_workspace_put env name key data c =
     (case workspaces_get name (cl_workspaces c) of
        None \<Rightarrow> ret 0 c
      | Some ws \<Rightarrow> client_redis (workspace_put (sv_redis env) (sv_now_us env) ws key data (sv_app_id env)) c)"

definition client_workspace_get ::
    "('s, 'n) session_env \<Rightarrow> string \<Rightarrow> string \<Rightarrow> (('s, 'n) client, bytes option) redis_op" where
  "client_workspace_get env name key c =
     (case workspaces_get name (cl_workspaces c) of
        None \<Rightarrow> ret None c | Some ws \<Rightarrow> client_redis (workspace_get (sv_redis env) ws key (sv_app_id env)) c)"

definition client_workspace_del ::
    "('s, 'n) session_env \<Rightarrow> string \<Rightarrow> string \<Rightarrow> (('s, 'n) client, bool) redis_op" where
  "client_workspace_del env name key c =
     (case workspaces_get name (cl_workspaces c) of
        None \<Rightarrow> ret False c | Some ws \<Rightarrow> client_redis (workspace_del (sv_redis env) ws key (sv_app_id env)) c)"

definition client_workspace_grant :: "string \<Rightarrow> u32 \<Rightarrow> (('s, 'n) client, unit) redis_op" where
  "client_workspace_grant name app_id c =
     (case workspaces_get name (cl_workspaces c) of
        None \<Rightarrow> ret () c
      | Some ws \<Rightarrow> ret () (c\<lparr>cl_workspaces := AList.update name (grant_access app_id ws) (cl_workspaces c)\<rparr>))"

subsection \<open>The C interface\<close>

datatype labios_error = LABIOS_OK | LABIOS_ERR_CONNECT | LABIOS_ERR_TIMEOUT | LABIOS_ERR_IO | LABIOS_ERR_INVALID

text \<open>The output buffer and \<^verbatim>\<open>*bytes_read\<close> are results too.\<close>

definition copy_to_c_buffer ::
    "bytes \<Rightarrow> bytes option \<Rightarrow> nat \<Rightarrow> nat option \<Rightarrow> labios_error \<times> bytes option \<times> nat option" where
  "copy_to_c_buffer data buf buf_size bytes_read =
     (if bytes_read = None then (LABIOS_ERR_INVALID, buf, None)
      else if data \<noteq> [] \<and> buf = None then (LABIOS_ERR_INVALID, buf, Some (length data))
      else if length data > buf_size then (LABIOS_ERR_INVALID, buf, Some (length data))
      else (LABIOS_OK, map_option (\<lambda>b. data @ drop (length data) b) buf, Some (length data)))"

definition labios_write ::
    "('s, 'n) session_env \<Rightarrow> bool \<Rightarrow> string option \<Rightarrow> bytes option \<Rightarrow> nat \<Rightarrow> u64 \<Rightarrow> ('s, 'n) session \<Rightarrow>
     (labios_error \<times> ('s, 'n) session) option" where
  "labios_write env client path data sz offset w =
     (if \<not> client \<or> path = None \<or> (data = None \<and> sz > 0) then Some (LABIOS_ERR_INVALID, w)
      else
        (case client_write env (the path) (case data of None \<Rightarrow> [] | Some d \<Rightarrow> take sz d) offset w of
           None \<Rightarrow> None
         | Some (Inl e, w') \<Rightarrow> Some (LABIOS_ERR_IO, w')
         | Some (Inr _, w') \<Rightarrow> Some (LABIOS_OK, w')))"

definition labios_read ::
    "('s, 'n) session_env \<Rightarrow> bool \<Rightarrow> string option \<Rightarrow> u64 \<Rightarrow> u64 \<Rightarrow> bytes option \<Rightarrow> nat \<Rightarrow> nat option \<Rightarrow>
     ('s, 'n) session \<Rightarrow> ((labios_error \<times> bytes option \<times> nat option) \<times> ('s, 'n) session) option" where
  "labios_read env client path offset sz buf buf_size bytes_read w =
     (if \<not> client \<or> path = None \<or> bytes_read = None
      then Some ((LABIOS_ERR_INVALID, buf, map_option (\<lambda>_. 0) bytes_read), w)
      else
        (case client_read env (the path) offset sz w of
           None \<Rightarrow> None
         | Some (Inl e, w') \<Rightarrow> Some ((LABIOS_ERR_IO, buf, Some 0), w')
         | Some (Inr data, w') \<Rightarrow> Some (copy_to_c_buffer data buf buf_size (Some 0), w')))"

record labios_status =
  st_client :: bool
  st_pending :: "pending_label list"
  st_is_read :: bool

definition labios_async_write ::
    "('s, 'n) session_env \<Rightarrow> bool \<Rightarrow> string option \<Rightarrow> bytes option \<Rightarrow> nat \<Rightarrow> u64 \<Rightarrow> bool \<Rightarrow> ('s, 'n) session \<Rightarrow>
     ((labios_error \<times> labios_status option) \<times> ('s, 'n) session) option" where
  "labios_async_write env client path data sz offset out w =
     (if \<not> client \<or> path = None \<or> \<not> out \<or> (data = None \<and> sz > 0) then Some ((LABIOS_ERR_INVALID, None), w)
      else
        (case client_async_write env (the path) (case data of None \<Rightarrow> [] | Some d \<Rightarrow> take sz d) offset w of
           None \<Rightarrow> None
         | Some (Inl e, w') \<Rightarrow> Some ((LABIOS_ERR_IO, None), w')
         | Some (Inr ps, w') \<Rightarrow>
             Some ((LABIOS_OK, Some \<lparr>st_client = True, st_pending = ps, st_is_read = False\<rparr>), w')))"

definition labios_async_read ::
    "('s, 'n) session_env \<Rightarrow> bool \<Rightarrow> string option \<Rightarrow> u64 \<Rightarrow> u64 \<Rightarrow> bool \<Rightarrow> ('s, 'n) session \<Rightarrow>
     ((labios_error \<times> labios_status option) \<times> ('s, 'n) session) option" where
  "labios_async_read env client path offset sz out w =
     (if \<not> client \<or> path = None \<or> \<not> out then Some ((LABIOS_ERR_INVALID, None), w)
      else
        (case client_async_read env (the path) offset sz w of
           None \<Rightarrow> None
         | Some (Inl e, w') \<Rightarrow> Some ((LABIOS_ERR_IO, None), w')
         | Some (Inr ps, w') \<Rightarrow>
             Some ((LABIOS_OK, Some \<lparr>st_client = True, st_pending = ps, st_is_read = True\<rparr>), w')))"

definition labios_wait ::
    "('s, 'n) session_env \<Rightarrow> labios_status option \<Rightarrow> ('s, 'n) session \<Rightarrow>
     labios_error \<times> labios_status option \<times> ('s, 'n) session" where
  "labios_wait env status w =
     (case status of
        None \<Rightarrow> (LABIOS_ERR_INVALID, None, w)
      | Some st \<Rightarrow>
          if \<not> st_client st then (LABIOS_ERR_INVALID, status, w)
          else
            (let (r, ps, w') = label_wait env (st_pending st) w
             in (case r of Inl e \<Rightarrow> LABIOS_ERR_IO | Inr _ \<Rightarrow> LABIOS_OK, Some (st\<lparr>st_pending := ps\<rparr>), w')))"

definition labios_wait_read ::
    "('s, 'n) session_env \<Rightarrow> labios_status option \<Rightarrow> bytes option \<Rightarrow> nat \<Rightarrow> nat option \<Rightarrow> ('s, 'n) session \<Rightarrow>
     (labios_error \<times> bytes option \<times> nat option) \<times> labios_status option \<times> ('s, 'n) session" where
  "labios_wait_read env status buf buf_size bytes_read w =
     (case status of
        None \<Rightarrow> ((LABIOS_ERR_INVALID, buf, map_option (\<lambda>_. 0) bytes_read), None, w)
      | Some st \<Rightarrow>
          if \<not> st_client st \<or> \<not> st_is_read st \<or> bytes_read = None
          then ((LABIOS_ERR_INVALID, buf, map_option (\<lambda>_. 0) bytes_read), status, w)
          else
            (let (r, ps, w') = label_wait_read env [] (st_pending st) w
             in (case r of
                   Inl e \<Rightarrow> (LABIOS_ERR_IO, buf, Some 0)
                 | Inr data \<Rightarrow> copy_to_c_buffer data buf buf_size (Some 0), Some (st\<lparr>st_pending := ps\<rparr>), w')))"

subsection \<open>What the C interface guarantees\<close>

text \<open>
  Reading into a C buffer is bounded: on success the buffer holds the data, the rest of it is
  as it was and \<^verbatim>\<open>*bytes_read\<close> is the number of bytes; in every other case the buffer is
  untouched, and when it was too small \<^verbatim>\<open>*bytes_read\<close> is the size it needs.
\<close>

lemma copy_to_c_buffer_bounded:
  "(case copy_to_c_buffer data (Some b) (length b) (Some n) of
      (LABIOS_OK, Some b', Some k) \<Rightarrow> length data \<le> length b \<and> length b' = length b \<and> k = length data \<and>
         take k b' = data \<and> drop k b' = drop k b
    | (err, b', k) \<Rightarrow> err = LABIOS_ERR_INVALID \<and> length b < length data \<and> b' = Some b \<and> k = Some (length data))"
  by (simp add: copy_to_c_buffer_def)

text \<open>What a second wait for the same reply finds, once the data has been taken.\<close>

lemma wait_read_taken:
  assumes "redis_server (sv_redis env) db" "\<forall>a \<in> set as. aw_reply a \<noteq> [] \<and>
      comp_status (deserialize_completion env (aw_reply a)) = CompComplete \<and>
      db (io_redis (se_io w)) (awaited_key env a) = None"
  shows "\<exists>w'. label_wait_read env acc (map resolved_of as) w = (Inr acc, map resolved_of as, w')"
  using assms(2)
proof (induction as arbitrary: w)
  case (Cons a as)
  let ?key = "awaited_key env a"
  have a: "db (io_redis (se_io w)) ?key = None" "aw_reply a \<noteq> []"
    "comp_status (deserialize_completion env (aw_reply a)) = CompComplete" using Cons.prems by simp_all
  obtain s1 where s1: "retrieve_key (sv_redis env) ?key (io_redis (se_io w)) = (Inr [], s1)" "db s1 = db (io_redis (se_io w))"
    using yields_run [OF redis_server.yields_get_binary [OF assms(1)], of "io_redis (se_io w)" "db (io_redis (se_io w))" ?key] a(1)
    by (auto simp: retrieve_key_def db_get_def)
  obtain s2 where s2: "remove_key (sv_redis env) ?key s1 = (Inr (), s2)" "db s2 = (db (io_redis (se_io w)))(?key := None)"
    using yields_run [OF redis_server.yields_del [OF assms(1)] s1(2)] by (auto simp: remove_key_def)
  define w2 where "w2 = w\<lparr>se_io := (se_io w)\<lparr>io_redis := s2\<rparr>\<rparr>"
  have taken: "take_staged env ?key w = (Inr [], w2)"
    using s1(1) s2(1) by (simp add: take_staged_def op_bind_def se_redis_def on_redis_def ret_def w2_def)
  have "db (io_redis (se_io w2)) (awaited_key env c) = None" if "c \<in> set as" for c
    using Cons.prems that s2(2) by (simp add: w2_def)
  then obtain w' where rest: "label_wait_read env acc (map resolved_of as) w2 = (Inr acc, map resolved_of as, w')"
    using Cons.IH [of w2] Cons.prems by auto
  have key: "(if comp_data_key (deserialize_completion env (aw_reply a)) = [] then data_key (pl_label_id (resolved_of a)) 0 []
      else comp_data_key (deserialize_completion env (aw_reply a))) = ?key"
    by (simp add: awaited_key_def resolved_of_def Let_def)
  have reply: "pl_reply_data (resolved_of a) = aw_reply a" "resolve_reply env (resolved_of a) w = (Inr (), resolved_of a, w)"
    by (simp_all add: resolved_of_def resolve_reply_def)
  show ?case
    unfolding list.map label_wait_read.simps reply prod.case sum.case Let_def key
    using a taken rest by simp
qed simp

text \<open>
  A read whose buffer is too small is lost: \<^verbatim>\<open>labios_wait_read\<close> answers with the size it needs,
  but has already removed the data, so repeating the call with a large enough buffer reports success
  and no bytes at all.
\<close>

lemma wait_read_retry_loses_data:
  assumes "redis_server (sv_redis env) db" "\<forall>w. sv_world env w = w"
    and "\<forall>a \<in> set as. arrived env db w a" "distinct (map aw_handle as)" "distinct (map (awaited_key env) as)"
    and "length b < length (concat (map aw_data as))"
  shows "\<exists>st' w' w''.
    labios_wait_read env (Some \<lparr>st_client = True, st_pending = map pending_of as, st_is_read = True\<rparr>)
        (Some b) (length b) (Some 0) w =
      ((LABIOS_ERR_INVALID, Some b, Some (length (concat (map aw_data as)))), Some st', w') \<and>
    labios_wait_read env (Some st') (Some b') (length b') (Some 0) w' = ((LABIOS_OK, Some b', Some 0), Some st', w'')"
proof -
  let ?st = "\<lparr>st_client = True, st_pending = map resolved_of as, st_is_read = True\<rparr>"
  obtain w' where r: "label_wait_read env [] (map pending_of as) w = (Inr (concat (map aw_data as)), map resolved_of as, w')"
    "\<forall>k. db (io_redis (se_io w')) k = (if k \<in> awaited_key env ` set as then None else db (io_redis (se_io w)) k)"
    using wait_read_run [OF assms(1-5), of "[]"] by auto
  obtain w'' where r': "label_wait_read env [] (map resolved_of as) w' = (Inr [], map resolved_of as, w'')"
    using wait_read_taken [OF assms(1), of as w' "[]"] r(2) assms(3) by (auto simp: arrived_def)
  have "labios_wait_read env (Some \<lparr>st_client = True, st_pending = map pending_of as, st_is_read = True\<rparr>)
        (Some b) (length b) (Some 0) w =
      ((LABIOS_ERR_INVALID, Some b, Some (length (concat (map aw_data as)))), Some ?st, w')"
    using r(1) assms(6) by (auto simp: labios_wait_read_def copy_to_c_buffer_def)
  moreover have "labios_wait_read env (Some ?st) (Some b') (length b') (Some 0) w' = ((LABIOS_OK, Some b', Some 0), Some ?st, w'')"
    using r' by (simp add: labios_wait_read_def copy_to_c_buffer_def)
  ultimately show ?thesis by blast
qed

end
