(* ===== verification/FdTable.thy ===== *)
theory FdTable
  imports Prelude "HOL-Library.AList"
begin

text \<open>
  The descriptor table of the POSIX adapter (\<^verbatim>\<open>src/labios/adapter/fd_table.cpp\<close>). Descriptors
  come from the kernel, a parameter (\<open>'k fd_kernel\<close> over its own state) whose documented laws
  are the locale \<open>descriptor_kernel\<close>. A \<^verbatim>\<open>FileState\<close> is shared by the descriptors that were
  duplicated from one another: the table maps a descriptor to the place of its state in
  \<open>ft_states\<close>, where the states stay once allocated (freeing them is memory management only). The
  bitset is the set of its true entries.
\<close>

subsection \<open>Kernel\<close>

text \<open>Create an anonymous file, open \<^verbatim>\<open>/dev/null\<close>, duplicate, close.\<close>

record 'k fd_kernel =
  k_memfd :: "'k \<Rightarrow> int \<times> 'k"
  k_devnull :: "'k \<Rightarrow> int \<times> 'k"
  k_dup :: "int \<Rightarrow> 'k \<Rightarrow> int \<times> 'k"
  k_close :: "int \<Rightarrow> 'k \<Rightarrow> 'k"

subsection \<open>Table\<close>

definition O_SYNC :: "32 word" where "O_SYNC = 0x101000"
definition O_DSYNC :: "32 word" where "O_DSYNC = 0x1000"

definition BITSET_SIZE :: int where "BITSET_SIZE = 1048576"

record file_state =
  fs_filepath :: string
  fs_offset :: u64
  fs_open_flags :: "32 word"
  fs_sync_mode :: bool
  fs_ref_count :: int

record fd_table =
  ft_table :: "(int \<times> nat) list"
  ft_states :: "file_state list"
  ft_bitset :: "int set"

definition empty_fd_table :: fd_table where
  "empty_fd_table = \<lparr>ft_table = [], ft_states = [], ft_bitset = {}\<rparr>"

definition new_file_state :: "string \<Rightarrow> 32 word \<Rightarrow> file_state" where
  "new_file_state path flags =
     \<lparr>fs_filepath = path, fs_offset = 0, fs_open_flags = flags,
      fs_sync_mode = (flags AND O_SYNC \<noteq> 0 \<or> flags AND O_DSYNC \<noteq> 0), fs_ref_count = 1\<rparr>"

definition set_bit_of :: "int \<Rightarrow> bool \<Rightarrow> fd_table \<Rightarrow> fd_table" where
  "set_bit_of fd b ft =
     (if 0 \<le> fd \<and> fd < BITSET_SIZE
      then ft\<lparr>ft_bitset := (if b then insert fd (ft_bitset ft) else ft_bitset ft - {fd})\<rparr> else ft)"

definition fd_allocate :: "'k fd_kernel \<Rightarrow> string \<Rightarrow> 32 word \<Rightarrow> fd_table \<Rightarrow> 'k \<Rightarrow> int \<times> fd_table \<times> 'k" where
  "fd_allocate kn path flags ft k =
     (let (fd1, k1) = k_memfd kn k;
          (fd, k2) = (if fd1 < 0 then k_devnull kn k1 else (fd1, k1))
      in if fd < 0 then (-1, ft, k2)
         else (fd, set_bit_of fd True (ft\<lparr>ft_table := AList.update fd (length (ft_states ft)) (ft_table ft),
                                          ft_states := ft_states ft @ [new_file_state path flags]\<rparr>), k2))"

definition fd_get :: "int \<Rightarrow> fd_table \<Rightarrow> nat option" where
  "fd_get fd ft = map_of (ft_table ft) fd"

definition is_labios_fd :: "int \<Rightarrow> fd_table \<Rightarrow> bool" where
  "is_labios_fd fd ft \<longleftrightarrow> 0 \<le> fd \<and> fd < BITSET_SIZE \<and> fd \<in> ft_bitset ft"

definition add_ref :: "nat \<Rightarrow> int \<Rightarrow> fd_table \<Rightarrow> fd_table" where
  "add_ref a n ft =
     ft\<lparr>ft_states := (ft_states ft)[a := (ft_states ft ! a)\<lparr>fs_ref_count := fs_ref_count (ft_states ft ! a) + n\<rparr>]\<rparr>"

text \<open>True when the descriptor was the last of its file state.\<close>

definition fd_release :: "'k fd_kernel \<Rightarrow> int \<Rightarrow> fd_table \<Rightarrow> 'k \<Rightarrow> bool \<times> fd_table \<times> 'k" where
  "fd_release kn fd ft k =
     (case fd_get fd ft of
        None \<Rightarrow> (False, ft, k)
      | Some a \<Rightarrow>
          (let ft1 = set_bit_of fd False (ft\<lparr>ft_table := AList.delete fd (ft_table ft)\<rparr>);
               remaining = fs_ref_count (ft_states ft1 ! a)
           in (remaining = 1, add_ref a (-1) ft1, k_close kn fd k)))"

text \<open>What \<^verbatim>\<open>duplicate\<close> does with the descriptor that \<^verbatim>\<open>::dup\<close> gave it.\<close>

definition share_fd :: "nat \<Rightarrow> int \<Rightarrow> fd_table \<Rightarrow> int \<times> fd_table" where
  "share_fd a fd ft =
     (if fd < 0 then (-1, ft)
      else (fd, set_bit_of fd True ((add_ref a 1 ft)\<lparr>ft_table := AList.update fd a (ft_table ft)\<rparr>)))"

definition fd_duplicate :: "'k fd_kernel \<Rightarrow> int \<Rightarrow> fd_table \<Rightarrow> 'k \<Rightarrow> int \<times> fd_table \<times> 'k" where
  "fd_duplicate kn old ft k =
     (case fd_get old ft of
        None \<Rightarrow> (-1, ft, k)
      | Some a \<Rightarrow>
          (let (fd, k') = k_dup kn old k; (r, ft') = share_fd a fd ft in (r, ft', k')))"

definition fd_set_offset :: "nat \<Rightarrow> u64 \<Rightarrow> fd_table \<Rightarrow> fd_table" where
  "fd_set_offset a off ft = ft\<lparr>ft_states := (ft_states ft)[a := (ft_states ft ! a)\<lparr>fs_offset := off\<rparr>]\<rparr>"

definition fd_size :: "fd_table \<Rightarrow> nat" where
  "fd_size ft = length (ft_table ft)"

subsection \<open>What the kernel promises\<close>

text \<open>A new descriptor is not in use; a failed call is negative and changes nothing.\<close>

definition fresh_fd :: "int set \<Rightarrow> int \<Rightarrow> int set \<Rightarrow> bool" where
  "fresh_fd L fd L' \<longleftrightarrow> (fd < 0 \<and> L' = L) \<or> (0 \<le> fd \<and> fd \<notin> L \<and> L' = insert fd L)"

locale descriptor_kernel =
  fixes kn :: "'k fd_kernel" and live :: "'k \<Rightarrow> int set"
  assumes memfd_law: "k_memfd kn k = (fd, k') \<Longrightarrow> fresh_fd (live k) fd (live k')"
    and devnull_law: "k_devnull kn k = (fd, k') \<Longrightarrow> fresh_fd (live k) fd (live k')"
    and dup_law: "k_dup kn old k = (fd, k') \<Longrightarrow> fresh_fd (live k) fd (live k')"
    and close_law: "live (k_close kn fd k) = live k - {fd}"

text \<open>Every descriptor is live, and each state's count is the number of its descriptors.\<close>

definition descriptors :: "fd_table \<Rightarrow> nat \<Rightarrow> int set" where
  "descriptors ft a = {fd. fd_get fd ft = Some a}"

definition fd_ok :: "fd_table \<Rightarrow> int set \<Rightarrow> bool" where
  "fd_ok ft L \<longleftrightarrow>
     (\<forall>fd a. fd_get fd ft = Some a \<longrightarrow> 0 \<le> fd \<and> fd \<in> L \<and> a < length (ft_states ft)) \<and>
     (\<forall>a < length (ft_states ft). fs_ref_count (ft_states ft ! a) = int (card (descriptors ft a))) \<and>
     (\<forall>fd. fd \<in> ft_bitset ft \<longleftrightarrow> fd_get fd ft \<noteq> None \<and> fd < BITSET_SIZE)"

text \<open>
  The states of the table and the kernel: the table's operations, changes of an offset, and whatever the rest of the process
  does with descriptors that are not in the table.
\<close>

inductive fd_reachable :: "'k fd_kernel \<Rightarrow> ('k \<Rightarrow> int set) \<Rightarrow> fd_table \<Rightarrow> 'k \<Rightarrow> bool" for kn live where
  start: "fd_reachable kn live empty_fd_table k"
| alloc: "fd_reachable kn live ft k \<Longrightarrow> fd_allocate kn path flags ft k = (fd, ft', k') \<Longrightarrow> fd_reachable kn live ft' k'"
| rel: "fd_reachable kn live ft k \<Longrightarrow> fd_release kn fd ft k = (b, ft', k') \<Longrightarrow> fd_reachable kn live ft' k'"
| dupl: "fd_reachable kn live ft k \<Longrightarrow> fd_duplicate kn fd ft k = (r, ft', k') \<Longrightarrow> fd_reachable kn live ft' k'"
| seek: "fd_reachable kn live ft k \<Longrightarrow> fd_reachable kn live (fd_set_offset a off ft) k"
| other: "fd_reachable kn live ft k \<Longrightarrow> {fd. fd_get fd ft \<noteq> None} \<subseteq> live k' \<Longrightarrow> fd_reachable kn live ft k'"

lemma finite_descriptors [simp]: "finite (descriptors ft a)"
proof -
  have "descriptors ft a \<subseteq> dom (map_of (ft_table ft))" by (auto simp: descriptors_def fd_get_def)
  then show ?thesis by (rule finite_subset) (rule finite_dom_map_of)
qed

lemma set_bit_fields [simp]:
  "ft_table (set_bit_of fd b ft) = ft_table ft" "ft_states (set_bit_of fd b ft) = ft_states ft"
  "fd_get fd' (set_bit_of fd b ft) = fd_get fd' ft" "descriptors (set_bit_of fd b ft) a = descriptors ft a"
  by (simp_all add: set_bit_of_def fd_get_def descriptors_def)

lemma add_ref_fields [simp]:
  "ft_table (add_ref a n ft) = ft_table ft" "ft_bitset (add_ref a n ft) = ft_bitset ft"
  "fd_get fd' (add_ref a n ft) = fd_get fd' ft" "descriptors (add_ref a n ft) b = descriptors ft b"
  by (simp_all add: add_ref_def fd_get_def descriptors_def)

lemma in_set_bit:
  "0 \<le> fd \<Longrightarrow> fd' \<in> ft_bitset (set_bit_of fd b ft) \<longleftrightarrow>
     (if fd' = fd \<and> fd < BITSET_SIZE then b else fd' \<in> ft_bitset ft)"
  by (auto simp: set_bit_of_def)

lemma fd_okI:
  assumes "\<And>fd a. fd_get fd ft = Some a \<Longrightarrow> 0 \<le> fd \<and> fd \<in> L \<and> a < length (ft_states ft)"
    and "\<And>a. a < length (ft_states ft) \<Longrightarrow> fs_ref_count (ft_states ft ! a) = int (card (descriptors ft a))"
    and "\<And>fd. fd \<in> ft_bitset ft \<longleftrightarrow> fd_get fd ft \<noteq> None \<and> fd < BITSET_SIZE"
  shows "fd_ok ft L"
  using assms unfolding fd_ok_def by blast

lemma fd_okD:
  assumes "fd_ok ft L"
  shows "fd_get fd ft = Some a \<Longrightarrow> 0 \<le> fd" "fd_get fd ft = Some a \<Longrightarrow> fd \<in> L" "fd_get fd ft = Some a \<Longrightarrow> a < length (ft_states ft)"
    "a < length (ft_states ft) \<Longrightarrow> fs_ref_count (ft_states ft ! a) = int (card (descriptors ft a))"
    "fd \<in> ft_bitset ft \<longleftrightarrow> fd_get fd ft \<noteq> None \<and> fd < BITSET_SIZE"
  using assms unfolding fd_ok_def by blast+

text \<open>A descriptor joins or leaves a state.\<close>

lemma fd_ok_join:
  assumes ok: "fd_ok ft L" and fd: "0 \<le> fd" "fd \<notin> L"
    and ft': "ft_table ft' = AList.update fd a (ft_table ft)" "ft_bitset ft' = ft_bitset ft"
    and a: "a < length (ft_states ft')" "length (ft_states ft) \<le> length (ft_states ft')"
    and counts: "\<And>b. b < length (ft_states ft') \<Longrightarrow>
      fs_ref_count (ft_states ft' ! b) = int (card (descriptors ft b)) + (if b = a then 1 else 0)"
  shows "fd_ok (set_bit_of fd True ft') (insert fd L)"
proof (rule fd_okI)
  have get: "fd_get fd' ft' = (if fd' = fd then Some a else fd_get fd' ft)" for fd'
    by (simp add: fd_get_def ft' update_conv')
  have new: "fd_get fd ft = None" using fd_okD(2) [OF ok, of fd] fd(2) by (cases "fd_get fd ft") auto
  have desc: "descriptors ft' b = (if b = a then insert fd (descriptors ft b) else descriptors ft b)" for b
    using new by (auto simp: descriptors_def get)
  have "fd \<notin> descriptors ft b" for b using new by (simp add: descriptors_def)
  then show "fs_ref_count (ft_states (set_bit_of fd True ft') ! b) = int (card (descriptors (set_bit_of fd True ft') b))"
    if "b < length (ft_states (set_bit_of fd True ft'))" for b
    using counts [of b] that by (simp add: desc)
  show "0 \<le> fd' \<and> fd' \<in> insert fd L \<and> b < length (ft_states (set_bit_of fd True ft'))"
    if "fd_get fd' (set_bit_of fd True ft') = Some b" for fd' b
    using that fd(1) a fd_okD(1-3) [OF ok, of fd' b] by (auto simp: get split: if_splits)
  show "fd' \<in> ft_bitset (set_bit_of fd True ft') \<longleftrightarrow> fd_get fd' (set_bit_of fd True ft') \<noteq> None \<and> fd' < BITSET_SIZE" for fd'
    using fd_okD(5) [OF ok, of fd'] new fd_okD(5) [OF ok, of fd] by (auto simp: in_set_bit [OF fd(1)] ft' get)
qed

lemma fd_ok_leave:
  assumes ok: "fd_ok ft L" and a: "fd_get fd ft = Some a"
  shows "fd_ok (add_ref a (-1) (set_bit_of fd False (ft\<lparr>ft_table := AList.delete fd (ft_table ft)\<rparr>))) (L - {fd})"
    (is "fd_ok ?ft' _")
proof (rule fd_okI)
  have fd: "0 \<le> fd" using fd_okD(1) [OF ok a] .
  have get: "fd_get fd' ?ft' = (if fd' = fd then None else fd_get fd' ft)" for fd'
    by (simp add: fd_get_def delete_conv')
  have len: "length (ft_states ?ft') = length (ft_states ft)" by (simp add: add_ref_def)
  have desc: "descriptors ?ft' b = descriptors ft b - {fd}" for b
    unfolding descriptors_def get by (auto split: if_splits)
  have mem: "fd \<in> descriptors ft a" using a by (simp add: descriptors_def)
  then have less: "int (card (descriptors ft a - {fd})) = int (card (descriptors ft a)) - 1"
    using card_Suc_Diff1 [OF finite_descriptors, of fd ft a] by linarith
  have other: "b \<noteq> a \<Longrightarrow> fd \<notin> descriptors ft b" for b using a by (simp add: descriptors_def)
  show "fs_ref_count (ft_states ?ft' ! b) = int (card (descriptors ?ft' b))" if "b < length (ft_states ?ft')" for b
    using that fd_okD(4) [OF ok, of b] fd_okD(3) [OF ok a] less other [of b]
    unfolding desc by (cases "b = a") (simp_all add: add_ref_def)
  show "0 \<le> fd' \<and> fd' \<in> L - {fd} \<and> b < length (ft_states ?ft')" if "fd_get fd' ?ft' = Some b" for fd' b
    using that fd_okD(1-3) [OF ok, of fd' b] unfolding get len by (auto split: if_splits)
  show "fd' \<in> ft_bitset ?ft' \<longleftrightarrow> fd_get fd' ?ft' \<noteq> None \<and> fd' < BITSET_SIZE" for fd'
    using fd_okD(5) [OF ok, of fd'] unfolding get by (auto simp: in_set_bit [OF fd])
qed

lemma fd_ok_mono: "fd_ok ft L \<Longrightarrow> {fd. fd_get fd ft \<noteq> None} \<subseteq> L' \<Longrightarrow> fd_ok ft L'"
  unfolding fd_ok_def by blast

context descriptor_kernel
begin

lemma allocate_ok:
  assumes ok: "fd_ok ft (live k)" and r: "fd_allocate kn path flags ft k = (fd, ft', k')"
  shows "fd_ok ft' (live k') \<and> (0 \<le> fd \<longrightarrow> fd_get fd ft = None \<and> fd_get fd ft' = Some (length (ft_states ft)))"
proof -
  obtain fd1 k1 where m: "k_memfd kn k = (fd1, k1)" by fastforce
  obtain fd2 k2 where d: "(if fd1 < 0 then k_devnull kn k1 else (fd1, k1)) = (fd2, k2)" by fastforce
  have fresh: "fresh_fd (live k) fd2 (live k2)"
    using memfd_law [OF m] devnull_law [of k1 fd2 k2] d by (cases "fd1 < 0") (auto simp: fresh_fd_def)
  show ?thesis
  proof (cases "fd2 < 0")
    case True
    then show ?thesis using r m d fresh ok by (auto simp: fd_allocate_def fresh_fd_def)
  next
    case False
    let ?ft = "ft\<lparr>ft_table := AList.update fd2 (length (ft_states ft)) (ft_table ft),
                   ft_states := ft_states ft @ [new_file_state path flags]\<rparr>"
    have eq: "fd = fd2" "ft' = set_bit_of fd2 True ?ft" "k' = k2" using r m d False by (auto simp: fd_allocate_def)
    have none: "descriptors ft (length (ft_states ft)) = {}"
      using fd_okD(3) [OF ok] by (force simp: descriptors_def)
    have "fd_ok (set_bit_of fd2 True ?ft) (insert fd2 (live k))"
    proof (rule fd_ok_join [OF ok])
      show "fs_ref_count (ft_states ?ft ! b) = int (card (descriptors ft b)) + (if b = length (ft_states ft) then 1 else 0)"
        if "b < length (ft_states ?ft)" for b
        using that fd_okD(4) [OF ok, of b] none by (auto simp: nth_append new_file_state_def)
    qed (use False fresh in \<open>auto simp: fresh_fd_def\<close>)
    moreover have "fd_get fd2 ft = None" using fd_okD(2) [OF ok, of fd2] fresh False by (cases "fd_get fd2 ft") (auto simp: fresh_fd_def)
    ultimately show ?thesis using fresh False by (auto simp: eq fresh_fd_def) (simp add: fd_get_def update_conv')
  qed
qed

lemma release_ok:
  assumes "fd_ok ft (live k)" "fd_release kn fd ft k = (b, ft', k')"
  shows "fd_ok ft' (live k')"
  using assms fd_ok_leave [OF assms(1), of fd] by (auto simp: fd_release_def Let_def close_law split: option.splits)

lemma duplicate_ok:
  assumes ok: "fd_ok ft (live k)" and r: "fd_duplicate kn old ft k = (fd, ft', k')"
  shows "fd_ok ft' (live k')"
proof (cases "fd_get old ft")
  case (Some a)
  obtain fd2 k2 where d: "k_dup kn old k = (fd2, k2)" by fastforce
  have fresh: "fresh_fd (live k) fd2 (live k2)" using dup_law [OF d] .
  show ?thesis
  proof (cases "fd2 < 0")
    case False
    let ?ft = "(add_ref a 1 ft)\<lparr>ft_table := AList.update fd2 a (ft_table ft)\<rparr>"
    have eq: "ft' = set_bit_of fd2 True ?ft" "k' = k2" using r d False Some by (auto simp: fd_duplicate_def share_fd_def)
    have "fd_ok (set_bit_of fd2 True ?ft) (insert fd2 (live k))"
    proof (rule fd_ok_join [OF ok])
      show "fs_ref_count (ft_states ?ft ! b) = int (card (descriptors ft b)) + (if b = a then 1 else 0)"
        if "b < length (ft_states ?ft)" for b
        using that fd_okD(4) [OF ok, of b] by (auto simp: add_ref_def nth_list_update)
    qed (use False fresh fd_okD(3) [OF ok Some] in \<open>auto simp: fresh_fd_def add_ref_def\<close>)
    then show ?thesis using fresh False by (auto simp: eq fresh_fd_def)
  qed (use r d Some fresh ok in \<open>auto simp: fd_duplicate_def share_fd_def fresh_fd_def\<close>)
qed (use r ok in \<open>simp add: fd_duplicate_def\<close>)

lemma reachable_ok: "fd_reachable kn live ft k \<Longrightarrow> fd_ok ft (live k)"
proof (induction rule: fd_reachable.induct)
  case (start k)
  then show ?case by (simp add: fd_ok_def fd_get_def empty_fd_table_def)
next
  case (alloc ft k path flags fd ft' k')
  then show ?case using allocate_ok by blast
next
  case (rel ft k fd b ft' k')
  then show ?case using release_ok by blast
next
  case (dupl ft k fd r ft' k')
  then show ?case using duplicate_ok by blast
next
  case (seek ft k a off)
  then show ?case
    by (cases "a < length (ft_states ft)")
      (auto simp: fd_ok_def fd_set_offset_def fd_get_def descriptors_def nth_list_update list_update_beyond)
next
  case (other ft k k')
  then show ?case using fd_ok_mono by blast
qed

end

text \<open>A kernel that meets the laws: it gives out the lowest free descriptor from 3 on.\<close>

definition first_free :: "int list \<Rightarrow> int" where
  "first_free L = (case filter (\<lambda>i. i \<notin> set L) (map int [3..<4 + length L]) of [] \<Rightarrow> -1 | i # _ \<Rightarrow> i)"

definition take_fd :: "int list \<Rightarrow> int \<times> int list" where
  "take_fd L = (let fd = first_free L in (fd, if fd < 0 then L else fd # L))"

definition ref_kernel :: "int list fd_kernel" where
  "ref_kernel = \<lparr>k_memfd = take_fd, k_devnull = take_fd, k_dup = (\<lambda>_. take_fd), k_close = removeAll\<rparr>"

lemma take_fd_fresh: "take_fd L = (fd, L') \<Longrightarrow> fresh_fd (set L) fd (set L')"
proof -
  assume t: "take_fd L = (fd, L')"
  then have fd: "fd = first_free L" "L' = (if fd < 0 then L else fd # L)" by (auto simp: take_fd_def Let_def)
  have "fd < 0 \<or> fd \<notin> set L"
  proof (cases "filter (\<lambda>i. i \<notin> set L) (map int [3..<4 + length L])")
    case Nil
    then show ?thesis by (simp add: fd(1) first_free_def)
  next
    case (Cons i rest)
    then have "i \<notin> set L" by (auto dest!: arg_cong [where f = set])
    then show ?thesis using Cons by (simp add: fd(1) first_free_def)
  qed
  then show ?thesis using fd(2) by (auto simp: fresh_fd_def)
qed

interpretation ref_fds: descriptor_kernel ref_kernel set
  by unfold_locales (auto simp: ref_kernel_def take_fd_fresh)

text \<open>
  C33: Closing knows the last descriptor: in every state reachable by allocating, duplicating and
  closing descriptors, whatever the rest of the process does with its own, closing one reports that it
  was the last exactly when no other descriptor shares its file state; the bitset answers as the table
  does; and a new descriptor never shares a file state.
\<close>

theorem fd_release_last:
  assumes "descriptor_kernel kn live" "fd_reachable kn live ft k" "fd_get fd ft = Some a"
  shows "(fst (fd_release kn fd ft k) \<longleftrightarrow> (\<forall>fd'. fd_get fd' ft = Some a \<longrightarrow> fd' = fd)) \<and>
     (\<forall>fd'. is_labios_fd fd' ft \<longleftrightarrow> fd_get fd' ft \<noteq> None \<and> fd' < BITSET_SIZE) \<and>
     (\<forall>path flags new ft' k'. fd_allocate kn path flags ft k = (new, ft', k') \<and> 0 \<le> new \<longrightarrow>
        fd_get new ft = None \<and> descriptors ft' (the (fd_get new ft')) = {new})"
proof (intro conjI allI impI)
  have ok: "fd_ok ft (live k)" using descriptor_kernel.reachable_ok [OF assms(1,2)] .
  have mem: "fd \<in> descriptors ft a" using assms(3) by (simp add: descriptors_def)
  have "fst (fd_release kn fd ft k) \<longleftrightarrow> card (descriptors ft a) = 1"
    using assms(3) fd_okD(4) [OF ok fd_okD(3) [OF ok assms(3)]] by (simp add: fd_release_def Let_def)
  also have "\<dots> \<longleftrightarrow> (\<forall>fd'. fd_get fd' ft = Some a \<longrightarrow> fd' = fd)"
    using mem unfolding One_nat_def card_1_singleton_iff by (auto simp: descriptors_def set_eq_iff)
  finally show "fst (fd_release kn fd ft k) \<longleftrightarrow> (\<forall>fd'. fd_get fd' ft = Some a \<longrightarrow> fd' = fd)" .
  show "is_labios_fd fd' ft \<longleftrightarrow> fd_get fd' ft \<noteq> None \<and> fd' < BITSET_SIZE" for fd'
    using fd_okD(5) [OF ok, of fd'] fd_okD(1) [OF ok, of fd'] by (auto simp: is_labios_fd_def)
  fix path flags new ft' k'
  assume new: "fd_allocate kn path flags ft k = (new, ft', k') \<and> 0 \<le> new"
  have ok': "fd_ok ft' (live k')" and get: "fd_get new ft = None" "fd_get new ft' = Some (length (ft_states ft))"
    using descriptor_kernel.allocate_ok [OF assms(1) ok] new by blast+
  show "fd_get new ft = None" by (rule get)
  have "fs_ref_count (ft_states ft' ! length (ft_states ft)) = 1"
    using new by (auto simp: fd_allocate_def Let_def new_file_state_def split: prod.splits if_splits)
  then have "card (descriptors ft' (length (ft_states ft))) = 1"
    using fd_okD(4) [OF ok' fd_okD(3) [OF ok' get(2)]] by simp
  then show "descriptors ft' (the (fd_get new ft')) = {new}"
    using get(2) unfolding One_nat_def card_1_singleton_iff by (auto simp: descriptors_def set_eq_iff)
qed

theorem fd_release_last_witness:
  "let (fd1, ft1, k1) = fd_allocate ref_kernel ''f'' 0 empty_fd_table [0, 1, 2];
       (fd2, ft2, k2) = fd_duplicate ref_kernel fd1 ft1 k1
   in fd1 = 3 \<and> fd2 = 4 \<and> \<not> fst (fd_release ref_kernel 3 ft2 k2)"
proof -
  obtain ft1 k1 where a: "fd_allocate ref_kernel ''f'' 0 empty_fd_table [0, 1, 2] = (3, ft1, k1)"
    and "fst (fd_allocate ref_kernel ''f'' 0 empty_fd_table [0, 1, 2]) = 3"
    by (auto simp: fd_allocate_def ref_kernel_def take_fd_def first_free_def upt_rec Let_def)
  obtain ft2 k2 where d: "fd_duplicate ref_kernel 3 ft1 k1 = (4, ft2, k2)"
    and get: "fd_get 3 ft2 = Some 0" "fd_get 4 ft2 = Some 0"
    using a by (auto simp: fd_allocate_def fd_duplicate_def share_fd_def fd_get_def ref_kernel_def take_fd_def first_free_def upt_rec
        Let_def set_bit_of_def BITSET_SIZE_def empty_fd_table_def add_ref_def)
  have "fd_reachable ref_kernel set ft2 k2"
    using fd_reachable.dupl [OF fd_reachable.alloc [OF fd_reachable.start a] d] .
  from fd_release_last [OF ref_fds.descriptor_kernel_axioms this get(1)] get(2)
  have "\<not> fst (fd_release ref_kernel 3 ft2 k2)" by force
  then show ?thesis using a d by simp
qed

end
