(* ===== verification/PosixAdapter.thy ===== *)
theory PosixAdapter
  imports Client FdTable
begin

text \<open>
  The POSIX adapter (\<^verbatim>\<open>src/labios/adapter/posix_adapter.cpp\<close>): file calls on LABIOS descriptors,
  over a session and the descriptor table. A call returns a value or sets \<^verbatim>\<open>errno\<close> and returns
  -1 (\<open>Inl\<close> of the error); it can also throw or not return, as in \<open>Client\<close>. A buffer to
  read into is only null or not: the bytes stored in it are the result, and their number is what the
  call returns.
\<close>

subsection \<open>Calls\<close>

datatype errno = EBADF | EFAULT | EINVAL | EIO | ENOENT | ENOMEM

record ('s, 'n, 'k) posix =
  px_session :: "('s, 'n) session"
  px_fds :: fd_table
  px_kernel :: 'k

type_synonym ('s, 'n, 'k, 'a) posix_op = "(('s, 'n, 'k) posix, errno + 'a) div_op"

definition fail_with :: "errno \<Rightarrow> ('s, 'n, 'k, 'a) posix_op" where
  "fail_with e = div_ret (Inl e)"

definition return_ok :: "'a \<Rightarrow> ('s, 'n, 'k, 'a) posix_op" where
  "return_ok x = div_ret (Inr x)"

definition px_div :: "(('s, 'n) session, 'a) div_op \<Rightarrow> (('s, 'n, 'k) posix, 'a) div_op" where
  "px_div m w = map_option (\<lambda>(r, s). (r, w\<lparr>px_session := s\<rparr>)) (m (px_session w))"

definition px_redis :: "('s, 'a) redis_op \<Rightarrow> (('s, 'n, 'k) posix, 'a) div_op" where
  "px_redis m = px_div (div_of (se_redis m))"

definition px_content :: "(content_manager \<Rightarrow> 'a \<times> content_manager) \<Rightarrow> (('s, 'n, 'k) posix, 'a) div_op" where
  "px_content f w =
     (let (x, m) = f (se_content (px_session w))
      in Some (Inr x, w\<lparr>px_session := (px_session w)\<lparr>se_content := m\<rparr>\<rparr>))"

definition px_table :: "(fd_table \<Rightarrow> 'k \<Rightarrow> 'a \<times> fd_table \<times> 'k) \<Rightarrow> (('s, 'n, 'k) posix, 'a) div_op" where
  "px_table f w = (let (x, ft, k) = f (px_fds w) (px_kernel w) in Some (Inr x, w\<lparr>px_fds := ft, px_kernel := k\<rparr>))"

text \<open>\<^verbatim>\<open>catch (const std::exception&)\<close>: every exception of the calls made is one.\<close>

definition catch_io :: "(('s, 'n, 'k) posix, 'a) div_op \<Rightarrow> ('s, 'n, 'k, 'a) posix_op" where
  "catch_io m w =
     (case m w of
        None \<Rightarrow> None
      | Some (Inl e, w') \<Rightarrow> Some (Inr (Inl EIO), w')
      | Some (Inr x, w') \<Rightarrow> Some (Inr (Inr x), w'))"

definition swallow :: "(('s, 'n, 'k) posix, unit) div_op \<Rightarrow> (('s, 'n, 'k) posix, unit) div_op" where
  "swallow m w = map_option (\<lambda>(r, w'). (Inr (), w')) (m w)"

fun div_each :: "('a \<Rightarrow> ('w, unit) div_op) \<Rightarrow> 'a list \<Rightarrow> ('w, unit) div_op" where
  "div_each f [] = div_ret ()"
| "div_each f (x # xs) = div_bind (f x) (\<lambda>_. div_each f xs)"

definition state_of :: "nat \<Rightarrow> ('s, 'n, 'k) posix \<Rightarrow> file_state" where
  "state_of a w = ft_states (px_fds w) ! a"

definition set_offset :: "nat \<Rightarrow> u64 \<Rightarrow> (('s, 'n, 'k) posix, unit) div_op" where
  "set_offset a off w = div_ret () (w\<lparr>px_fds := fd_set_offset a off (px_fds w)\<rparr>)"

text \<open>\<^verbatim>\<open>if (!state) { errno = EBADF; return -1; }\<close>\<close>

definition with_state :: "int \<Rightarrow> (nat \<Rightarrow> ('s, 'n, 'k, 'a) posix_op) \<Rightarrow> ('s, 'n, 'k, 'a) posix_op" where
  "with_state fd f w = (case fd_get fd (px_fds w) of None \<Rightarrow> fail_with EBADF w | Some a \<Rightarrow> f a w)"

subsection \<open>Opening, writing, reading\<close>

definition posix_open ::
    "('s, 'n) session_env \<Rightarrow> 'k fd_kernel \<Rightarrow> string \<Rightarrow> 32 word \<Rightarrow> ('s, 'n, 'k, int) posix_op" where
  "posix_open env kn path flags =
     div_bind (px_table (fd_allocate kn path flags)) (\<lambda>fd.
     if fd < 0 then fail_with ENOMEM
     else div_bind (px_redis (track_open (sv_redis env) (sv_now_ms env) path flags)) (\<lambda>_. return_ok fd))"

text \<open>A region is published, waited for when asked, and reported.\<close>

definition publish_region ::
    "('s, 'n) session_env \<Rightarrow> bool \<Rightarrow> flush_region \<Rightarrow> (('s, 'n, 'k) posix, unit) div_op" where
  "publish_region env sync r =
     div_bind (px_div (publish_write env (fr_filepath r) (fr_offset r) (fr_data r))) (\<lambda>ps.
     div_bind (if sync then div_bind (px_div (div_of (wait_op env ps))) (\<lambda>_. div_ret ()) else div_ret ()) (\<lambda>_.
     px_redis (track_write (sv_redis env) (sv_now_ms env) (fr_filepath r) (fr_offset r) (of_nat (length (fr_data r))))))"

definition flush_and_publish :: "('s, 'n) session_env \<Rightarrow> int \<Rightarrow> (('s, 'n, 'k) posix, unit) div_op" where
  "flush_and_publish env fd =
     div_bind (px_content (content_flush fd)) (\<lambda>regions. div_each (publish_region env True) regions)"

definition move_offset :: "bool \<Rightarrow> nat \<Rightarrow> u64 \<Rightarrow> (('s, 'n, 'k) posix, unit) div_op" where
  "move_offset update a off = (if update then set_offset a off else div_ret ())"

text \<open>\<open>buf = None\<close> is the null pointer; otherwise the buffer holds at least the bytes counted.\<close>

definition do_write ::
    "('s, 'n) session_env \<Rightarrow> nat \<Rightarrow> int \<Rightarrow> bytes option \<Rightarrow> nat \<Rightarrow> u64 \<Rightarrow> bool \<Rightarrow> ('s, 'n, 'k, nat) posix_op" where
  "do_write env a fd buf n off update w =
     (if buf = None \<and> n > 0 then fail_with EFAULT w
      else if n = 0 then return_ok 0 w
      else
        (let data = take n (the buf); st = state_of a w in
         catch_io
           (div_bind
              (if of_nat n < c_label_min_size (se_config (px_session w))
               then div_bind (px_content (cache_write fd (fs_filepath st) off data)) (\<lambda>regions.
                    div_each (publish_region env (fs_sync_mode st)) regions)
               else publish_region env (fs_sync_mode st)
                      \<lparr>fr_filepath = fs_filepath st, fr_offset = off, fr_data = data\<rparr>) (\<lambda>_.
            div_bind (move_offset update a (off + of_nat n)) (\<lambda>_.
            div_ret n))) w))"

definition posix_write ::
    "('s, 'n) session_env \<Rightarrow> int \<Rightarrow> bytes option \<Rightarrow> nat \<Rightarrow> ('s, 'n, 'k, nat) posix_op" where
  "posix_write env fd buf n = with_state fd (\<lambda>a w. do_write env a fd buf n (fs_offset (state_of a w)) True w)"

definition posix_pwrite ::
    "('s, 'n) session_env \<Rightarrow> int \<Rightarrow> bytes option \<Rightarrow> nat \<Rightarrow> u64 \<Rightarrow> ('s, 'n, 'k, nat) posix_op" where
  "posix_pwrite env fd buf n off = with_state fd (\<lambda>a. do_write env a fd buf n off False)"

text \<open>The part of a read the cache cannot answer: buffered writes are published first.\<close>

definition read_through ::
    "('s, 'n) session_env \<Rightarrow> nat \<Rightarrow> int \<Rightarrow> string \<Rightarrow> nat \<Rightarrow> u64 \<Rightarrow> bool \<Rightarrow> (('s, 'n, 'k) posix, bytes) div_op" where
  "read_through env a fd path n off update =
     div_bind (flush_and_publish env fd) (\<lambda>_.
     div_bind (px_div (publish_read env path off (of_nat n))) (\<lambda>ps.
     div_bind (px_div (div_of (wait_read_op env ps))) (\<lambda>data.
     div_bind (move_offset update a (off + of_nat (length (take n data)))) (\<lambda>_.
     div_ret (take n data)))))"

definition do_read ::
    "('s, 'n) session_env \<Rightarrow> nat \<Rightarrow> int \<Rightarrow> bool \<Rightarrow> nat \<Rightarrow> u64 \<Rightarrow> bool \<Rightarrow> ('s, 'n, 'k, bytes) posix_op" where
  "do_read env a fd null_buf n off update w =
     (if null_buf \<and> n > 0 then fail_with EFAULT w
      else if n = 0 then return_ok [] w
      else
        catch_io
          (case cache_read fd off (of_nat n) (se_content (px_session w)) of
             Some d \<Rightarrow>
               if length d = n then div_bind (move_offset update a (off + of_nat n)) (\<lambda>_. div_ret d)
               else read_through env a fd (fs_filepath (state_of a w)) n off update
           | None \<Rightarrow> read_through env a fd (fs_filepath (state_of a w)) n off update) w)"

definition posix_read :: "('s, 'n) session_env \<Rightarrow> int \<Rightarrow> bool \<Rightarrow> nat \<Rightarrow> ('s, 'n, 'k, bytes) posix_op" where
  "posix_read env fd null_buf n =
     with_state fd (\<lambda>a w. do_read env a fd null_buf n (fs_offset (state_of a w)) True w)"

definition posix_pread :: "('s, 'n) session_env \<Rightarrow> int \<Rightarrow> bool \<Rightarrow> nat \<Rightarrow> u64 \<Rightarrow> ('s, 'n, 'k, bytes) posix_op" where
  "posix_pread env fd null_buf n off = with_state fd (\<lambda>a. do_read env a fd null_buf n off False)"

subsection \<open>Offsets, closing, flushing\<close>

text \<open>
  \<^verbatim>\<open>SEEK_SET\<close>, \<^verbatim>\<open>SEEK_CUR\<close> and \<^verbatim>\<open>SEEK_END\<close> are 0, 1 and 2. The sum of two 64-bit offsets wraps
  where C++ leaves its overflow undefined.
\<close>

definition seek_to :: "nat \<Rightarrow> 64 word \<Rightarrow> ('s, 'n, 'k, u64) posix_op" where
  "seek_to a pos = (if sint pos < 0 then fail_with EINVAL else div_bind (set_offset a pos) (\<lambda>_. return_ok pos))"

definition posix_lseek :: "('s, 'n) session_env \<Rightarrow> int \<Rightarrow> 64 word \<Rightarrow> int \<Rightarrow> ('s, 'n, 'k, u64) posix_op" where
  "posix_lseek env fd offset whence =
     with_state fd (\<lambda>a w.
       if whence = 0 then seek_to a offset w
       else if whence = 1 then seek_to a (fs_offset (state_of a w) + offset) w
       else if whence = 2 then
         div_bind (px_redis (get_file_info (sv_redis env) (fs_filepath (state_of a w)))) (\<lambda>info.
         seek_to a ((case info of None \<Rightarrow> 0 | Some i \<Rightarrow> fi_size i) + offset)) w
       else fail_with EINVAL w)"

text \<open>The cache is flushed, whatever comes of it, and dropped, after the descriptor is released.\<close>

definition posix_close :: "('s, 'n) session_env \<Rightarrow> 'k fd_kernel \<Rightarrow> int \<Rightarrow> ('s, 'n, 'k, unit) posix_op" where
  "posix_close env kn fd =
     with_state fd (\<lambda>_.
       div_bind (px_table (fd_release kn fd)) (\<lambda>was_last.
       div_bind (if was_last
                 then div_bind (swallow (flush_and_publish env fd)) (\<lambda>_. px_content (\<lambda>m. ((), evict fd m)))
                 else div_ret ()) (\<lambda>_.
       return_ok ())))"

definition posix_fsync :: "('s, 'n) session_env \<Rightarrow> int \<Rightarrow> ('s, 'n, 'k, unit) posix_op" where
  "posix_fsync env fd = with_state fd (\<lambda>_. catch_io (flush_and_publish env fd))"

definition posix_ftruncate :: "('s, 'n) session_env \<Rightarrow> int \<Rightarrow> 64 word \<Rightarrow> ('s, 'n, 'k, unit) posix_op" where
  "posix_ftruncate env fd len =
     with_state fd (\<lambda>a w.
       div_bind (px_redis (track_truncate (sv_redis env) (sv_now_ms env) (fs_filepath (state_of a w)) len))
         (\<lambda>_. return_ok ()) w)"

definition posix_dup :: "'k fd_kernel \<Rightarrow> int \<Rightarrow> ('s, 'n, 'k, int) posix_op" where
  "posix_dup kn fd = with_state fd (\<lambda>_. div_bind (px_table (fd_duplicate kn fd)) return_ok)"

definition posix_dup2 :: "('s, 'n) session_env \<Rightarrow> 'k fd_kernel \<Rightarrow> int \<Rightarrow> int \<Rightarrow> ('s, 'n, 'k, int) posix_op" where
  "posix_dup2 env kn oldfd newfd =
     with_state oldfd (\<lambda>_ w.
       div_bind (if is_labios_fd newfd (px_fds w) then div_bind (posix_close env kn newfd) (\<lambda>_. div_ret ()) else div_ret ())
         (\<lambda>_. div_bind (px_table (fd_duplicate kn oldfd)) return_ok) w)"

subsection \<open>Paths\<close>

record stat_buf =
  sb_mode :: "32 word"
  sb_size :: u64
  sb_mtime_sec :: u64
  sb_mtime_nsec :: u64
  sb_blksize :: u64
  sb_blocks :: u64

definition stat_of :: "file_info \<Rightarrow> stat_buf" where
  "stat_of i =
     \<lparr>sb_mode = 0x81A4, sb_size = fi_size i, sb_mtime_sec = fi_mtime_ms i div 1000,
      sb_mtime_nsec = (fi_mtime_ms i mod 1000) * 1000000, sb_blksize = 4096, sb_blocks = (fi_size i + 511) div 512\<rparr>"

definition existing_file :: "('s, 'n) session_env \<Rightarrow> string \<Rightarrow> (file_info \<Rightarrow> ('s, 'n, 'k, 'a) posix_op) \<Rightarrow> ('s, 'n, 'k, 'a) posix_op" where
  "existing_file env path f =
     div_bind (px_redis (get_file_info (sv_redis env) path)) (\<lambda>info.
     case info of None \<Rightarrow> fail_with ENOENT | Some i \<Rightarrow> if fi_exists i then f i else fail_with ENOENT)"

definition populate_stat :: "('s, 'n) session_env \<Rightarrow> string \<Rightarrow> ('s, 'n, 'k, stat_buf) posix_op" where
  "populate_stat env path = existing_file env path (\<lambda>i. return_ok (stat_of i))"

definition posix_stat :: "('s, 'n) session_env \<Rightarrow> string \<Rightarrow> ('s, 'n, 'k, stat_buf) posix_op" where
  "posix_stat env path = populate_stat env path"

definition posix_lstat :: "('s, 'n) session_env \<Rightarrow> string \<Rightarrow> ('s, 'n, 'k, stat_buf) posix_op" where
  "posix_lstat env path = populate_stat env path"

definition posix_fstat :: "('s, 'n) session_env \<Rightarrow> int \<Rightarrow> ('s, 'n, 'k, stat_buf) posix_op" where
  "posix_fstat env fd = with_state fd (\<lambda>a w. populate_stat env (fs_filepath (state_of a w)) w)"

definition posix_unlink :: "('s, 'n) session_env \<Rightarrow> string \<Rightarrow> ('s, 'n, 'k, unit) posix_op" where
  "posix_unlink env path =
     div_bind (px_redis (track_unlink (sv_redis env) (sv_now_ms env) path)) (\<lambda>_. return_ok ())"

definition posix_access :: "('s, 'n) session_env \<Rightarrow> string \<Rightarrow> ('s, 'n, 'k, unit) posix_op" where
  "posix_access env path = existing_file env path (\<lambda>_. return_ok ())"

definition posix_mkdir :: "string \<Rightarrow> ('s, 'n, 'k, unit) posix_op" where
  "posix_mkdir path = return_ok ()"

definition posix_rmdir :: "string \<Rightarrow> ('s, 'n, 'k, unit) posix_op" where
  "posix_rmdir path = return_ok ()"

definition O_WRONLY :: "32 word" where "O_WRONLY = 1"

definition rename_entry :: "'s server \<Rightarrow> string \<Rightarrow> string \<Rightarrow> string \<Rightarrow> u64 \<Rightarrow> ('s, unit) redis_op" where
  "rename_entry exec now oldpath newpath sz =
     op_bind (track_open exec now newpath (O_CREAT OR O_WRONLY)) (\<lambda>_.
     op_bind (track_write exec now newpath 0 sz) (\<lambda>_.
     op_bind (get_file_location exec oldpath) (\<lambda>loc.
     op_bind (case loc of None \<Rightarrow> ret () | Some wid \<Rightarrow> set_file_location exec newpath wid) (\<lambda>_.
     track_unlink exec now oldpath))))"

definition posix_rename :: "('s, 'n) session_env \<Rightarrow> string \<Rightarrow> string \<Rightarrow> ('s, 'n, 'k, unit) posix_op" where
  "posix_rename env oldpath newpath =
     existing_file env oldpath (\<lambda>i.
       div_bind (px_redis (rename_entry (sv_redis env) (sv_now_ms env) oldpath newpath (fi_size i))) (\<lambda>_. return_ok ()))"

subsection \<open>Small writes and the reads that follow\<close>

definition with_content :: "content_manager \<Rightarrow> ('s, 'n, 'k) posix \<Rightarrow> ('s, 'n, 'k) posix" where
  "with_content m w = w\<lparr>px_session := (px_session w)\<lparr>se_content := m\<rparr>\<rparr>"

lemma with_content_simps [simp]:
  "px_fds (with_content m w) = px_fds w" "px_kernel (with_content m w) = px_kernel w"
  "state_of a (with_content m w) = state_of a w" "with_content m' (with_content m w) = with_content m' w"
  "se_content (px_session (with_content m w)) = m" "se_io (px_session (with_content m w)) = se_io (px_session w)"
  "se_config (px_session (with_content m w)) = se_config (px_session w)"
  "with_content (se_content (px_session w)) w = w"
  by (simp_all add: with_content_def state_of_def)

lemma px_content_run: "px_content f w = (let (x, m) = f (se_content (px_session w)) in Some (Inr x, with_content m w))"
  by (simp add: px_content_def with_content_def)

lemma pwrite_small:
  assumes "fd_get fd (px_fds w) = Some a" "d \<noteq> []"
    and "of_nat (length d) < c_label_min_size (se_config (px_session w))"
    and "cache_write fd (fs_filepath (state_of a w)) off d (se_content (px_session w)) = ([], m)"
  shows "posix_pwrite env fd (Some d) (length d) off w = Some (Inr (Inr (length d)), with_content m w)"
  using assms
  by (simp add: posix_pwrite_def with_state_def do_write_def catch_io_def div_bind_def px_content_run move_offset_def div_ret_def)

text \<open>Several writes at given offsets, and what they return.\<close>

fun pwrites :: "('s, 'n) session_env \<Rightarrow> int \<Rightarrow> regions \<Rightarrow> ('s, 'n, 'k, nat list) posix_op" where
  "pwrites env fd [] = return_ok []"
| "pwrites env fd ((off, d) # ws) =
     div_bind (posix_pwrite env fd (Some d) (length d) off) (\<lambda>r.
     case r of Inl e \<Rightarrow> fail_with e
     | Inr n \<Rightarrow> div_bind (pwrites env fd ws) (\<lambda>rs. div_ret (map_sum id (\<lambda>ns. n # ns) rs)))"

lemma pwrites_small:
  assumes "fd_get fd (px_fds w) = Some a" "fs_filepath (state_of a w) = path" "\<forall>(off, d) \<in> set ws. d \<noteq> []"
    and "cache_ok (min_label_size m) (cache_of fd m)" "se_content (px_session w) = m"
    and "c_label_min_size (se_config (px_session w)) = min_label_size m"
    and "region_total (fc_regions (cache_of fd m)) + region_total ws < unat (min_label_size m)"
    and "cache_writes fd path ws m = (out, m')"
  shows "out = [] \<and> pwrites env fd ws w = Some (Inr (Inr (map (\<lambda>(off, d). length d) ws)), with_content m' w)"
  using assms
proof (induction ws arbitrary: m w out)
  case Nil
  then show ?case by (simp add: return_ok_def div_ret_def) (metis with_content_simps(8))
next
  case (Cons r ws)
  obtain off d where r: "r = (off, d)" by (cases r)
  obtain o1 m1 where s1: "cache_write fd path off d m = (o1, m1)" by fastforce
  obtain o2 where s2: "cache_writes fd path ws m1 = (o2, m')" "out = o1 @ o2"
    using Cons.prems(8) s1 by (auto simp: r split: prod.splits)
  obtain c where c: "write_cache (min_label_size m) (default_policy m) path off d (cache_of fd m) = (o1, c)"
    and m1: "m1 = m\<lparr>caches := AList.update fd c (caches m)\<rparr>"
    using s1 by (auto simp: cache_write_def split: prod.splits)
  have c1: "cache_of fd m1 = c" "min_label_size m1 = min_label_size m" by (simp_all add: m1 cache_of_def update_conv')
  have tot: "region_total (fc_regions (cache_of fd m)) + length d + region_total ws < unat (min_label_size m)"
    using Cons.prems(7) by (simp add: r)
  have small: "o1 = []" "region_total (fc_regions c) \<le> region_total (fc_regions (cache_of fd m)) + length d" "cache_ok (min_label_size m) c"
    using write_cache_small [OF Cons.prems(4) _ c] tot by simp_all
  have len: "length d < unat (min_label_size m)" using tot by simp
  then have "of_nat (length d) < min_label_size m"
    by (simp add: word_less_nat_alt unat_of_nat64 less_trans [OF len unsigned_less [where 'b = 64, simplified]])
  then have head: "posix_pwrite env fd (Some d) (length d) off w = Some (Inr (Inr (length d)), with_content m1 w)"
    using Cons.prems(1-3,5,6) s1 small(1) by (intro pwrite_small) (auto simp: r)
  have "o2 = [] \<and> pwrites env fd ws (with_content m1 w) = Some (Inr (Inr (map (\<lambda>(off, d). length d) ws)), with_content m' (with_content m1 w))"
    using Cons.prems tot small by (intro Cons.IH [OF _ _ _ _ _ _ _ s2(1)]) (auto simp: c1)
  then show ?case using head small(1) s2(2) by (simp add: r div_bind_def div_ret_def)
qed


definition sample_posix :: "u64 \<Rightarrow> (ref_state, nats_message list, int list) posix" where
  "sample_posix mn =
     \<lparr>px_session = sample_session\<lparr>se_content := \<lparr>min_label_size = mn, default_policy = ReadThrough, caches = []\<rparr>,
        se_config := default_cfg\<lparr>c_label_min_size := mn\<rparr>\<rparr>,
      px_fds = \<lparr>ft_table = [(3, 0)], ft_states = [new_file_state ''f'' 0], ft_bitset = {3}\<rparr>, px_kernel = [3, 2, 1, 0]\<rparr>"


subsection \<open>Renaming\<close>

context redis_server
begin

lemma yields_set_location_frame:
  "\<exists>d'. yields db (case loc of None \<Rightarrow> ret () | Some wid \<Rightarrow> set_file_location exec f wid) d (Inr ()) d' \<and>
     (\<forall>g. d' (filemeta_key g) = d (filemeta_key g))"
proof (cases loc)
  case None
  then show ?thesis using yields_ret by fastforce
next
  case (Some wid)
  have "yields db (set_file_location exec f wid) d (Inr ()) (d(location_key f \<mapsto> VStr (int_to_string wid)))"
    unfolding set_file_location_def by (rule yields_set)
  then show ?thesis using Some by fastforce
qed

lemma yields_rename_entry:
  assumes "meta_recorded old d (Some i)" "meta_recorded new d m"
  shows "\<exists>d'. yields db (rename_entry exec (u64_to_string t) old new (fi_size i)) d (Inr ()) d' \<and>
    meta_recorded old d' (Some \<lparr>fi_size = 0, fi_mtime_ms = t, fi_exists = False\<rparr>) \<and>
    (old \<noteq> new \<longrightarrow> meta_recorded new d' (Some \<lparr>fi_size = max (fi_size i) (file_size m), fi_mtime_ms = t, fi_exists = True\<rparr>))"
proof -
  let ?flags = "O_CREAT OR O_WRONLY"
  have flags: "?flags AND O_CREAT \<noteq> 0" "?flags AND O_TRUNC = 0" by (simp_all add: O_CREAT_def O_WRONLY_def O_TRUNC_def)
  obtain d1 where d1: "yields db (track_event exec new (EOpen ?flags, t)) d (Inr ()) d1" "meta_recorded new d1 (file_after (EOpen ?flags, t) m)"
    "\<forall>g. g \<noteq> new \<longrightarrow> d1 (filemeta_key g) = d (filemeta_key g)"
    using yields_track_event [OF assms(2)] by blast
  obtain d2 where d2: "yields db (track_event exec new (EWrite 0 (fi_size i), t)) d1 (Inr ()) d2"
    "meta_recorded new d2 (file_after (EWrite 0 (fi_size i), t) (file_after (EOpen ?flags, t) m))"
    "\<forall>g. g \<noteq> new \<longrightarrow> d2 (filemeta_key g) = d1 (filemeta_key g)"
    using yields_track_event [OF d1(2)] by blast
  obtain loc where loc: "yields db (get_file_location exec old) d2 (Inr loc) d2" using yields_get_file_location by blast
  obtain d3 where d3: "yields db (case loc of None \<Rightarrow> ret () | Some wid \<Rightarrow> set_file_location exec new wid) d2 (Inr ()) d3"
    "\<forall>g. d3 (filemeta_key g) = d2 (filemeta_key g)"
    using yields_set_location_frame by blast
  have "\<exists>m'. meta_recorded old d3 m'"
  proof (cases "old = new")
    case True
    then show ?thesis using d2(2) meta_recorded_cong d3(2) by metis
  next
    case False
    then show ?thesis using assms(1) meta_recorded_cong d3(2) d2(3) d1(3) by metis
  qed
  then obtain d4 m' where d4: "yields db (track_event exec old (EUnlink, t)) d3 (Inr ()) d4"
    "meta_recorded old d4 (file_after (EUnlink, t) m')" "\<forall>g. g \<noteq> old \<longrightarrow> d4 (filemeta_key g) = d3 (filemeta_key g)"
    using yields_track_event by blast
  have "yields db (rename_entry exec (u64_to_string t) old new (fi_size i)) d (Inr ()) d4"
    unfolding rename_entry_def
    by (rule yields_bind [OF d1(1) [unfolded track_event.simps]], rule yields_bind [OF d2(1) [unfolded track_event.simps]],
        rule yields_bind [OF loc], rule yields_bind [OF d3(1)], rule d4(1) [unfolded track_event.simps])
  moreover have "meta_recorded new d4 (Some \<lparr>fi_size = max (fi_size i) (file_size m), fi_mtime_ms = t, fi_exists = True\<rparr>)" if "old \<noteq> new"
  proof -
    have same: "d4 (filemeta_key new) = d2 (filemeta_key new)" using d4(3) d3(2) that by simp
    have "meta_recorded new d2 (Some \<lparr>fi_size = max (fi_size i) (file_size m), fi_mtime_ms = t, fi_exists = True\<rparr>)"
      using d2(2) flags by simp
    then show ?thesis by (simp only: meta_recorded_cong [of d4 new d2, OF same])
  qed
  ultimately show ?thesis using d4(2) by auto
qed

end

text \<open>
  What renaming does to the metadata: the old path ceases to exist and the new one exists with the
  time of the call, but its size is the larger of the two files' - a longer file that was at the new
  path is not replaced - and renaming a path to itself, which POSIX defines as no change, deletes it.
\<close>

lemma rename_metadata:
  assumes "redis_server (sv_redis env) db" "sv_now_ms env = u64_to_string t"
    and "meta_recorded old (db (io_redis (se_io (px_session w)))) (Some i)" "fi_exists i"
    and "meta_recorded new (db (io_redis (se_io (px_session w)))) m"
  shows "\<exists>w'. posix_rename env old new w = Some (Inr (Inr ()), w') \<and>
    fst (get_file_info (sv_redis env) old (io_redis (se_io (px_session w')))) =
      Inr (Some \<lparr>fi_size = 0, fi_mtime_ms = t, fi_exists = False\<rparr>) \<and>
    fst (get_file_info (sv_redis env) new (io_redis (se_io (px_session w')))) =
      Inr (Some (if old = new then \<lparr>fi_size = 0, fi_mtime_ms = t, fi_exists = False\<rparr>
                 else \<lparr>fi_size = max (fi_size i) (file_size m), fi_mtime_ms = t, fi_exists = True\<rparr>))"
proof -
  let ?s = "io_redis (se_io (px_session w))"
  obtain s1 where s1: "get_file_info (sv_redis env) old ?s = (Inr (Some i), s1)" "db s1 = db ?s"
    using yields_run [OF redis_server.yields_get_file_info [OF assms(1,3)] refl] by blast
  obtain d' where d': "yields db (rename_entry (sv_redis env) (u64_to_string t) old new (fi_size i)) (db ?s) (Inr ()) d'"
    "meta_recorded old d' (Some \<lparr>fi_size = 0, fi_mtime_ms = t, fi_exists = False\<rparr>)"
    "old \<noteq> new \<longrightarrow> meta_recorded new d' (Some \<lparr>fi_size = max (fi_size i) (file_size m), fi_mtime_ms = t, fi_exists = True\<rparr>)"
    using redis_server.yields_rename_entry [OF assms(1,3,5)] by blast
  obtain s2 where s2: "rename_entry (sv_redis env) (u64_to_string t) old new (fi_size i) s1 = (Inr (), s2)" "db s2 = d'"
    using yields_run [OF d'(1) s1(2)] by blast
  let ?w' = "w\<lparr>px_session := (px_session w)\<lparr>se_io := (se_io (px_session w))\<lparr>io_redis := s2\<rparr>\<rparr>\<rparr>"
  have "posix_rename env old new w = Some (Inr (Inr ()), ?w')"
    using s1(1) s2(1) assms(4)
    by (simp add: posix_rename_def existing_file_def div_bind_def px_redis_def px_div_def div_of_def se_redis_def
        on_redis_def return_ok_def div_ret_def assms(2))
  moreover have "fst (get_file_info (sv_redis env) f s2) = Inr x" if "meta_recorded f d' x" for f x
    using redis_server.yields_get_file_info [OF assms(1) that] s2(2) by (simp add: yields_def)
  ultimately show ?thesis using d'(2,3) by auto
qed

subsection \<open>Duplicated descriptors\<close>

lemma cache_write_keeps_file:
  assumes "map_of (caches m) fd = Some c" "fc_filepath c \<noteq> []" "r \<in> set (fst (cache_write fd path off d m))"
  shows "fr_filepath r = fc_filepath c"
  using assms by (auto simp: cache_write_def cache_of_def write_cache_def flush_locked_def Let_def split: if_splits prod.splits)

text \<open>
  Closing a duplicated descriptor loses its writes: writes are buffered per descriptor but flushed
  only by the close of the last descriptor of the file, which flushes its own buffer. So when the
  descriptor that wrote is closed first and its duplicate second, both calls succeed, neither server
  is contacted, and the bytes stay buffered under a descriptor that is no longer open. If the number is
  given to another file later, what its small writes flush is published to the old file's path.
\<close>

lemma dup_close_orphans_writes:
  assumes "descriptor_kernel kn live" "fd_reachable kn live (px_fds w) (px_kernel w)"
    and "fd \<noteq> fd2" "descriptors (px_fds w) a = {fd, fd2}"
    and "map_of (caches (se_content (px_session w))) fd = Some c" "fc_filepath c \<noteq> []"
    and "map_of (caches (se_content (px_session w))) fd2 = None"
  shows "\<exists>w1 w2. posix_close env kn fd w = Some (Inr (Inr ()), w1) \<and> posix_close env kn fd2 w1 = Some (Inr (Inr ()), w2) \<and>
    se_io (px_session w2) = se_io (px_session w) \<and>
    fd_get fd (px_fds w2) = None \<and> fd_get fd2 (px_fds w2) = None \<and>
    map_of (caches (se_content (px_session w2))) fd = Some c \<and>
    (\<forall>other off d. \<forall>r \<in> set (fst (cache_write fd other off d (se_content (px_session w2)))). fr_filepath r = fc_filepath c)"
proof -
  let ?ft = "px_fds w"
  have ok: "fd_ok ?ft (live (px_kernel w))" using descriptor_kernel.reachable_ok [OF assms(1,2)] .
  have get: "fd_get fd ?ft = Some a" "fd_get fd2 ?ft = Some a" using assms(4) by (auto simp: descriptors_def)
  obtain b ft1 k1 where r1: "fd_release kn fd ?ft (px_kernel w) = (b, ft1, k1)" using prod_cases3 by blast
  have reach1: "fd_reachable kn live ft1 k1" using fd_reachable.rel [OF assms(2) r1] .
  have "\<not> b" using fd_release_last [OF assms(1,2) get(1)] r1 get(2) assms(3) by auto
  have get1: "fd_get g ft1 = (if g = fd then None else fd_get g ?ft)" for g
    using r1 get(1) by (auto simp: fd_release_def Let_def fd_get_def delete_conv')
  obtain b2 ft2 k2 where r2: "fd_release kn fd2 ft1 k1 = (b2, ft2, k2)" using prod_cases3 by blast
  have get2: "fd_get fd2 ft1 = Some a" using get1 get(2) assms(3) by simp
  have last: "fd_get g ft1 = Some a \<Longrightarrow> g = fd2" for g
    using assms(4) by (auto simp: get1 descriptors_def split: if_splits)
  have "b2" using fd_release_last [OF assms(1) reach1 get2] r2 last by auto
  have gone: "fd_get g ft2 = (if g = fd2 then None else fd_get g ft1)" for g
    using r2 get2 by (auto simp: fd_release_def Let_def fd_get_def delete_conv')
  let ?w1 = "w\<lparr>px_fds := ft1, px_kernel := k1\<rparr>"
  let ?m = "evict fd2 (se_content (px_session w))"
  let ?w2 = "with_content ?m (w\<lparr>px_fds := ft2, px_kernel := k2\<rparr>)"
  have "posix_close env kn fd w = Some (Inr (Inr ()), ?w1)"
    using get(1) r1 \<open>\<not> b\<close> by (simp add: posix_close_def with_state_def div_bind_def px_table_def return_ok_def div_ret_def)
  moreover have "posix_close env kn fd2 ?w1 = Some (Inr (Inr ()), ?w2)"
    using get2 r2 \<open>b2\<close> assms(7)
    by (simp add: posix_close_def with_state_def div_bind_def px_table_def return_ok_def div_ret_def swallow_def
        flush_and_publish_def px_content_run content_flush_def with_content_def)
  moreover have kept: "map_of (caches ?m) fd = Some c" using assms(3,5) by (simp add: evict_def delete_conv')
  ultimately show ?thesis
    using get1 gone assms(3) cache_write_keeps_file [OF kept assms(6)]
    by (intro exI [of _ ?w1] exI [of _ ?w2]) auto
qed

end
