(* ===== verification/Intercept.thy ===== *)
theory Intercept
  imports PosixAdapter
begin

text \<open>
  The interposition library (\<^verbatim>\<open>src/drivers/posix_intercept.cpp\<close>), preloaded in front of libc: each
  file call goes to the POSIX adapter when its path has a configured prefix or its descriptor is in the
  table, and to libc otherwise. libc and the creation of a session are parameters. A call returns a
  value or sets \<^verbatim>\<open>errno\<close> (\<open>Inl\<close> of its number), can let an exception escape, or dereference
  the null adapter. Loading the real symbols is not modelled: it only looks libc's functions up.
\<close>

subsection \<open>State\<close>

type_synonym ('k, 'a) libc_op = "'k \<Rightarrow> (int + 'a) \<times> 'k"

record 'k libc =
  lc_open :: "string \<Rightarrow> 32 word \<Rightarrow> 32 word \<Rightarrow> ('k, int) libc_op"
  lc_close :: "int \<Rightarrow> ('k, unit) libc_op"
  lc_write :: "int \<Rightarrow> bytes option \<Rightarrow> nat \<Rightarrow> ('k, nat) libc_op"
  lc_read :: "int \<Rightarrow> bool \<Rightarrow> nat \<Rightarrow> ('k, bytes) libc_op"
  lc_pwrite :: "int \<Rightarrow> bytes option \<Rightarrow> nat \<Rightarrow> u64 \<Rightarrow> ('k, nat) libc_op"
  lc_pread :: "int \<Rightarrow> bool \<Rightarrow> nat \<Rightarrow> u64 \<Rightarrow> ('k, bytes) libc_op"
  lc_lseek :: "int \<Rightarrow> 64 word \<Rightarrow> int \<Rightarrow> ('k, u64) libc_op"
  lc_fsync :: "int \<Rightarrow> ('k, unit) libc_op"
  lc_unlink :: "string \<Rightarrow> ('k, unit) libc_op"
  lc_access :: "string \<Rightarrow> int \<Rightarrow> ('k, unit) libc_op"
  lc_mkdir :: "string \<Rightarrow> 32 word \<Rightarrow> ('k, unit) libc_op"
  lc_rmdir :: "string \<Rightarrow> ('k, unit) libc_op"
  lc_rename :: "string \<Rightarrow> string \<Rightarrow> ('k, unit) libc_op"
  lc_ftruncate :: "int \<Rightarrow> 64 word \<Rightarrow> ('k, unit) libc_op"
  lc_stat :: "string \<Rightarrow> ('k, stat_buf) libc_op"
  lc_fstat :: "int \<Rightarrow> ('k, stat_buf) libc_op"
  lc_lstat :: "string \<Rightarrow> ('k, stat_buf) libc_op"
  lc_dup :: "int \<Rightarrow> ('k, int) libc_op"
  lc_dup2 :: "int \<Rightarrow> int \<Rightarrow> ('k, int) libc_op"
  lc_fopen :: "string \<Rightarrow> string \<Rightarrow> ('k, nat) libc_op"
  lc_fdopen :: "int \<Rightarrow> string \<Rightarrow> ('k, nat) libc_op"
  lc_fileno :: "nat \<Rightarrow> 'k \<Rightarrow> int"
  lc_fread :: "u64 \<Rightarrow> u64 \<Rightarrow> nat \<Rightarrow> ('k, bytes \<times> u64) libc_op"
  lc_fwrite :: "bytes \<Rightarrow> u64 \<Rightarrow> u64 \<Rightarrow> nat \<Rightarrow> ('k, u64) libc_op"
  lc_fclose :: "nat \<Rightarrow> ('k, unit) libc_op"

text \<open>\<open>sh_config\<close> is what \<^verbatim>\<open>load_config\<close> gives, \<open>sh_connect n\<close> the session the n-th attempt makes.\<close>

record ('s, 'n, 'k) shim_env =
  sh_env :: "('s, 'n) session_env"
  sh_fd_kernel :: "'k fd_kernel"
  sh_libc :: "'k libc"
  sh_config :: config
  sh_connect :: "nat \<Rightarrow> ('s, 'n) session option"

record ('s, 'n, 'k) shim =
  sh_initialized :: bool
  sh_in_init :: bool
  sh_fallback :: bool
  sh_session_done :: bool
  sh_session :: "('s, 'n) session option"
  sh_fds :: fd_table
  sh_kernel :: 'k

datatype 'a outcome = Returned "int + 'a" | Threw string | NullDeref

type_synonym ('s, 'n, 'k, 'a) shim_op = "('s, 'n, 'k) shim \<Rightarrow> ('a outcome \<times> ('s, 'n, 'k) shim) option"

fun errno_code :: "errno \<Rightarrow> int" where
  "errno_code EBADF = 9"
| "errno_code EFAULT = 14"
| "errno_code EINVAL = 22"
| "errno_code EIO = 5"
| "errno_code ENOENT = 2"
| "errno_code ENOMEM = 12"

subsection \<open>Initialisation\<close>

definition init_config :: "('s, 'n, 'k) shim \<Rightarrow> ('s, 'n, 'k) shim" where
  "init_config w = (if sh_initialized w then w else w\<lparr>sh_fds := empty_fd_table, sh_initialized := True\<rparr>)"

definition MAX_SESSION_RETRIES :: nat where "MAX_SESSION_RETRIES = 3"

fun try_sessions :: "(nat \<Rightarrow> 'a option) \<Rightarrow> nat list \<Rightarrow> 'a option" where
  "try_sessions connect [] = None"
| "try_sessions connect (n # ns) = (case connect n of Some s \<Rightarrow> Some s | None \<Rightarrow> try_sessions connect ns)"

definition init_session :: "('s, 'n, 'k) shim_env \<Rightarrow> ('s, 'n, 'k) shim \<Rightarrow> ('s, 'n, 'k) shim" where
  "init_session P w =
     (if sh_session_done w then w
      else (case try_sessions (sh_connect P) [0..<MAX_SESSION_RETRIES] of
              Some s \<Rightarrow> w\<lparr>sh_session_done := True, sh_session := Some s\<rparr>
            | None \<Rightarrow> w\<lparr>sh_session_done := True, sh_fallback := True\<rparr>))"

definition is_labios_path :: "('s, 'n, 'k) shim_env \<Rightarrow> string option \<Rightarrow> ('s, 'n, 'k) shim \<Rightarrow> bool" where
  "is_labios_path P path w \<longleftrightarrow>
     (case path of
        None \<Rightarrow> False
      | Some p \<Rightarrow> sh_initialized w \<and> \<not> sh_in_init w \<and> \<not> sh_fallback w \<and>
          list_ex (\<lambda>pre. take (length pre) p = pre) (c_intercept_prefixes (sh_config P)))"

definition shim_is_labios_fd :: "int \<Rightarrow> ('s, 'n, 'k) shim \<Rightarrow> bool" where
  "shim_is_labios_fd fd w \<longleftrightarrow>
     sh_initialized w \<and> \<not> sh_in_init w \<and> \<not> sh_fallback w \<and> is_labios_fd fd (sh_fds w)"

subsection \<open>Routing\<close>

definition posix_of :: "('s, 'n) session \<Rightarrow> ('s, 'n, 'k) shim \<Rightarrow> ('s, 'n, 'k) posix" where
  "posix_of s w = \<lparr>px_session = s, px_fds = sh_fds w, px_kernel = sh_kernel w\<rparr>"

definition adapter_call :: "('s, 'n, 'k, 'a) posix_op \<Rightarrow> ('s, 'n, 'k, 'a) shim_op" where
  "adapter_call m w =
     (case sh_session w of
        None \<Rightarrow> Some (NullDeref, w)
      | Some s \<Rightarrow>
          map_option (\<lambda>(r, p).
            (case r of Inl e \<Rightarrow> Threw e | Inr (Inl e) \<Rightarrow> Returned (Inl (errno_code e)) | Inr (Inr x) \<Rightarrow> Returned (Inr x),
             w\<lparr>sh_session := Some (px_session p), sh_fds := px_fds p, sh_kernel := px_kernel p\<rparr>)) (m (posix_of s w)))"

definition libc_call :: "('k, 'a) libc_op \<Rightarrow> ('s, 'n, 'k, 'a) shim_op" where
  "libc_call orig w = (let (r, k) = orig (sh_kernel w) in Some (Returned r, w\<lparr>sh_kernel := k\<rparr>))"

definition by_path ::
    "('s, 'n, 'k) shim_env \<Rightarrow> string \<Rightarrow> ('s, 'n, 'k, 'a) posix_op \<Rightarrow> ('k, 'a) libc_op \<Rightarrow> ('s, 'n, 'k, 'a) shim_op" where
  "by_path P path m orig w =
     (if sh_in_init w then libc_call orig w
      else (let w1 = init_config w
            in if is_labios_path P (Some path) w1 then adapter_call m (init_session P w1) else libc_call orig w1))"

definition by_fd :: "int \<Rightarrow> ('s, 'n, 'k, 'a) posix_op \<Rightarrow> ('k, 'a) libc_op \<Rightarrow> ('s, 'n, 'k, 'a) shim_op" where
  "by_fd fd m orig w =
     (if sh_in_init w then libc_call orig w
      else (let w1 = init_config w in if shim_is_labios_fd fd w1 then adapter_call m w1 else libc_call orig w1))"

subsection \<open>Files\<close>

definition sh_open :: "('s, 'n, 'k) shim_env \<Rightarrow> string \<Rightarrow> 32 word \<Rightarrow> 32 word \<Rightarrow> ('s, 'n, 'k, int) shim_op" where
  "sh_open P path flags arg =
     (let mode = (if flags AND O_CREAT \<noteq> 0 then arg else 0)
      in by_path P path (posix_open (sh_env P) (sh_fd_kernel P) path flags) (lc_open (sh_libc P) path flags mode))"

text \<open>\<^verbatim>\<open>O_LARGEFILE\<close> is 0 on 64-bit Linux.\<close>

definition O_LARGEFILE :: "32 word" where "O_LARGEFILE = 0"

definition sh_open64 :: "('s, 'n, 'k) shim_env \<Rightarrow> string \<Rightarrow> 32 word \<Rightarrow> 32 word \<Rightarrow> ('s, 'n, 'k, int) shim_op" where
  "sh_open64 P path flags arg =
     (let mode = (if flags AND O_CREAT \<noteq> 0 then arg else 0)
      in by_path P path (posix_open (sh_env P) (sh_fd_kernel P) path flags)
           (lc_open (sh_libc P) path (flags OR O_LARGEFILE) mode))"

definition sh_close :: "('s, 'n, 'k) shim_env \<Rightarrow> int \<Rightarrow> ('s, 'n, 'k, unit) shim_op" where
  "sh_close P fd = by_fd fd (posix_close (sh_env P) (sh_fd_kernel P) fd) (lc_close (sh_libc P) fd)"

definition sh_write :: "('s, 'n, 'k) shim_env \<Rightarrow> int \<Rightarrow> bytes option \<Rightarrow> nat \<Rightarrow> ('s, 'n, 'k, nat) shim_op" where
  "sh_write P fd buf n = by_fd fd (posix_write (sh_env P) fd buf n) (lc_write (sh_libc P) fd buf n)"

definition sh_read :: "('s, 'n, 'k) shim_env \<Rightarrow> int \<Rightarrow> bool \<Rightarrow> nat \<Rightarrow> ('s, 'n, 'k, bytes) shim_op" where
  "sh_read P fd null_buf n = by_fd fd (posix_read (sh_env P) fd null_buf n) (lc_read (sh_libc P) fd null_buf n)"

definition sh_pwrite :: "('s, 'n, 'k) shim_env \<Rightarrow> int \<Rightarrow> bytes option \<Rightarrow> nat \<Rightarrow> u64 \<Rightarrow> ('s, 'n, 'k, nat) shim_op" where
  "sh_pwrite P fd buf n off = by_fd fd (posix_pwrite (sh_env P) fd buf n off) (lc_pwrite (sh_libc P) fd buf n off)"

definition sh_pread :: "('s, 'n, 'k) shim_env \<Rightarrow> int \<Rightarrow> bool \<Rightarrow> nat \<Rightarrow> u64 \<Rightarrow> ('s, 'n, 'k, bytes) shim_op" where
  "sh_pread P fd null_buf n off = by_fd fd (posix_pread (sh_env P) fd null_buf n off) (lc_pread (sh_libc P) fd null_buf n off)"

definition sh_lseek :: "('s, 'n, 'k) shim_env \<Rightarrow> int \<Rightarrow> 64 word \<Rightarrow> int \<Rightarrow> ('s, 'n, 'k, u64) shim_op" where
  "sh_lseek P fd off whence = by_fd fd (posix_lseek (sh_env P) fd off whence) (lc_lseek (sh_libc P) fd off whence)"

definition sh_lseek64 :: "('s, 'n, 'k) shim_env \<Rightarrow> int \<Rightarrow> 64 word \<Rightarrow> int \<Rightarrow> ('s, 'n, 'k, u64) shim_op" where
  "sh_lseek64 P fd off whence = by_fd fd (posix_lseek (sh_env P) fd off whence) (lc_lseek (sh_libc P) fd off whence)"

definition sh_fsync :: "('s, 'n, 'k) shim_env \<Rightarrow> int \<Rightarrow> ('s, 'n, 'k, unit) shim_op" where
  "sh_fsync P fd = by_fd fd (posix_fsync (sh_env P) fd) (lc_fsync (sh_libc P) fd)"

text \<open>Other descriptors get the full \<^verbatim>\<open>fsync\<close>.\<close>

definition sh_fdatasync :: "('s, 'n, 'k) shim_env \<Rightarrow> int \<Rightarrow> ('s, 'n, 'k, unit) shim_op" where
  "sh_fdatasync P fd = by_fd fd (posix_fsync (sh_env P) fd) (lc_fsync (sh_libc P) fd)"

definition sh_ftruncate :: "('s, 'n, 'k) shim_env \<Rightarrow> int \<Rightarrow> 64 word \<Rightarrow> ('s, 'n, 'k, unit) shim_op" where
  "sh_ftruncate P fd len = by_fd fd (posix_ftruncate (sh_env P) fd len) (lc_ftruncate (sh_libc P) fd len)"

definition sh_ftruncate64 :: "('s, 'n, 'k) shim_env \<Rightarrow> int \<Rightarrow> 64 word \<Rightarrow> ('s, 'n, 'k, unit) shim_op" where
  "sh_ftruncate64 P fd len = by_fd fd (posix_ftruncate (sh_env P) fd len) (lc_ftruncate (sh_libc P) fd len)"

subsection \<open>Paths\<close>

definition sh_unlink :: "('s, 'n, 'k) shim_env \<Rightarrow> string \<Rightarrow> ('s, 'n, 'k, unit) shim_op" where
  "sh_unlink P path = by_path P path (posix_unlink (sh_env P) path) (lc_unlink (sh_libc P) path)"

definition sh_access :: "('s, 'n, 'k) shim_env \<Rightarrow> string \<Rightarrow> int \<Rightarrow> ('s, 'n, 'k, unit) shim_op" where
  "sh_access P path mode = by_path P path (posix_access (sh_env P) path) (lc_access (sh_libc P) path mode)"

definition sh_mkdir :: "('s, 'n, 'k) shim_env \<Rightarrow> string \<Rightarrow> 32 word \<Rightarrow> ('s, 'n, 'k, unit) shim_op" where
  "sh_mkdir P path mode = by_path P path (posix_mkdir path) (lc_mkdir (sh_libc P) path mode)"

definition sh_rmdir :: "('s, 'n, 'k) shim_env \<Rightarrow> string \<Rightarrow> ('s, 'n, 'k, unit) shim_op" where
  "sh_rmdir P path = by_path P path (posix_rmdir path) (lc_rmdir (sh_libc P) path)"

definition sh_stat :: "('s, 'n, 'k) shim_env \<Rightarrow> string \<Rightarrow> ('s, 'n, 'k, stat_buf) shim_op" where
  "sh_stat P path = by_path P path (posix_stat (sh_env P) path) (lc_stat (sh_libc P) path)"

definition sh_lstat :: "('s, 'n, 'k) shim_env \<Rightarrow> string \<Rightarrow> ('s, 'n, 'k, stat_buf) shim_op" where
  "sh_lstat P path = by_path P path (posix_lstat (sh_env P) path) (lc_lstat (sh_libc P) path)"

definition sh_fstat :: "('s, 'n, 'k) shim_env \<Rightarrow> int \<Rightarrow> ('s, 'n, 'k, stat_buf) shim_op" where
  "sh_fstat P fd = by_fd fd (posix_fstat (sh_env P) fd) (lc_fstat (sh_libc P) fd)"

text \<open>The adapter renames when either path is one of LABIOS's.\<close>

definition sh_rename :: "('s, 'n, 'k) shim_env \<Rightarrow> string \<Rightarrow> string \<Rightarrow> ('s, 'n, 'k, unit) shim_op" where
  "sh_rename P oldpath newpath w =
     (if sh_in_init w then libc_call (lc_rename (sh_libc P) oldpath newpath) w
      else (let w1 = init_config w
            in if is_labios_path P (Some oldpath) w1 \<or> is_labios_path P (Some newpath) w1
               then adapter_call (posix_rename (sh_env P) oldpath newpath) (init_session P w1)
               else libc_call (lc_rename (sh_libc P) oldpath newpath) w1))"

subsection \<open>Duplicating\<close>

definition dup_result ::
    "nat \<Rightarrow> int outcome \<times> ('s, 'n, 'k) shim \<Rightarrow> int outcome \<times> ('s, 'n, 'k) shim" where
  "dup_result a = (\<lambda>(out, w).
     case out of
       Returned (Inr new) \<Rightarrow> (let (r, ft) = share_fd a new (sh_fds w) in (Returned (Inr r), w\<lparr>sh_fds := ft\<rparr>))
     | _ \<Rightarrow> (out, w))"

text \<open>
  The table's \<^verbatim>\<open>::dup\<close> is resolved by the dynamic linker like any other call of the process, so in the
  preloaded library it is this very function (unlike \<^verbatim>\<open>close\<close>, which the table looks up past it).
\<close>

partial_function (option) sh_dup ::
    "('s, 'n, 'k) shim_env \<Rightarrow> int \<Rightarrow> ('s, 'n, 'k) shim \<Rightarrow> (int outcome \<times> ('s, 'n, 'k) shim) option" where
  "sh_dup env oldfd w =
     (if sh_in_init w then libc_call (lc_dup (sh_libc env) oldfd) w
      else
        (let w1 = init_config w in
         if \<not> shim_is_labios_fd oldfd w1 then libc_call (lc_dup (sh_libc env) oldfd) w1
         else
           (case sh_session w1 of
              None \<Rightarrow> Some (NullDeref, w1)
            | Some s \<Rightarrow>
                (case fd_get oldfd (sh_fds w1) of
                   None \<Rightarrow> Some (Returned (Inl (errno_code EBADF)), w1)
                 | Some a \<Rightarrow>
                     Option.bind (sh_dup env oldfd w1) (\<lambda>r. Some (dup_result a r))))))"

text \<open>When the source is closed as the target, the call fails without setting \<^verbatim>\<open>errno\<close> (0 here).\<close>

definition sh_dup2 :: "('s, 'n, 'k) shim_env \<Rightarrow> int \<Rightarrow> int \<Rightarrow> ('s, 'n, 'k, int) shim_op" where
  "sh_dup2 P oldfd newfd w =
     (if sh_in_init w then libc_call (lc_dup2 (sh_libc P) oldfd newfd) w
      else
        (let w1 = init_config w in
         if \<not> shim_is_labios_fd oldfd w1 then libc_call (lc_dup2 (sh_libc P) oldfd newfd) w1
         else if sh_session w1 = None then Some (NullDeref, w1)
         else if fd_get oldfd (sh_fds w1) = None then Some (Returned (Inl (errno_code EBADF)), w1)
         else
           (case (if is_labios_fd newfd (sh_fds w1)
                  then map_option snd (adapter_call (posix_close (sh_env P) (sh_fd_kernel P) newfd) w1) else Some w1) of
              None \<Rightarrow> None
            | Some w2 \<Rightarrow>
                (case fd_get oldfd (sh_fds w2) of
                   None \<Rightarrow> Some (Returned (Inl 0), w2)
                 | Some a \<Rightarrow>
                     Option.bind (sh_dup P oldfd w2) (\<lambda>r. Some (dup_result a r))))))"

subsection \<open>Streams\<close>

definition O_APPEND :: "32 word" where "O_APPEND = 1024"
definition O_RDWR :: "32 word" where "O_RDWR = 2"

definition fopen_flags :: "string \<Rightarrow> 32 word" where
  "fopen_flags mode =
     (let flags = (if CHR ''w'' \<in> set mode then O_WRONLY OR O_CREAT OR O_TRUNC
                   else if CHR ''a'' \<in> set mode then O_WRONLY OR O_CREAT OR O_APPEND else 0)
      in if CHR ''+'' \<in> set mode then (flags AND NOT O_WRONLY) OR O_RDWR else flags)"

definition sh_fopen :: "('s, 'n, 'k) shim_env \<Rightarrow> string \<Rightarrow> string \<Rightarrow> ('s, 'n, 'k, nat) shim_op" where
  "sh_fopen P path mode w =
     (if sh_in_init w then libc_call (lc_fopen (sh_libc P) path mode) w
      else
        (let w1 = init_config w in
         if \<not> is_labios_path P (Some path) w1 then libc_call (lc_fopen (sh_libc P) path mode) w1
         else
           (case adapter_call (posix_open (sh_env P) (sh_fd_kernel P) path (fopen_flags mode)) (init_session P w1) of
              None \<Rightarrow> None
            | Some (Returned (Inr fd), w2) \<Rightarrow> libc_call (lc_fdopen (sh_libc P) fd mode) w2
            | Some (Returned (Inl e), w2) \<Rightarrow> Some (Returned (Inl e), w2)
            | Some (Threw e, w2) \<Rightarrow> Some (Threw e, w2)
            | Some (NullDeref, w2) \<Rightarrow> Some (NullDeref, w2))))"

definition sh_fopen64 :: "('s, 'n, 'k) shim_env \<Rightarrow> string \<Rightarrow> string \<Rightarrow> ('s, 'n, 'k, nat) shim_op" where
  "sh_fopen64 P path mode = sh_fopen P path mode"

text \<open>Number of items from number of bytes; an error of the adapter counts as no item.\<close>

definition items :: "u64 \<Rightarrow> nat \<Rightarrow> u64" where
  "items sz n = (if n = 0 then 0 else of_nat n div sz)"

definition sh_fread :: "('s, 'n, 'k) shim_env \<Rightarrow> u64 \<Rightarrow> u64 \<Rightarrow> nat \<Rightarrow> ('s, 'n, 'k, bytes \<times> u64) shim_op" where
  "sh_fread P sz nmemb stream w =
     (let w1 = init_config w; fd = lc_fileno (sh_libc P) stream (sh_kernel w1) in
      if sh_in_init w then libc_call (lc_fread (sh_libc P) sz nmemb stream) w
      else if \<not> shim_is_labios_fd fd w1 then libc_call (lc_fread (sh_libc P) sz nmemb stream) w1
      else map_option (\<lambda>(r, w2).
        (case r of
           Returned (Inl e) \<Rightarrow> Returned (Inr ([], 0))
         | Returned (Inr d) \<Rightarrow> Returned (Inr (d, items sz (length d)))
         | Threw e \<Rightarrow> Threw e
         | NullDeref \<Rightarrow> NullDeref, w2)) (adapter_call (posix_read (sh_env P) fd False (unat (sz * nmemb))) w1))"

definition sh_fwrite :: "('s, 'n, 'k) shim_env \<Rightarrow> bytes \<Rightarrow> u64 \<Rightarrow> u64 \<Rightarrow> nat \<Rightarrow> ('s, 'n, 'k, u64) shim_op" where
  "sh_fwrite P buf sz nmemb stream w =
     (let w1 = init_config w; fd = lc_fileno (sh_libc P) stream (sh_kernel w1) in
      if sh_in_init w then libc_call (lc_fwrite (sh_libc P) buf sz nmemb stream) w
      else if \<not> shim_is_labios_fd fd w1 then libc_call (lc_fwrite (sh_libc P) buf sz nmemb stream) w1
      else map_option (\<lambda>(r, w2).
        (case r of
           Returned (Inl e) \<Rightarrow> Returned (Inr 0)
         | Returned (Inr n) \<Rightarrow> Returned (Inr (items sz n))
         | Threw e \<Rightarrow> Threw e
         | NullDeref \<Rightarrow> NullDeref, w2)) (adapter_call (posix_write (sh_env P) fd (Some buf) (unat (sz * nmemb))) w1))"

text \<open>libc closes the descriptor of the stream again after the adapter has.\<close>

definition sh_fclose :: "('s, 'n, 'k) shim_env \<Rightarrow> nat \<Rightarrow> ('s, 'n, 'k, unit) shim_op" where
  "sh_fclose P stream w =
     (let w1 = init_config w; fd = lc_fileno (sh_libc P) stream (sh_kernel w1) in
      if sh_in_init w then libc_call (lc_fclose (sh_libc P) stream) w
      else if \<not> shim_is_labios_fd fd w1 then libc_call (lc_fclose (sh_libc P) stream) w1
      else
        (case adapter_call (posix_close (sh_env P) (sh_fd_kernel P) fd) w1 of
           None \<Rightarrow> None
         | Some (Returned r, w2) \<Rightarrow> libc_call (lc_fclose (sh_libc P) stream) w2
         | Some (Threw e, w2) \<Rightarrow> Some (Threw e, w2)
         | Some (NullDeref, w2) \<Rightarrow> Some (NullDeref, w2)))"

subsection \<open>Flushing in the background and at the end\<close>

text \<open>The timer's callback publishes each region and ignores what goes wrong with it.\<close>

definition flush_callback :: "('s, 'n, 'k) shim_env \<Rightarrow> flush_region list \<Rightarrow> (('s, 'n, 'k) posix, unit) div_op" where
  "flush_callback P regions = div_each (\<lambda>r. swallow (publish_region (sh_env P) True r)) regions"

definition timer_flush :: "('s, 'n, 'k) shim_env \<Rightarrow> (('s, 'n, 'k) posix, unit) div_op" where
  "timer_flush P =
     div_bind (px_content flush_all) (\<lambda>flushed. div_each (\<lambda>(fd, regions). flush_callback P regions) flushed)"

text \<open>The destructor stops at the first failure.\<close>

definition intercept_fini :: "('s, 'n, 'k) shim_env \<Rightarrow> ('s, 'n, 'k) shim \<Rightarrow> (('s, 'n, 'k) shim) option" where
  "intercept_fini P w =
     (let reset = (\<lambda>w. w\<lparr>sh_session := None, sh_fds := empty_fd_table\<rparr>) in
      case sh_session w of
        None \<Rightarrow> Some (reset w)
      | Some s \<Rightarrow>
          map_option (\<lambda>(_, p). reset (w\<lparr>sh_kernel := px_kernel p\<rparr>))
            (div_bind (px_content flush_all) (\<lambda>flushed.
               div_each (\<lambda>(fd, regions). div_each (publish_region (sh_env P) True) regions) flushed) (posix_of s w)))"

subsection \<open>What the interposition guarantees\<close>

lemma initialized_config [simp]: "sh_initialized w \<Longrightarrow> init_config w = w"
  by (simp add: init_config_def)

lemma done_session [simp]: "sh_session_done w \<Longrightarrow> init_session P w = w"
  by (simp add: init_session_def)

text \<open>Running, past initialisation, with a session.\<close>

definition shim_up :: "('s, 'n, 'k) shim \<Rightarrow> bool" where
  "shim_up w \<longleftrightarrow> sh_initialized w \<and> \<not> sh_in_init w \<and> \<not> sh_fallback w \<and> sh_session_done w \<and> sh_session w \<noteq> None"

lemma adapter_open:
  assumes "descriptor_kernel (sh_fd_kernel P) live" "fd_ok (sh_fds w) (live (sh_kernel w))" "sh_session w = Some s"
    and "adapter_call (posix_open (sh_env P) (sh_fd_kernel P) path flags) w = Some (Returned (Inr fd), w')"
  shows "fd_ok (sh_fds w') (live (sh_kernel w')) \<and> 0 \<le> fd \<and> fd_get fd (sh_fds w') \<noteq> None \<and>
    w' = w\<lparr>sh_session := sh_session w', sh_fds := sh_fds w', sh_kernel := sh_kernel w'\<rparr> \<and> sh_session w' \<noteq> None"
proof -
  obtain new ft k where a: "fd_allocate (sh_fd_kernel P) path flags (sh_fds w) (sh_kernel w) = (new, ft, k)"
    using prod_cases3 by blast
  let ?p = "(posix_of s w)\<lparr>px_fds := ft, px_kernel := k\<rparr>"
  have table: "px_table (fd_allocate (sh_fd_kernel P) path flags) (posix_of s w) = Some (Inr new, ?p)"
    by (simp add: px_table_def posix_of_def a)
  have nonneg: "\<not> new < 0"
    using assms(3,4) table by (auto simp: adapter_call_def posix_open_def div_bind_def fail_with_def div_ret_def)
  obtain r p where rp: "posix_open (sh_env P) (sh_fd_kernel P) path flags (posix_of s w) = Some (r, p)"
    using assms(3,4) by (auto simp: adapter_call_def)
  then have "r = Inr (Inr fd)" and w': "w' = w\<lparr>sh_session := Some (px_session p), sh_fds := px_fds p, sh_kernel := px_kernel p\<rparr>"
    using assms(3,4) by (auto simp: adapter_call_def split: sum.splits)
  then have "fd = new" "px_fds p = ft" "px_kernel p = k"
    using rp table nonneg
    by (auto simp: posix_open_def div_bind_def px_redis_def px_div_def div_of_def return_ok_def div_ret_def
        split: option.splits sum.splits prod.splits)
  then show ?thesis
    using descriptor_kernel.allocate_ok [OF assms(1,2) a] nonneg w' by simp
qed


text \<open>
  The first call after a failed start crashes: when none of the attempts makes a session, the call
  on a LABIOS path that tried them dereferences the null adapter; only later ones fall through to libc.
\<close>

lemma failed_session_crashes:
  assumes "\<forall>n < MAX_SESSION_RETRIES. sh_connect P n = None"
    and "is_labios_path P (Some path) w" "\<not> sh_in_init w" "\<not> sh_session_done w" "sh_session w = None"
  shows "\<exists>w'. sh_open P path flags arg w = Some (NullDeref, w') \<and>
    (\<forall>path' flags' arg'. sh_open P path' flags' arg' w' =
       libc_call (lc_open (sh_libc P) path' flags' (if flags' AND O_CREAT \<noteq> 0 then arg' else 0)) w')"
proof -
  have "try_sessions (sh_connect P) ns = None" if "set ns \<subseteq> {..<MAX_SESSION_RETRIES}" for ns
    using that assms(1) by (induction ns) auto
  from this [of "[0..<MAX_SESSION_RETRIES]"] have "try_sessions (sh_connect P) [0..<MAX_SESSION_RETRIES] = None"
    by (simp add: lessThan_atLeast0)
  moreover have "sh_initialized w" using assms(2) by (simp add: is_labios_path_def)
  ultimately show ?thesis
    using assms(2-5)
    by (simp add: sh_open_def by_path_def Let_def init_session_def adapter_call_def is_labios_path_def)
qed

text \<open>
  C36: Duplicating a LABIOS descriptor in a preloaded process never returns: the table's \<^verbatim>\<open>::dup\<close> is the
  interposed one, which asks the table again.
\<close>

theorem preloaded_dup_diverges:
  assumes "sh_initialized w" "shim_is_labios_fd fd w" "sh_session w = Some s" "fd_get fd (sh_fds w) = Some a"
    and "\<not> is_labios_fd newfd (sh_fds w)"
  shows "sh_dup P fd w = None \<and> sh_dup2 P fd newfd w = None"
proof -
  let ?labios = "\<lambda>fd w. sh_initialized w \<and> shim_is_labios_fd fd w \<and> sh_session w \<noteq> None \<and> fd_get fd (sh_fds w) \<noteq> None"
  have never: "\<not> ?labios fd w" if "sh_dup P fd w = Some y" for P :: "('a, 'b, 'c) shim_env" and fd w y
  proof (rule sh_dup.raw_induct [OF _ that, where P = "\<lambda>P fd w y. \<not> ?labios fd w"])
    fix rec and P :: "('a, 'b, 'c) shim_env" and fd w y
    assume rec: "\<And>P fd w y. rec P fd w = Some y \<Longrightarrow> \<not> ?labios fd w"
      and eq: "(if sh_in_init w then libc_call (lc_dup (sh_libc P) fd) w
        else let w1 = init_config w
          in if \<not> shim_is_labios_fd fd w1 then libc_call (lc_dup (sh_libc P) fd) w1
             else case sh_session w1 of None \<Rightarrow> Some (NullDeref, w1)
               | Some s \<Rightarrow> (case fd_get fd (sh_fds w1) of None \<Rightarrow> Some (Returned (Inl (errno_code EBADF)), w1)
                   | Some a \<Rightarrow> Option.bind (rec P fd w1) (\<lambda>r. Some (dup_result a r)))) = Some y"
    show "\<not> ?labios fd w"
    proof
      assume l: "?labios fd w"
      then have "\<not> sh_in_init w" by (simp add: shim_is_labios_fd_def)
      then have "\<exists>r. rec P fd w = Some r" using l eq by (auto simp: Let_def bind_eq_Some_conv)
      then show False using rec l by blast
    qed
  qed
  have dup: "sh_dup P fd w = None"
    using never [of P fd w] assms(1-4) by (cases "sh_dup P fd w") auto
  then show ?thesis
    using assms by (simp add: sh_dup2_def shim_is_labios_fd_def)
qed

definition sample_libc :: "int list libc" where
  "sample_libc =
     \<lparr>lc_open = (\<lambda>_ _ _ k. let (fd, k') = take_fd k in (if fd < 0 then Inl 24 else Inr fd, k')),
      lc_close = (\<lambda>fd k. (Inr (), removeAll fd k)), lc_write = (\<lambda>_ _ n k. (Inr n, k)), lc_read = (\<lambda>_ _ _ k. (Inr [], k)),
      lc_pwrite = (\<lambda>_ _ n _ k. (Inr n, k)), lc_pread = (\<lambda>_ _ _ _ k. (Inr [], k)), lc_lseek = (\<lambda>_ _ _ k. (Inl 29, k)),
      lc_fsync = (\<lambda>_ k. (Inr (), k)), lc_unlink = (\<lambda>_ k. (Inl 2, k)), lc_access = (\<lambda>_ _ k. (Inl 2, k)),
      lc_mkdir = (\<lambda>_ _ k. (Inl 13, k)), lc_rmdir = (\<lambda>_ k. (Inl 2, k)), lc_rename = (\<lambda>_ _ k. (Inl 2, k)),
      lc_ftruncate = (\<lambda>_ _ k. (Inl 22, k)), lc_stat = (\<lambda>_ k. (Inl 2, k)), lc_fstat = (\<lambda>_ k. (Inl 9, k)), lc_lstat = (\<lambda>_ k. (Inl 2, k)),
      lc_dup = (\<lambda>_ k. let (fd, k') = take_fd k in (if fd < 0 then Inl 24 else Inr fd, k')), lc_dup2 = (\<lambda>_ fd k. (Inr fd, k)),
      lc_fopen = (\<lambda>_ _ k. (Inl 2, k)), lc_fdopen = (\<lambda>fd _ k. (Inr (nat fd), k)), lc_fileno = (\<lambda>f _. int f),
      lc_fread = (\<lambda>_ _ _ k. (Inr ([], 0), k)), lc_fwrite = (\<lambda>_ _ _ _ k. (Inr 0, k)), lc_fclose = (\<lambda>f k. (Inr (), removeAll (int f) k))\<rparr>"

definition sample_shim_env :: "(nat \<Rightarrow> (ref_state, nats_message list) session option) \<Rightarrow>
    (ref_state, nats_message list, int list) shim_env" where
  "sample_shim_env connect = \<lparr>sh_env = sample_session_env 8, sh_fd_kernel = ref_kernel, sh_libc = sample_libc,
     sh_config = default_cfg, sh_connect = connect\<rparr>"

definition sample_shim :: "(ref_state, nats_message list) session option \<Rightarrow> (ref_state, nats_message list, int list) shim" where
  "sample_shim s = \<lparr>sh_initialized = True, sh_in_init = False, sh_fallback = False, sh_session_done = (s \<noteq> None), sh_session = s,
     sh_fds = \<lparr>ft_table = [(3, 0)], ft_states = [new_file_state ''/labios/f'' 0], ft_bitset = {3}\<rparr>, sh_kernel = [3, 2, 1, 0]\<rparr>"

lemma sample_libc_open:
  "lc_open sample_libc path flags m k = (Inr fd, k') \<Longrightarrow> fresh_fd (set k) fd (set k') \<and> 0 \<le> fd"
  using take_fd_fresh by (auto simp: sample_libc_def split: prod.splits if_splits)

lemma sample_fds_ok: "fd_ok (sh_fds (sample_shim s)) (set (sh_kernel (sample_shim s)))"
proof (rule fd_okI)
  have "descriptors (sh_fds (sample_shim s)) 0 = {3}"
    by (auto simp: sample_shim_def descriptors_def fd_get_def split: if_splits)
  then show "a < length (ft_states (sh_fds (sample_shim s))) \<Longrightarrow>
      fs_ref_count (ft_states (sh_fds (sample_shim s)) ! a) = int (card (descriptors (sh_fds (sample_shim s)) a))" for a
    by (simp add: sample_shim_def new_file_state_def)
qed (auto simp: sample_shim_def fd_get_def BITSET_SIZE_def split: if_splits)


theorem preloaded_dup_diverges_witness:
  "sh_dup (sample_shim_env (\<lambda>_. None)) 3 (sample_shim (Some sample_session)) = None"
  using preloaded_dup_diverges [of "sample_shim (Some sample_session)" 3 sample_session 0 9 "sample_shim_env (\<lambda>_. None)"]
  by (simp add: sample_shim_def shim_is_labios_fd_def is_labios_fd_def BITSET_SIZE_def fd_get_def)

end
