(* ===== verification/Manager.thy ===== *)
theory Manager
  imports Orchestrator Nats
begin

text \<open>
  The worker registry as the services talk about it: its text format
  (\<^verbatim>\<open>src/labios/worker_registry_protocol.cpp\<close>), the manager's message handlers
  (\<^verbatim>\<open>src/services/labios-manager.cpp\<close>), and the messages a worker announces itself with
  (\<^verbatim>\<open>src/services/labios-worker.cpp\<close>). A handler is a function on the worker manager; a message
  that makes it throw is logged and ignored.
\<close>

subsection \<open>Fields\<close>

text \<open>The successive results of \<^verbatim>\<open>std::getline\<close>: the last one may end without the delimiter.\<close>

function getlines :: "char \<Rightarrow> string \<Rightarrow> string list" where
  "getlines d s =
     (if s = [] then []
      else takeWhile (\<lambda>c. c \<noteq> d) s # getlines d (tl (dropWhile (\<lambda>c. c \<noteq> d) s)))"
  by pat_completeness auto
termination
proof (relation "measure (\<lambda>(d, s). length s)", goal_cases)
  case (2 d s)
  then have "length s - 1 < length s" by simp
  moreover have "length (tl (dropWhile (\<lambda>c. c \<noteq> d) s)) \<le> length s - 1"
    using length_dropWhile_le [of "\<lambda>c. c \<noteq> d" s] by simp
  ultimately have "length (tl (dropWhile (\<lambda>c. c \<noteq> d) s)) < length s" by linarith
  then show ?case by simp
qed simp

declare getlines.simps [simp del]

text \<open>\<^verbatim>\<open>std::to_string(double)\<close> and \<^verbatim>\<open>std::stod\<close>.\<close>

definition double_to_string :: "rat \<Rightarrow> string" where
  "double_to_string r = (if r < 0 then CHR ''-'' # fixed6 (- r) else fixed6 r)"

definition stod :: "string \<Rightarrow> rat result" where
  "stod s =
     (case strtod s of
        None \<Rightarrow> Inl ''stod: invalid argument''
      | Some (v, erange, _) \<Rightarrow> if erange then Inl ''stod: out of range'' else Inr v)"

subsection \<open>The registry's text format\<close>

definition clamp_tier :: "int \<Rightarrow> worker_tier" where
  "clamp_tier i = (if i \<le> 0 then Databot else if i = 1 then Pipeline else Agentic)"

definition encode_worker_row :: "worker_info \<Rightarrow> string" where
  "encode_worker_row w =
     int_to_string (w_id w) @ '','' @ (if w_available w then ''1'' else ''0'') @ '','' @
     double_to_string (w_capacity w) @ '','' @ double_to_string (w_load w) @ '','' @
     int_to_string (w_speed w) @ '','' @ int_to_string (w_energy w) @ '','' @
     nat_to_string (tier_num (w_tier w)) @ [CHR 0x0A]"

definition encode_worker_registry :: "worker_info list \<Rightarrow> string" where
  "encode_worker_registry ws = concat (map encode_worker_row ws)"

definition decode_worker_row :: "string \<Rightarrow> worker_info option" where
  "decode_worker_row line =
     (case getlines (CHR '','') line of
        i # a # c # l # s # e # rest \<Rightarrow>
          (case (stoi i, stod c, stod l, stoi s, stoi e) of
             (Inr i, Inr c, Inr l, Inr s, Inr e) \<Rightarrow>
               (let w = (default_worker i)\<lparr>w_available := (a = ''1''), w_capacity := c, w_load := l, w_speed := s, w_energy := e\<rparr>
                in case rest of
                     t # _ \<Rightarrow>
                       if t \<noteq> [] then (case stoi t of Inl _ \<Rightarrow> None | Inr t \<Rightarrow> Some (w\<lparr>w_tier := clamp_tier t\<rparr>)) else Some w
                   | [] \<Rightarrow> Some w)
           | _ \<Rightarrow> None)
      | _ \<Rightarrow> None)"

record worker_registry_snapshot =
  wr_workers :: "worker_info list"
  wr_malformed_rows :: nat

definition decode_worker_registry :: "string \<Rightarrow> worker_registry_snapshot" where
  "decode_worker_registry payload =
     (let rows = map decode_worker_row (filter (\<lambda>l. l \<noteq> []) (getlines (CHR 0x0A) payload))
      in \<lparr>wr_workers = List.map_filter id rows, wr_malformed_rows = length (filter (\<lambda>r. r = None) rows)\<rparr>)"

subsection \<open>Message handlers\<close>

text \<open>Field \<open>i\<close> of a message as a number, when it has one.\<close>

definition int_field :: "string list \<Rightarrow> nat \<Rightarrow> int \<Rightarrow> int result" where
  "int_field ts i d = (if i < length ts then stoi (ts ! i) else Inr d)"

definition double_field :: "string list \<Rightarrow> nat \<Rightarrow> rat \<Rightarrow> rat result" where
  "double_field ts i d = (if i < length ts then stod (ts ! i) else Inr d)"

definition capacity_ratio :: "config \<Rightarrow> string \<Rightarrow> rat" where
  "capacity_ratio cfg text =
     (if text \<noteq> [] \<and> c_max_worker_capacity cfg > 0
      then min (of_nat (unat (parse_size text)) / of_nat (unat (c_max_worker_capacity cfg))) 1 else 1)"

definition handle_register :: "config \<Rightarrow> string \<Rightarrow> worker_manager \<Rightarrow> worker_manager" where
  "handle_register cfg msg m =
     (let ts = getlines (CHR '','') msg in
      case (int_field ts 0 0, int_field ts 1 1, int_field ts 2 1, int_field ts 4 0) of
        (Inr i, Inr speed, Inr energy, Inr tier) \<Rightarrow>
          register_worker ((default_worker i)\<lparr>w_capacity := capacity_ratio cfg (if 3 < length ts then ts ! 3 else []),
            w_speed := speed, w_energy := energy, w_tier := clamp_tier tier\<rparr>) m
      | _ \<Rightarrow> m)"

definition handle_deregister :: "string \<Rightarrow> worker_manager \<Rightarrow> worker_manager" where
  "handle_deregister msg m = (case stoi msg of Inl _ \<Rightarrow> m | Inr i \<Rightarrow> deregister_worker i m)"

definition handle_workers_query ::
    "'n nats_lib \<Rightarrow> string \<Rightarrow> worker_manager \<Rightarrow> ('n nats_conn, unit) redis_op" where
  "handle_workers_query lib reply_to m =
     (if reply_to = [] then ret () else nats_publish_text lib reply_to (encode_worker_registry (all_workers m)))"

definition handle_score_update :: "int \<Rightarrow> string \<Rightarrow> worker_manager \<Rightarrow> worker_manager" where
  "handle_score_update now msg m =
     (let ts = getlines (CHR '','') msg in
      case (int_field ts 0 0, double_field ts 1 1, double_field ts 2 0) of
        (Inr i, Inr c, Inr l) \<Rightarrow>
          (case find (\<lambda>w. w_id w = i) (all_workers m) of
             None \<Rightarrow> m
           | Some w \<Rightarrow> update_score now i
               (w\<lparr>w_capacity := c, w_load := l, w_available := (if 3 < length ts then ts ! 3 = ''1'' else True)\<rparr>) m)
      | _ \<Rightarrow> m)"

text \<open>Only the number before the first comma of \<^verbatim>\<open>"total,with_pipeline,observe_count"\<close> is used.\<close>

definition handle_queue_depth :: "config \<Rightarrow> string \<Rightarrow> 'r orchestrator \<Rightarrow> 'r orchestrator" where
  "handle_queue_depth cfg msg ob = (case stoi msg of Inl _ \<Rightarrow> ob | Inr depth \<Rightarrow> update_queue_depth cfg depth ob)"

text \<open>The subjects of the manager's subscriptions that change the registry.\<close>

definition manager_on_message :: "config \<Rightarrow> int \<Rightarrow> string \<times> string \<Rightarrow> worker_manager \<Rightarrow> worker_manager" where
  "manager_on_message cfg now = (\<lambda>(subject, msg) m.
     if subject = ''labios.worker.register'' then handle_register cfg msg m
     else if subject = ''labios.worker.deregister'' then handle_deregister msg m
     else if subject = ''labios.worker.score_update'' then handle_score_update now msg m
     else m)"

subsection \<open>What workers announce\<close>

definition register_message :: "config \<Rightarrow> string" where
  "register_message cfg =
     int_to_string (c_worker_id cfg) @ '','' @ int_to_string (c_worker_speed cfg) @ '','' @
     int_to_string (c_worker_energy cfg) @ '','' @ c_worker_capacity cfg @ '','' @ int_to_string (c_worker_tier cfg)"

definition score_message :: "int \<Rightarrow> rat \<Rightarrow> rat \<Rightarrow> bool \<Rightarrow> string" where
  "score_message wid cap_ratio load available =
     int_to_string wid @ '','' @ double_to_string cap_ratio @ '','' @ double_to_string load @ '','' @
     (if available then ''1'' else ''0'')"

definition resume_message :: "int \<Rightarrow> string" where
  "resume_message wid = int_to_string wid @ '',1.0,0.0,1''"

text \<open>The globals of the worker service that its score thread uses; times in nanoseconds.\<close>

record worker_life =
  wl_suspended :: bool
  wl_active_labels :: int
  wl_last_label_time :: int

definition kMaxQueueSize :: int where "kMaxQueueSize = 100"

definition score_tick :: "config \<Rightarrow> int \<Rightarrow> rat \<Rightarrow> worker_life \<Rightarrow> string \<times> worker_life" where
  "score_tick cfg now cap_ratio w =
     (let load = min (of_int (wl_active_labels w) / of_int kMaxQueueSize) 1;
          w' = (if \<not> wl_suspended w \<and> wl_active_labels w = 0 \<and>
                   now - wl_last_label_time w > el_worker_idle_timeout_ms (c_elastic cfg) * 1000000
                then w\<lparr>wl_suspended := True\<rparr> else w)
      in (score_message (c_worker_id cfg) cap_ratio load (\<not> wl_suspended w'), w'))"

definition resume_worker :: "config \<Rightarrow> int \<Rightarrow> worker_life \<Rightarrow> string \<times> worker_life" where
  "resume_worker cfg now w =
     (resume_message (c_worker_id cfg), w\<lparr>wl_suspended := False, wl_last_label_time := now\<rparr>)"

subsection \<open>Reading back what was written\<close>

lemma getlines_Nil [simp]: "getlines d [] = []"
  by (simp add: getlines.simps)

lemma getlines_field [simp]:
  assumes "d \<notin> set f"
  shows "getlines d (f @ d # rest) = f # getlines d rest" "f \<noteq> [] \<Longrightarrow> getlines d f = [f]"
proof -
  have f: "\<And>c. c \<in> set f \<Longrightarrow> c \<noteq> d" using assms by auto
  have "takeWhile (\<lambda>c. c \<noteq> d) (f @ d # rest) = f" "dropWhile (\<lambda>c. c \<noteq> d) (f @ d # rest) = d # rest"
    using takeWhile_append2 [of f "\<lambda>c. c \<noteq> d" "d # rest"] dropWhile_append2 [of f "\<lambda>c. c \<noteq> d" "d # rest"] f by simp_all
  then show "getlines d (f @ d # rest) = f # getlines d rest" by (subst getlines.simps) simp
  have "takeWhile (\<lambda>c. c \<noteq> d) f = f" "dropWhile (\<lambda>c. c \<noteq> d) f = []"
    using takeWhile_append2 [of f "\<lambda>c. c \<noteq> d" "[]"] dropWhile_append2 [of f "\<lambda>c. c \<noteq> d" "[]"] f by simp_all
  then show "f \<noteq> [] \<Longrightarrow> getlines d f = [f]" by (subst getlines.simps) (simp only: list.sel getlines_Nil if_False)
qed

text \<open>What \<open>fixed6\<close> keeps of a number: millionths.\<close>

definition micro :: "rat \<Rightarrow> rat" where
  "micro r = of_nat (nat \<lfloor>r * 1000000 + 1/2\<rfloor>) / 1000000"

lemma digits_val_append: "digits_val (a @ b) = digits_val a * 10 ^ length b + digits_val b"
proof (induction b rule: rev_induct)
  case (snoc c b)
  then show ?case using digits_val_snoc [of "a @ b" c] by simp
qed (simp add: digits_val_def)

lemma digits_val_zeros: "digits_val (replicate k (CHR ''0'')) = 0"
proof (induction k)
  case (Suc k)
  have "replicate (Suc k) (CHR ''0'') = replicate k (CHR ''0'') @ [CHR ''0'']"
    by (simp add: replicate_append_same)
  then show ?case using Suc by (simp only: digits_val_snoc) (simp add: digit_val_def)
qed (simp add: digits_val_def)

lemma length_nat_to_string: "n < 10 ^ k \<Longrightarrow> 0 < k \<Longrightarrow> length (nat_to_string n) \<le> k"
proof (induction n arbitrary: k rule: nat_to_string.induct)
  case (1 n)
  show ?case
  proof (cases "n < 10")
    case True
    then show ?thesis using 1(3) by (simp add: nat_to_string.simps [of n])
  next
    case False
    then obtain j where j: "k = Suc j" "0 < j" using "1.prems" by (cases k; cases "k = 1") auto
    then have "n div 10 < 10 ^ j" using "1.prems"(1) by (simp add: less_mult_imp_div_less mult.commute)
    then show ?thesis using 1(1) [OF False, of j] False j by (simp add: nat_to_string.simps [of n])
  qed
qed

lemma strtod_fixed6_micro:
  assumes "0 \<le> r" "r < 2 ^ 64"
  shows "strtod (fixed6 r) = Some (micro r, False, [])"
proof -
  let ?n = "nat \<lfloor>r * 1000000 + 1/2\<rfloor>"
  let ?q = "?n div 1000000"
  obtain z where f: "fixed6 r = nat_to_string ?q @ ''.'' @ z" and len: "length z = 6"
    and dz: "digits_val z = ?n mod 1000000" and digits: "\<And>c. c \<in> set z \<Longrightarrow> is_digit c"
  proof
    let ?f = "nat_to_string (?n mod 1000000)"
    show "fixed6 r = nat_to_string ?q @ ''.'' @ replicate (6 - length ?f) (CHR ''0'') @ ?f" by (simp add: fixed6_def Let_def)
    show "length (replicate (6 - length ?f) (CHR ''0'') @ ?f) = 6" using length_nat_to_string [of "?n mod 1000000" 6] by simp
    show "digits_val (replicate (6 - length ?f) (CHR ''0'') @ ?f) = ?n mod 1000000"
      by (simp only: digits_val_append digits_val_zeros digits_val_nat_to_string mult_0 add_0)
    show "is_digit c" if "c \<in> set (replicate (6 - length ?f) (CHR ''0'') @ ?f)" for c
      using that nat_to_string_digits [of "?n mod 1000000"] by (auto simp: list_all_iff is_digit_def split: if_splits)
  qed
  have h: "hd (nat_to_string n) \<noteq> CHR ''-''" "hd (nat_to_string n) \<noteq> CHR ''+''" "\<not> is_space (hd (nat_to_string n))" for n
    using nat_to_string_hd [of n] by (auto simp: is_digit_def is_space_def)
  obtain c t where cr: "nat_to_string ?q = c # t" by (cases "nat_to_string ?q") auto
  have dw: "dropWhile is_space (nat_to_string ?q @ u) = nat_to_string ?q @ u"
    and sg: "split_sign (nat_to_string ?q @ u) = (False, nat_to_string ?q @ u)" for u
    using h [of ?q] by (simp_all add: cr split_sign_def)
  have nd: "\<not> is_digit (CHR ''.'')" by (simp add: is_digit_def)
  have tw: "takeWhile is_digit (nat_to_string ?q @ ''.'' @ z) = nat_to_string ?q"
    "dropWhile is_digit (nat_to_string ?q @ ''.'' @ z) = CHR ''.'' # z"
    using takeWhile_digits [of "''.'' @ z" ?q] nd by simp_all
  have tz: "takeWhile is_digit z = z" "dropWhile is_digit z = []"
    using takeWhile_append2 [of z is_digit "[]"] dropWhile_append2 [of z is_digit "[]"] digits by simp_all
  have dv: "digits_val (nat_to_string ?q @ z) = ?n"
    unfolding digits_val_append [of "nat_to_string ?q"] dz len by (simp add: digits_val_nat_to_string)
  have p: "rat_pow10 (- 6) = 1 / 1000000" by (simp add: rat_pow10_def)
  have "r * 1000000 + 1/2 < 2 ^ 64 * 1000000 + 1" using assms(2) by simp
  then have "\<lfloor>r * 1000000 + 1/2\<rfloor> < 2 ^ 64 * 1000000 + 1" by (simp add: floor_less_iff)
  then have "?n < 2 ^ 100" using assms(1) by (simp add: nat_less_iff)
  moreover have "(2::nat) ^ 100 < 2 ^ 1024" by (rule power_strict_increasing) simp_all
  ultimately have "?n < 2 ^ 1024" by linarith
  then have big: "(of_nat ?n :: rat) < 2 ^ 1024" by (metis of_nat_less_iff of_nat_numeral of_nat_power)
  have "(of_nat ?n :: rat) / 1000000 \<le> of_nat ?n" by simp
  then have big': "(of_nat ?n :: rat) / 1000000 < 2 ^ 1024" using big by linarith
  show ?thesis
    unfolding f strtod_def Let_def dw sg case_prod_conv tw list.case if_True tz split_exponent_def
    using big' by (simp add: dv p len micro_def del: power_numeral)
qed

lemma fixed6_chars:
  "CHR '','' \<notin> set (fixed6 r)" "CHR 0x0A \<notin> set (fixed6 r)" "fixed6 r \<noteq> []"
  using nat_to_string_notin [of "CHR '',''"] nat_to_string_notin [of "CHR 0x0A"] by (auto simp: fixed6_def Let_def)

lemma stod_double: "0 \<le> r \<Longrightarrow> r < 2 ^ 64 \<Longrightarrow> stod (double_to_string r) = Inr (micro r)"
  by (simp add: stod_def double_to_string_def strtod_fixed6_micro)

lemma double_chars: "0 \<le> r \<Longrightarrow> CHR '','' \<notin> set (double_to_string r)" "0 \<le> r \<Longrightarrow> CHR 0x0A \<notin> set (double_to_string r)"
  "double_to_string r \<noteq> []"
  by (simp_all add: double_to_string_def fixed6_chars)

lemma int_chars [simp]: "CHR '','' \<notin> set (int_to_string i)" "CHR 0x0A \<notin> set (int_to_string i)" "int_to_string i \<noteq> []"
  using int_to_string_notin [of "CHR '',''" i] int_to_string_notin [of "CHR 0x0A" i]
  by (simp_all) (simp add: int_to_string_def)

lemma tier_text [simp]: "nat_to_string (tier_num t) = int_to_string (int (tier_num t))" "clamp_tier (int (tier_num t)) = t"
  by (cases t; simp add: int_to_string_def clamp_tier_def)+

definition fits_int :: "int \<Rightarrow> bool" where
  "fits_int i \<longleftrightarrow> - (2 ^ 31) \<le> i \<and> i < 2 ^ 31"

lemma stoi_int [simp]: "fits_int i \<Longrightarrow> stoi (int_to_string i) = Inr i"
  by (simp add: fits_int_def stoi_print)

lemma fits_int_tier [simp]: "fits_int (int (tier_num t))"
  by (cases t) (simp_all add: fits_int_def)

text \<open>A worker whose numbers the format can carry, and what it carries of it.\<close>

definition registrable :: "worker_info \<Rightarrow> bool" where
  "registrable w \<longleftrightarrow> fits_int (w_id w) \<and> fits_int (w_speed w) \<and> fits_int (w_energy w) \<and>
     0 \<le> w_capacity w \<and> w_capacity w < 2 ^ 64 \<and> 0 \<le> w_load w \<and> w_load w < 2 ^ 64"

definition announced :: "worker_info \<Rightarrow> worker_info" where
  "announced w = w\<lparr>w_capacity := micro (w_capacity w), w_load := micro (w_load w),
     w_skills := 0, w_compute := 1, w_reasoning := 0, w_score := 1\<rparr>"

lemma decode_encode_row:
  assumes "registrable w"
  shows "decode_worker_row (butlast (encode_worker_row w)) = Some (announced w)"
    "CHR 0x0A \<notin> set (butlast (encode_worker_row w))" "butlast (encode_worker_row w) \<noteq> []"
    "encode_worker_row w = butlast (encode_worker_row w) @ [CHR 0x0A]"
proof -
  let ?a = "if w_available w then ''1'' else ''0''"
  let ?row = "int_to_string (w_id w) @ CHR '','' # ?a @ CHR '','' # double_to_string (w_capacity w) @ CHR '','' #
    double_to_string (w_load w) @ CHR '','' # int_to_string (w_speed w) @ CHR '','' # int_to_string (w_energy w) @ CHR '','' #
    int_to_string (int (tier_num (w_tier w)))"
  have enc: "encode_worker_row w = ?row @ [CHR 0x0A]" by (simp add: encode_worker_row_def)
  have row: "butlast (encode_worker_row w) = ?row" unfolding enc by (rule butlast_snoc)
  have c: "0 \<le> w_capacity w" "0 \<le> w_load w" using assms by (simp_all add: registrable_def)
  have a: "CHR '','' \<notin> set ?a" "CHR 0x0A \<notin> set ?a" by simp_all
  have fields: "getlines (CHR '','') ?row = [int_to_string (w_id w), ?a, double_to_string (w_capacity w), double_to_string (w_load w),
      int_to_string (w_speed w), int_to_string (w_energy w), int_to_string (int (tier_num (w_tier w)))]"
    by (simp only: getlines_field int_chars a double_chars c not_False_eq_True)
  have avail: "(?a = ''1'') = w_available w" by simp
  show "decode_worker_row (butlast (encode_worker_row w)) = Some (announced w)"
    unfolding row decode_worker_row_def fields list.case avail
    using assms by (simp add: registrable_def stod_double announced_def default_worker_def)
  show "CHR 0x0A \<notin> set (butlast (encode_worker_row w))" "butlast (encode_worker_row w) \<noteq> []"
    unfolding row using double_chars(2) c by auto
  show "encode_worker_row w = butlast (encode_worker_row w) @ [CHR 0x0A]" unfolding row by (rule enc)
qed

text \<open>
  The registry's text format carries a registry: capacity and load are rounded to a millionth, the
  values the format leaves out take their defaults, and no row is malformed.
\<close>

lemma decode_encode_registry:
  assumes "list_all registrable ws"
  shows "decode_worker_registry (encode_worker_registry ws) = \<lparr>wr_workers = map announced ws, wr_malformed_rows = 0\<rparr>"
proof -
  have "getlines (CHR 0x0A) (encode_worker_registry ws) = map (\<lambda>w. butlast (encode_worker_row w)) ws"
    using assms
  proof (induction ws)
    case (Cons w ws)
    then have "encode_worker_registry (w # ws) = butlast (encode_worker_row w) @ CHR 0x0A # encode_worker_registry ws"
      using decode_encode_row(4) [of w] by (simp add: encode_worker_registry_def)
    then show ?case using Cons decode_encode_row(2) [of w] by simp
  qed (simp add: encode_worker_registry_def)
  moreover have "filter (\<lambda>l. l \<noteq> []) (map (\<lambda>w. butlast (encode_worker_row w)) ws) = map (\<lambda>w. butlast (encode_worker_row w)) ws"
    using assms decode_encode_row(3) by (auto simp: filter_id_conv list_all_iff)
  moreover have "map decode_worker_row (map (\<lambda>w. butlast (encode_worker_row w)) ws) = map (Some \<circ> announced) ws"
    using assms decode_encode_row(1) by (simp add: list_all_iff)
  ultimately show ?thesis
    by (simp add: decode_worker_registry_def Let_def List.map_filter_def comp_def filter_map)
qed

subsection \<open>Announcements reach the dispatcher\<close>

text \<open>What workers do, the message each sends, and what it means for the registry.\<close>

datatype worker_event = Announce config | Score int rat rat bool | Resume int | Leave int

fun event_message :: "worker_event \<Rightarrow> string \<times> string" where
  "event_message (Announce w) = (''labios.worker.register'', register_message w)"
| "event_message (Score i c l a) = (''labios.worker.score_update'', score_message i c l a)"
| "event_message (Resume i) = (''labios.worker.score_update'', resume_message i)"
| "event_message (Leave i) = (''labios.worker.deregister'', int_to_string i)"

fun event_ok :: "worker_event \<Rightarrow> bool" where
  "event_ok (Announce w) \<longleftrightarrow> fits_int (c_worker_id w) \<and> fits_int (c_worker_speed w) \<and> fits_int (c_worker_energy w) \<and>
     fits_int (c_worker_tier w) \<and> CHR '','' \<notin> set (c_worker_capacity w)"
| "event_ok (Score i c l a) \<longleftrightarrow> fits_int i \<and> 0 \<le> c \<and> c \<le> 1 \<and> 0 \<le> l \<and> l \<le> 1"
| "event_ok (Resume i) \<longleftrightarrow> fits_int i"
| "event_ok (Leave i) \<longleftrightarrow> fits_int i"

definition score_registry :: "int \<Rightarrow> rat \<Rightarrow> rat \<Rightarrow> bool \<Rightarrow> (int \<rightharpoonup> worker_info) \<Rightarrow> int \<rightharpoonup> worker_info" where
  "score_registry i c l a reg =
     (case reg i of None \<Rightarrow> reg | Some w \<Rightarrow> reg(i \<mapsto> w\<lparr>w_capacity := c, w_load := l, w_available := a\<rparr>))"

fun registry_after :: "config \<Rightarrow> worker_event \<Rightarrow> (int \<rightharpoonup> worker_info) \<Rightarrow> int \<rightharpoonup> worker_info" where
  "registry_after cfg (Announce w) reg = reg(c_worker_id w \<mapsto> (default_worker (c_worker_id w))\<lparr>
     w_capacity := capacity_ratio cfg (c_worker_capacity w), w_speed := c_worker_speed w,
     w_energy := c_worker_energy w, w_tier := clamp_tier (c_worker_tier w)\<rparr>)"
| "registry_after cfg (Score i c l a) reg = score_registry i (micro c) (micro l) a reg"
| "registry_after cfg (Resume i) reg = score_registry i 1 0 True reg"
| "registry_after cfg (Leave i) reg = reg(i := None)"

definition registry_ok :: "worker_manager \<Rightarrow> bool" where
  "registry_ok m \<longleftrightarrow> distinct (map fst (m_workers m)) \<and> (\<forall>(i, w) \<in> set (m_workers m). w_id w = i \<and> registrable w)"

lemma registry_ok_update:
  assumes "registry_ok m" "w_id w = i" "registrable w" "m_workers m' = AList.update i w (m_workers m)"
  shows "registry_ok m'"
proof -
  have "set (AList.update i w ws) \<subseteq> insert (i, w) (set ws)" for ws :: "(int \<times> worker_info) list"
    by (induction ws) auto
  then show ?thesis using assms by (fastforce simp: registry_ok_def distinct_update)
qed

lemma find_worker:
  assumes "registry_ok m"
  shows "find (\<lambda>w. w_id w = i) (all_workers m) = map_of (m_workers m) i"
proof -
  have "find (\<lambda>w. w_id w = i) (map snd ws) = map_of ws i" if "\<forall>(i, w) \<in> set ws. w_id w = i" for ws
    using that by (induction ws) auto
  then show ?thesis using assms by (auto simp: registry_ok_def all_workers_def)
qed

lemma register_workers:
  "m_workers (register_worker w m) = AList.update (w_id w) w (m_workers m)"
  "m_workers (deregister_worker i m) = AList.delete i (m_workers m)"
  "m_workers (update_score now i w m) = (if map_of (m_workers m) i = None then m_workers m else AList.update i w (m_workers m))"
  by (simp_all add: register_worker_def deregister_worker_def update_score_def Let_def split: option.split)

lemma micro_unit: "0 \<le> r \<Longrightarrow> r \<le> 1 \<Longrightarrow> 0 \<le> micro r \<and> micro r \<le> 1"
proof -
  assume r: "0 \<le> r" "r \<le> 1"
  then have "r * 1000000 + 1/2 < 1000001" by simp
  then have "\<lfloor>r * 1000000 + 1/2\<rfloor> < 1000001" by (simp add: floor_less_iff)
  then have "nat \<lfloor>r * 1000000 + 1/2\<rfloor> \<le> 1000000" by linarith
  then have "(of_nat (nat \<lfloor>r * 1000000 + 1/2\<rfloor>) :: rat) \<le> of_nat 1000000" by (rule of_nat_mono)
  then show ?thesis by (simp add: micro_def)
qed

lemma capacity_ratio_unit: "0 \<le> capacity_ratio cfg t \<and> capacity_ratio cfg t \<le> 1"
proof -
  have "(0 :: rat) \<le> min (of_nat a / of_nat b) 1 \<and> min (of_nat a / of_nat b) 1 \<le> (1 :: rat)" for a b :: nat
    by (auto simp: min_def)
  then show ?thesis unfolding capacity_ratio_def by (simp only: split: if_split) simp
qed

lemma score_message_fields:
  assumes "0 \<le> c" "0 \<le> l"
  shows "getlines (CHR '','') (score_message i c l a) =
    [int_to_string i, double_to_string c, double_to_string l, if a then ''1'' else ''0'']"
proof -
  have line: "score_message i c l a = int_to_string i @ CHR '','' # double_to_string c @ CHR '','' # double_to_string l @ CHR '','' #
      (if a then ''1'' else ''0'')"
    by (simp add: score_message_def)
  have a: "CHR '','' \<notin> set (if a then ''1'' else ''0'')" "(if a then ''1'' else ''0'') \<noteq> []" by simp_all
  show ?thesis
    unfolding line by (simp only: getlines_field int_chars a double_chars assms not_False_eq_True)
qed

lemma register_message_fields:
  assumes "CHR '','' \<notin> set (c_worker_capacity w)"
  shows "getlines (CHR '','') (register_message w) =
    [int_to_string (c_worker_id w), int_to_string (c_worker_speed w), int_to_string (c_worker_energy w), c_worker_capacity w,
     int_to_string (c_worker_tier w)]"
proof -
  have line: "register_message w = int_to_string (c_worker_id w) @ CHR '','' # int_to_string (c_worker_speed w) @ CHR '','' #
      int_to_string (c_worker_energy w) @ CHR '','' # c_worker_capacity w @ CHR '','' # int_to_string (c_worker_tier w)"
    by (simp add: register_message_def)
  show ?thesis
    unfolding line by (simp only: getlines_field int_chars assms not_False_eq_True)
qed

lemma resume_message_fields:
  "getlines (CHR '','') (resume_message i) = [int_to_string i, ''1.0'', ''0.0'', ''1'']"
  "stod ''1.0'' = Inr 1" "stod ''0.0'' = Inr 0"
proof -
  have line: "resume_message i = int_to_string i @ CHR '','' # ''1.0,0.0,1''"
    by (simp add: resume_message_def)
  have rest: "getlines (CHR '','') ''1.0,0.0,1'' = [''1.0'', ''0.0'', ''1'']"
    by (simp add: getlines.simps [of _ "_ # _"])
  show "getlines (CHR '','') (resume_message i) = [int_to_string i, ''1.0'', ''0.0'', ''1'']"
    unfolding line by (simp only: getlines_field int_chars not_False_eq_True rest)
  show "stod ''1.0'' = Inr 1" "stod ''0.0'' = Inr 0" by code_simp+
qed

text \<open>One message does to the registry what it announces.\<close>

lemma score_handled:
  assumes "registry_ok m" "getlines (CHR '','') msg = [int_to_string i, ct, lt, avt]" "fits_int i"
    and "stod ct = Inr c" "stod lt = Inr l" "0 \<le> c" "c \<le> 1" "0 \<le> l" "l \<le> 1"
  shows "registry_ok (handle_score_update now msg m) \<and>
    map_of (m_workers (handle_score_update now msg m)) = score_registry i c l (avt = ''1'') (map_of (m_workers m))"
proof -
  note f = find_worker [OF assms(1), of i]
  show ?thesis
  proof (cases "map_of (m_workers m) i")
    case None
    then show ?thesis
      using assms f by (simp add: handle_score_update_def int_field_def double_field_def score_registry_def)
  next
    case (Some w)
    let ?w = "w\<lparr>w_capacity := c, w_load := l, w_available := (avt = ''1'')\<rparr>"
    have handled: "handle_score_update now msg m = update_score now i ?w m"
      using assms f Some by (simp add: handle_score_update_def int_field_def double_field_def)
    have w: "w_id w = i" "registrable w" using map_of_SomeD [OF Some] assms(1) by (auto simp: registry_ok_def)
    have "registrable ?w" using w(2) assms(6-9) by (simp add: registrable_def)
    then have "registry_ok (update_score now i ?w m)"
      using registry_ok_update [OF assms(1), of ?w i] w(1) Some by (simp add: register_workers)
    then show ?thesis using Some by (simp add: handled register_workers score_registry_def update_conv')
  qed
qed

lemma message_handled:
  assumes "registry_ok m" "event_ok e"
  shows "registry_ok (manager_on_message cfg now (event_message e) m) \<and>
    map_of (m_workers (manager_on_message cfg now (event_message e) m)) = registry_after cfg e (map_of (m_workers m))"
proof (cases e)
  case (Announce w)
  let ?w = "(default_worker (c_worker_id w))\<lparr>w_capacity := capacity_ratio cfg (c_worker_capacity w),
      w_speed := c_worker_speed w, w_energy := c_worker_energy w, w_tier := clamp_tier (c_worker_tier w)\<rparr>"
  have handled: "manager_on_message cfg now (event_message e) m = register_worker ?w m"
    using assms(2) register_message_fields [of w]
    by (simp add: Announce manager_on_message_def handle_register_def int_field_def)
  have "registrable ?w" using assms(2) capacity_ratio_unit [of cfg "c_worker_capacity w"]
    by (simp add: Announce registrable_def default_worker_def order.strict_trans1 [of _ 1])
  then have "registry_ok (register_worker ?w m)"
    by (rule registry_ok_update [OF assms(1) refl]) (simp add: register_workers)
  then show ?thesis unfolding handled by (simp add: register_workers update_conv' Announce default_worker_def)
next
  case (Score i c l a)
  have "stod (double_to_string c) = Inr (micro c)" "stod (double_to_string l) = Inr (micro l)"
    using assms(2) by (simp_all add: Score stod_double order.strict_trans1 [of _ 1])
  then show ?thesis
    using score_handled [OF assms(1) score_message_fields [of c l i a], of "micro c" "micro l" now] micro_unit [of c] micro_unit [of l] assms(2)
    by (simp add: Score manager_on_message_def)
next
  case (Resume i)
  then show ?thesis
    using score_handled [OF assms(1) resume_message_fields(1), of i 1 0 now] resume_message_fields(2,3) assms(2)
    by (simp add: manager_on_message_def)
next
  case (Leave i)
  have handled: "manager_on_message cfg now (event_message e) m = deregister_worker i m"
    using assms(2) by (simp add: Leave manager_on_message_def handle_deregister_def)
  have "registry_ok (deregister_worker i m)"
    using assms(1) distinct_delete [of "m_workers m" i] by (auto simp: registry_ok_def register_workers AList.delete_eq)
  then show ?thesis unfolding handled by (simp add: register_workers delete_conv' Leave)
qed

lemma messages_handled:
  assumes "registry_ok m" "list_all event_ok es"
  shows "registry_ok (fold (manager_on_message cfg now) (map event_message es) m) \<and>
    map_of (m_workers (fold (manager_on_message cfg now) (map event_message es) m)) =
      fold (registry_after cfg) es (map_of (m_workers m))"
  using assms
proof (induction es arbitrary: m)
  case (Cons e es)
  then show ?case using message_handled [OF Cons.prems(1), of e cfg now] Cons.IH by simp
qed simp

lemma map_of_announced:
  assumes "registry_ok m"
  shows "map_of (map (\<lambda>w. (w_id w, w)) (map announced (all_workers m))) = map_option announced \<circ> map_of (m_workers m)"
proof -
  have "map_of (map (\<lambda>w. (w_id w, w)) (map announced (map snd ws))) = map_option announced \<circ> map_of ws"
    if "\<forall>(i, w) \<in> set ws. w_id w = i" for ws
    using that by (induction ws) (auto simp: announced_def fun_eq_iff)
  then show ?thesis using assms unfolding all_workers_def registry_ok_def by blast
qed

text \<open>
  C37: What the workers announce is what a dispatcher that queries the registry sees: after any sequence
  of registrations, score updates, resumptions and departures, the decoded answer of the manager lists,
  under each worker id and only once, the worker that the announcements describe, and no row of it is
  malformed. Each announcement travels as the text the worker prints and the manager parses, and the
  answer as the text the manager prints and the dispatcher parses.
\<close>

theorem announcements_visible:
  assumes "list_all event_ok es"
  shows "let m = fold (manager_on_message cfg now) (map event_message es) new_manager;
             answer = decode_worker_registry (encode_worker_registry (all_workers m))
         in wr_malformed_rows answer = 0 \<and> distinct (map w_id (wr_workers answer)) \<and>
            map_of (map (\<lambda>w. (w_id w, w)) (wr_workers answer)) =
              map_option announced \<circ> fold (registry_after cfg) es Map.empty"
proof -
  let ?m = "fold (manager_on_message cfg now) (map event_message es) new_manager"
  have "registry_ok new_manager" by (simp add: registry_ok_def new_manager_def)
  from messages_handled [OF this assms, of cfg now]
  have ok: "registry_ok ?m" and reg: "map_of (m_workers ?m) = fold (registry_after cfg) es Map.empty"
    by (simp_all add: new_manager_def)
  have "list_all registrable (all_workers ?m)"
    using ok by (auto simp: list_all_iff all_workers_def registry_ok_def)
  note answer = decode_encode_registry [OF this]
  have "map w_id (map announced (all_workers ?m)) = map fst (m_workers ?m)"
    using ok by (auto simp: all_workers_def registry_ok_def announced_def)
  then have "distinct (map w_id (map announced (all_workers ?m)))"
    using ok by (simp only: registry_ok_def)
  then show ?thesis
    unfolding Let_def answer using map_of_announced [OF ok] reg by simp
qed

theorem announcements_visible_witness:
  "let m = fold (manager_on_message default_cfg 7)
             (map event_message [Announce default_cfg, Score 0 (1/2) (1/4) False, Leave 9]) new_manager
   in wr_malformed_rows (decode_worker_registry (encode_worker_registry (all_workers m))) = 0"
proof -
  have "list_all event_ok [Announce default_cfg, Score 0 (1/2) (1/4) False, Leave 9]"
    by (simp add: fits_int_def default_cfg_def)
  from announcements_visible [OF this] show ?thesis by (simp only: Let_def)
qed

end
