(* ===== verification/Observability.thy ===== *)
theory Observability
  imports Catalog Solver Uri Channel
begin

text \<open>
  What the system tells about itself: the \<^verbatim>\<open>observe://\<close> queries the dispatcher answers inline
  (\<^verbatim>\<open>src/labios/observability.cpp\<close>) and the telemetry it publishes periodically
  (\<^verbatim>\<open>src/labios/telemetry.cpp\<close>). Answers are JSON text, built as the code builds it, with no
  escaping. Numbers that are doubles in the code are exact; \<open>show_double\<close> is how a stream prints them.
\<close>

subsection \<open>JSON\<close>

definition quoted :: "string \<Rightarrow> string" where
  "quoted s = CHR 0x22 # s @ [CHR 0x22]"

definition json_string :: "string \<Rightarrow> string \<Rightarrow> string" where
  "json_string key v = quoted key @ '':'' @ quoted v"

definition json_number :: "string \<Rightarrow> u64 \<Rightarrow> string" where
  "json_number key v = quoted key @ '':'' @ u64_to_string v"

definition bool_text :: "bool \<Rightarrow> string" where
  "bool_text b = (if b then ''true'' else ''false'')"

definition json_bool :: "string \<Rightarrow> bool \<Rightarrow> string" where
  "json_bool key v = quoted key @ '':'' @ bool_text v"

fun comma_separated :: "string list \<Rightarrow> string" where
  "comma_separated [] = []"
| "comma_separated [x] = x"
| "comma_separated (x # xs) = x @ '','' @ comma_separated xs"

subsection \<open>A double on a stream: six significant digits\<close>

definition round_even :: "rat \<Rightarrow> int" where
  "round_even x =
     (let f = \<lfloor>x\<rfloor>; d = x - of_int f
      in if d < 1/2 then f else if d > 1/2 then f + 1 else if even f then f else f + 1)"

definition exponent10 :: "rat \<Rightarrow> int" where
  "exponent10 r = last (- 330 # filter (\<lambda>x. rat_pow10 x \<le> r) [- 330..330])"

definition strip_zeros :: "string \<Rightarrow> string" where
  "strip_zeros s = rev (dropWhile (\<lambda>c. c = CHR ''0'') (rev s))"

definition with_fraction :: "string \<Rightarrow> string \<Rightarrow> string" where
  "with_fraction whole fraction =
     (let f = strip_zeros fraction in if f = [] then whole else whole @ ''.'' @ f)"

definition show_positive :: "rat \<Rightarrow> string" where
  "show_positive r =
     (let x0 = exponent10 r;
          m0 = round_even (r * rat_pow10 (5 - x0));
          (x, m) = (if m0 \<ge> 1000000 then (x0 + 1, 100000) else (x0, m0));
          ds = nat_to_string (nat m)
      in if 0 \<le> x \<and> x < 6 then with_fraction (take (nat x + 1) ds) (drop (nat x + 1) ds)
         else if - 4 \<le> x \<and> x < 0 then with_fraction ''0'' (replicate (nat (- x - 1)) (CHR ''0'') @ ds)
         else with_fraction (take 1 ds) (drop 1 ds) @ ''e'' @ (if x < 0 then ''-'' else ''+'') @
              (if \<bar>x\<bar> < 10 then ''0'' else []) @ nat_to_string (nat \<bar>x\<bar>))"

definition show_double :: "rat \<Rightarrow> string" where
  "show_double r = (if r = 0 then ''0'' else if r < 0 then ''-'' @ show_positive (- r) else show_positive r)"

subsection \<open>Queries\<close>

text \<open>
  What does not change during a query: the clock, whether the connections are up, the configuration,
  and the order in which an unordered set is walked.
\<close>

record 's obs_env =
  ob_redis :: "'s server"
  ob_now_ms :: u64
  ob_nats_connected :: bool
  ob_redis_connected :: bool
  ob_config :: config
  ob_set_order :: "string list \<Rightarrow> string list"

record observe_result =
  ob_success :: bool
  ob_error :: string
  ob_json_data :: string

definition observed :: "string \<Rightarrow> observe_result" where
  "observed json = \<lparr>ob_success = True, ob_error = [], ob_json_data = json\<rparr>"

definition number_or_zero_u64 :: "string option \<Rightarrow> u64" where
  "number_or_zero_u64 v =
     (case v of None \<Rightarrow> 0 | Some t \<Rightarrow> if t = [] then 0 else (case stoull t of Inl _ \<Rightarrow> 0 | Inr n \<Rightarrow> n))"

definition queue_depth :: "'s obs_env \<Rightarrow> ('s, observe_result) redis_op" where
  "queue_depth env =
     op_bind (redis_get (ob_redis env) ''labios:queue:depth'') (\<lambda>v.
     ret (observed (''{'' @ json_number ''queue_depth'' (number_or_zero_u64 v) @ '','' @
                    json_number ''timestamp_ms'' (ob_now_ms env) @ ''}'')))"

definition worker_scores_json :: "worker_info \<Rightarrow> string" where
  "worker_scores_json w =
     ''{'' @ quoted ''id'' @ '':'' @ int_to_string (w_id w) @
     '','' @ quoted ''tier'' @ '':'' @ nat_to_string (tier_num (w_tier w)) @
     '','' @ quoted ''available'' @ '':'' @ bool_text (w_available w) @
     '','' @ quoted ''score'' @ '':'' @ show_double (w_score w) @
     '','' @ quoted ''capacity'' @ '':'' @ show_double (w_capacity w) @
     '','' @ quoted ''load'' @ '':'' @ show_double (w_load w) @
     '','' @ quoted ''speed'' @ '':'' @ int_to_string (w_speed w) @
     '','' @ quoted ''energy'' @ '':'' @ int_to_string (w_energy w) @ ''}''"

definition workers_scores :: "worker_info list \<Rightarrow> observe_result" where
  "workers_scores ws = observed (''{'' @ quoted ''workers'' @ '':['' @ comma_separated (map worker_scores_json ws) @ '']}'')"

definition tier_count :: "worker_tier \<Rightarrow> worker_info list \<Rightarrow> u64" where
  "tier_count t ws = of_nat (length (filter (\<lambda>w. w_tier w = t) ws))"

definition workers_count :: "worker_info list \<Rightarrow> observe_result" where
  "workers_count ws =
     observed (''{'' @ json_number ''databot'' (tier_count Databot ws) @ '','' @
       json_number ''pipeline'' (tier_count Pipeline ws) @ '','' @
       json_number ''agentic'' (tier_count Agentic ws) @ '','' @
       json_number ''total'' (of_nat (length ws)) @ ''}'')"

definition link_status :: "bool \<Rightarrow> string" where
  "link_status up = (if up then ''connected'' else ''disconnected'')"

definition uptime_seconds :: "u64 \<Rightarrow> string option \<Rightarrow> u64" where
  "uptime_seconds now v =
     (case v of
        None \<Rightarrow> 0
      | Some t \<Rightarrow> if t = [] then 0 else (case stoull t of Inl _ \<Rightarrow> 0 | Inr start_ms \<Rightarrow> (now - start_ms) div 1000))"

definition system_health :: "'s obs_env \<Rightarrow> ('s, observe_result) redis_op" where
  "system_health env =
     op_bind (redis_get (ob_redis env) ''labios:dispatcher:start_ms'') (\<lambda>v.
     ret (observed (''{'' @ json_string ''nats'' (link_status (ob_nats_connected env)) @ '','' @
       json_string ''redis'' (link_status (ob_redis_connected env)) @ '','' @
       json_number ''uptime_seconds'' (uptime_seconds (ob_now_ms env) v) @ ''}'')))"

text \<open>The lists scan the warehouse; \<open>None\<close> is running out of fuel for the scan.\<close>

definition channel_prefix :: string where
  "channel_prefix = ''labios:channel:''"

definition channel_of_key :: "string \<Rightarrow> string option" where
  "channel_of_key key =
     (if length key \<le> length channel_prefix then None
      else Some (takeWhile (\<lambda>c. c \<noteq> CHR '':'') (drop (length channel_prefix) key)))"

definition names_json :: "string \<Rightarrow> string list \<Rightarrow> observe_result" where
  "names_json field names = observed (''{'' @ quoted field @ '':['' @ comma_separated (map quoted names) @ '']}'')"

definition channel_names :: "'s obs_env \<Rightarrow> string list \<Rightarrow> string list" where
  "channel_names env keys = ob_set_order env (remdups (List.map_filter channel_of_key keys))"

definition channels_list :: "nat \<Rightarrow> 's obs_env \<Rightarrow> 's \<Rightarrow> (observe_result result \<times> 's) option" where
  "channels_list fuel env s =
     map_option (map_prod (map_sum id (\<lambda>keys. names_json ''channels'' (channel_names env keys))) id)
       (scan_loop fuel (ob_redis env) ''labios:channel:*'' 0 [] s)"

definition workspace_of_key :: "string \<Rightarrow> string option" where
  "workspace_of_key key =
     (let prefix = ''labios:ws:''; suffix = '':_index''; rest = drop (length prefix) key in
      if length key \<le> length prefix + length suffix then None
      else if length rest > length suffix \<and> drop (length rest - length suffix) rest = suffix
      then Some (take (length rest - length suffix) rest) else None)"

definition workspaces_list :: "nat \<Rightarrow> 's obs_env \<Rightarrow> 's \<Rightarrow> (observe_result result \<times> 's) option" where
  "workspaces_list fuel env s =
     map_option (map_prod (map_sum id (\<lambda>keys. names_json ''workspaces'' (List.map_filter workspace_of_key keys))) id)
       (scan_loop fuel (ob_redis env) ''labios:ws:*:_index'' 0 [] s)"

definition config_current :: "config \<Rightarrow> observe_result" where
  "config_current cfg =
     observed (''{'' @ json_number ''batch_size'' (of_int (c_dispatcher_batch_size cfg)) @ '','' @
       json_number ''batch_timeout_ms'' (of_int (c_dispatcher_batch_timeout_ms cfg)) @ '','' @
       json_string ''scheduler_policy'' (c_scheduler_policy cfg) @ '','' @
       json_bool ''aggregation_enabled'' (c_dispatcher_aggregation_enabled cfg) @ ''}'')"

text \<open>The value of the first \<^verbatim>\<open>file=\<close> among the \<^verbatim>\<open>&\<close>-separated parts of the query.\<close>

function file_param :: "string \<Rightarrow> string" where
  "file_param qs =
     (if qs = [] then []
      else let pair = takeWhile (\<lambda>c. c \<noteq> CHR ''&'') qs; rest = dropWhile (\<lambda>c. c \<noteq> CHR ''&'') qs
           in if CHR ''='' \<in> set pair \<and> takeWhile (\<lambda>c. c \<noteq> CHR ''='') pair = ''file''
              then tl (dropWhile (\<lambda>c. c \<noteq> CHR ''='') pair)
              else if rest = [] then [] else file_param (tl rest))"
  by pat_completeness auto
termination
proof (relation "measure length", goal_cases)
  case (2 qs pair rest)
  then have "length (tl rest) < length rest" by simp
  moreover have "length rest \<le> length qs" using 2(3) by (simp add: length_dropWhile_le)
  ultimately show ?case by simp
qed simp

declare file_param.simps [simp del]

definition location_json :: "string \<Rightarrow> int option \<Rightarrow> file_info option \<Rightarrow> string" where
  "location_json path worker info =
     ''{'' @ quoted ''file'' @ '':'' @ quoted path @
     '','' @ quoted ''worker_id'' @ '':'' @ (case worker of Some w \<Rightarrow> int_to_string w | None \<Rightarrow> ''null'') @
     (case info of
        None \<Rightarrow> []
      | Some i \<Rightarrow> '','' @ quoted ''exists'' @ '':'' @ bool_text (fi_exists i) @
                  '','' @ json_number ''size'' (fi_size i) @ '','' @ json_number ''mtime_ms'' (fi_mtime_ms i)) @ ''}''"

definition data_location :: "'s obs_env \<Rightarrow> uri \<Rightarrow> ('s, observe_result) redis_op" where
  "data_location env query =
     (let path = file_param (u_query query) in
      if path = []
      then ret \<lparr>ob_success = False, ob_error = ''missing 'file' query parameter'',
                ob_json_data = ''{'' @ quoted ''error'' @ '':'' @ quoted ''missing 'file' query parameter'' @ ''}''\<rparr>
      else op_bind (get_file_location (ob_redis env) path) (\<lambda>worker.
           op_bind (get_file_info (ob_redis env) path) (\<lambda>info.
           ret (observed (location_json path worker info)))))"

definition observe_route :: "uri \<Rightarrow> string" where
  "observe_route query =
     (if u_path query = [] then u_authority query
      else if hd (u_path query) = CHR ''/'' then u_authority query @ u_path query
      else u_authority query @ ''/'' @ u_path query)"

definition handle_observe ::
    "nat \<Rightarrow> 's obs_env \<Rightarrow> worker_info list \<Rightarrow> uri \<Rightarrow> 's \<Rightarrow> (observe_result result \<times> 's) option" where
  "handle_observe fuel env workers query s =
     (let route = observe_route query in
      if route = ''queue/depth'' then Some (queue_depth env s)
      else if route = ''workers/scores'' then Some (ret (workers_scores workers) s)
      else if route = ''workers/count'' then Some (ret (workers_count workers) s)
      else if route = ''system/health'' then Some (system_health env s)
      else if route = ''channels/list'' then channels_list fuel env s
      else if route = ''workspaces/list'' then workspaces_list fuel env s
      else if route = ''config/current'' then Some (ret (config_current (ob_config env)) s)
      else if route = ''data/location'' then Some (data_location env query s)
      else Some (ret \<lparr>ob_success = False, ob_error = ''unknown observe query: '' @ route,
             ob_json_data = ''{'' @ quoted ''error'' @ '':'' @ quoted (''unknown observe query: '' @ route) @ ''}''\<rparr> s))"

subsection \<open>Telemetry\<close>

text \<open>The publisher's counters, three priority lanes each, and the latencies since the last report.\<close>

record telemetry =
  tl_dispatched :: u64
  tl_completed :: u64
  tl_latency_us :: u64
  tl_lane_dispatched :: "u64 list"
  tl_lane_completed :: "u64 list"
  tl_scaling_events :: u64
  tl_samples :: "u64 list"

definition kNumLanes :: nat where "kNumLanes = 3"
definition kLaneDivisor :: nat where "kLaneDivisor = 256 div kNumLanes"

definition new_telemetry :: telemetry where
  "new_telemetry = \<lparr>tl_dispatched = 0, tl_completed = 0, tl_latency_us = 0, tl_lane_dispatched = replicate kNumLanes 0,
     tl_lane_completed = replicate kNumLanes 0, tl_scaling_events = 0, tl_samples = []\<rparr>"

definition lane_of :: "8 word \<Rightarrow> nat" where
  "lane_of priority = min (unat priority div kLaneDivisor) (kNumLanes - 1)"

definition bump :: "nat \<Rightarrow> u64 list \<Rightarrow> u64 list" where
  "bump i ns = ns[i := ns ! i + 1]"

definition record_label_dispatched :: "8 word \<Rightarrow> telemetry \<Rightarrow> telemetry" where
  "record_label_dispatched priority t =
     t\<lparr>tl_dispatched := tl_dispatched t + 1, tl_lane_dispatched := bump (lane_of priority) (tl_lane_dispatched t)\<rparr>"

definition record_label_completed :: "u64 \<Rightarrow> 8 word \<Rightarrow> telemetry \<Rightarrow> telemetry" where
  "record_label_completed latency priority t =
     t\<lparr>tl_completed := tl_completed t + 1, tl_lane_completed := bump (lane_of priority) (tl_lane_completed t),
       tl_latency_us := tl_latency_us t + latency, tl_samples := tl_samples t @ [latency]\<rparr>"

definition record_scaling_event :: "telemetry \<Rightarrow> telemetry" where
  "record_scaling_event t = t\<lparr>tl_scaling_events := tl_scaling_events t + 1\<rparr>"

definition percentile :: "u64 list \<Rightarrow> rat \<Rightarrow> u64" where
  "percentile samples p = (if samples = [] then 0 else samples ! nat \<lfloor>p * of_nat (length samples - 1)\<rfloor>)"

record report =
  rp_dispatched :: u64
  rp_completed :: u64
  rp_avg_latency :: u64
  rp_p50 :: u64
  rp_p95 :: u64
  rp_p99 :: u64
  rp_lane_dispatched :: "u64 list"
  rp_lane_completed :: "u64 list"
  rp_scaling :: u64

text \<open>The counters are read and reset.\<close>

definition take_report :: "telemetry \<Rightarrow> report \<times> telemetry" where
  "take_report t =
     (let samples = sort (tl_samples t)
      in (\<lparr>rp_dispatched = tl_dispatched t, rp_completed = tl_completed t,
           rp_avg_latency = (if tl_completed t > 0 then tl_latency_us t div tl_completed t else 0),
           rp_p50 = percentile samples (50/100), rp_p95 = percentile samples (95/100), rp_p99 = percentile samples (99/100),
           rp_lane_dispatched = tl_lane_dispatched t, rp_lane_completed = tl_lane_completed t,
           rp_scaling = tl_scaling_events t\<rparr>, new_telemetry))"

definition worker_utilization_json :: "worker_info \<Rightarrow> string" where
  "worker_utilization_json w =
     ''{'' @ quoted ''id'' @ '':'' @ int_to_string (w_id w) @
     '','' @ quoted ''tier'' @ '':'' @ nat_to_string (tier_num (w_tier w)) @
     '','' @ quoted ''load'' @ '':'' @ show_double (w_load w) @
     '','' @ quoted ''available'' @ '':'' @ bool_text (w_available w) @ ''}''"

definition lanes_json :: "string \<Rightarrow> u64 list \<Rightarrow> string" where
  "lanes_json key ns = quoted key @ '':['' @ comma_separated (map u64_to_string ns) @ '']''"

definition report_json :: "u64 \<Rightarrow> report \<Rightarrow> worker_info list \<Rightarrow> string" where
  "report_json ts_ms r ws =
     ''{'' @ json_number ''timestamp_ms'' ts_ms @
     '','' @ json_number ''labels_dispatched'' (rp_dispatched r) @
     '','' @ json_number ''labels_completed'' (rp_completed r) @
     '','' @ json_number ''avg_latency_us'' (rp_avg_latency r) @
     '','' @ json_number ''latency_p50_us'' (rp_p50 r) @
     '','' @ json_number ''latency_p95_us'' (rp_p95 r) @
     '','' @ json_number ''latency_p99_us'' (rp_p99 r) @
     '','' @ lanes_json ''lane_dispatched'' (rp_lane_dispatched r) @
     '','' @ lanes_json ''lane_completed'' (rp_lane_completed r) @
     '','' @ json_number ''scaling_events'' (rp_scaling r) @
     '','' @ json_number ''worker_count'' (of_nat (length ws)) @
     '','' @ quoted ''worker_utilization'' @ '':['' @ comma_separated (map worker_utilization_json ws) @ '']}''"

text \<open>A failed publication is dropped; the counters are reset all the same.\<close>

definition publish_report ::
    "'n nats_lib \<Rightarrow> u64 \<Rightarrow> worker_info list \<Rightarrow> telemetry \<Rightarrow> 'n nats_conn \<Rightarrow> telemetry \<times> 'n nats_conn" where
  "publish_report lib ts_ms ws t c =
     (let (r, t') = take_report t in
      (t', snd (nats_publish_text lib ''labios.telemetry'' (report_json ts_ms r ws) c)))"

subsection \<open>The channel list is the warehouse's\<close>

lemma glob_star: "glob ''*'' s"
  by (induction s) simp_all

lemma glob_prefix: "CHR ''*'' \<notin> set p \<Longrightarrow> CHR ''?'' \<notin> set p \<Longrightarrow> glob (p @ ''*'') k \<longleftrightarrow> (\<exists>r. k = p @ r)"
proof (induction p arbitrary: k)
  case Nil
  then show ?case using glob_star by simp
next
  case (Cons c p)
  then show ?case by (cases k) auto
qed

lemma set_map_filter: "set (List.map_filter f xs) = {y. \<exists>x \<in> set xs. f x = Some y}"
  by (force simp: List.map_filter_def)

context redis_server
begin

lemma scan_prefix:
  assumes "\<forall>c \<in> {CHR ''*'', CHR ''?'', CHR ''['', CHR 0x5C}. c \<notin> set p"
  shows "\<exists>n keys s'. scan_loop n exec (p @ ''*'') 0 [] s = Some (Inr keys, s') \<and> db s' = db s \<and>
    set keys = {p @ r | r. db s (p @ r) \<noteq> None}"
proof -
  have "{k. db s k \<noteq> None \<and> glob (p @ ''*'') k} = {p @ r | r. db s (p @ r) \<noteq> None}"
    using assms glob_prefix [of p] by auto
  then show ?thesis using scan_law [of "p @ ''*''" s] assms by simp
qed

end

lemma channel_of_warehouse_key:
  "CHR '':'' \<notin> set (ch_name ch) \<Longrightarrow> channel_of_key (warehouse_key ch sq) = Some (ch_name ch)"
  by (auto simp: channel_of_key_def warehouse_key_def channel_prefix_def takeWhile_tail)



subsection \<open>No label is counted twice or lost\<close>

text \<open>The publisher's calls, each taken as one step, and the reports made.\<close>

datatype telemetry_event = Dispatched "8 word" | Completed u64 "8 word" | Scaled | Report

fun telemetry_step :: "telemetry_event \<Rightarrow> report list \<times> telemetry \<Rightarrow> report list \<times> telemetry" where
  "telemetry_step (Dispatched p) (rs, t) = (rs, record_label_dispatched p t)"
| "telemetry_step (Completed us p) (rs, t) = (rs, record_label_completed us p t)"
| "telemetry_step Scaled (rs, t) = (rs, record_scaling_event t)"
| "telemetry_step Report (rs, t) = (let (r, t') = take_report t in (rs @ [r], t'))"

definition telemetry_run :: "telemetry_event list \<Rightarrow> report list \<times> telemetry" where
  "telemetry_run es = fold telemetry_step es ([], new_telemetry)"

definition telemetry_ok :: "telemetry \<Rightarrow> bool" where
  "telemetry_ok t \<longleftrightarrow> length (tl_lane_dispatched t) = 3 \<and> length (tl_lane_completed t) = 3 \<and>
     sum_list (tl_lane_dispatched t) = tl_dispatched t \<and> sum_list (tl_lane_completed t) = tl_completed t"

definition report_ok :: "report \<Rightarrow> bool" where
  "report_ok r \<longleftrightarrow> sum_list (rp_lane_dispatched r) = rp_dispatched r \<and>
     sum_list (rp_lane_completed r) = rp_completed r \<and> rp_p50 r \<le> rp_p95 r \<and> rp_p95 r \<le> rp_p99 r"

lemma lane_of_less: "lane_of p < 3"
  by (simp add: lane_of_def kNumLanes_def)

lemma sum_bump: "i < length ns \<Longrightarrow> sum_list (bump i ns) = sum_list ns + 1"
proof -
  assume i: "i < length ns"
  have "sum_list (ns[i := x]) = sum_list ns - ns ! i + x" for x :: u64
    using i by (induction ns arbitrary: i) (auto split: nat.split simp: algebra_simps)
  then show ?thesis by (simp add: bump_def)
qed

lemma percentile_mono:
  assumes "sorted xs" "0 \<le> p" "p \<le> q" "q \<le> 1"
  shows "percentile xs p \<le> percentile xs q"
proof (cases "xs = []")
  case False
  let ?i = "\<lambda>p. nat \<lfloor>p * of_nat (length xs - 1)\<rfloor>"
  have "p * of_nat (length xs - 1) \<le> q * of_nat (length xs - 1)" using assms by (simp add: mult_right_mono)
  then have "?i p \<le> ?i q" by (intro nat_mono floor_mono)
  moreover have "q * of_nat (length xs - 1) \<le> of_nat (length xs - 1)" using assms by (simp add: mult_left_le_one_le)
  then have "?i q \<le> length xs - 1" by (metis floor_mono floor_of_nat nat_int nat_mono)
  moreover have "length xs - 1 < length xs" using False by simp
  ultimately have "xs ! ?i p \<le> xs ! ?i q" by (intro sorted_nth_mono [OF assms(1)]) linarith+
  then show ?thesis using False by (simp add: percentile_def)
qed (simp add: percentile_def)

lemma take_report_ok: "telemetry_ok t \<Longrightarrow> report_ok (fst (take_report t))"
  by (simp add: take_report_def report_ok_def telemetry_ok_def Let_def percentile_mono)

definition dispatched_in :: "telemetry_event list \<Rightarrow> nat" where
  "dispatched_in es = length (filter (\<lambda>e. case e of Dispatched p \<Rightarrow> True | _ \<Rightarrow> False) es)"

definition completed_in :: "telemetry_event list \<Rightarrow> nat" where
  "completed_in es = length (filter (\<lambda>e. case e of Completed us p \<Rightarrow> True | _ \<Rightarrow> False) es)"

definition counted :: "telemetry_event list \<Rightarrow> report list \<times> telemetry \<Rightarrow> bool" where
  "counted es = (\<lambda>(rs, t). telemetry_ok t \<and> list_all report_ok rs \<and>
     sum_list (map rp_dispatched rs) + tl_dispatched t = of_nat (dispatched_in es) \<and>
     sum_list (map rp_completed rs) + tl_completed t = of_nat (completed_in es))"

lemma record_ok:
  assumes "telemetry_ok t"
  shows "telemetry_ok (record_label_dispatched p t)" "telemetry_ok (record_label_completed us p t)"
    "telemetry_ok (record_scaling_event t)"
proof -
  have "length (bump i ns) = length ns" for i and ns :: "u64 list" by (simp add: bump_def)
  then show "telemetry_ok (record_label_dispatched p t)" "telemetry_ok (record_label_completed us p t)"
    using assms by (simp_all add: telemetry_ok_def record_label_dispatched_def record_label_completed_def sum_bump lane_of_less)
  show "telemetry_ok (record_scaling_event t)" using assms by (simp add: telemetry_ok_def record_scaling_event_def)
qed

lemma new_telemetry_ok [simp]: "telemetry_ok new_telemetry" "tl_dispatched new_telemetry = 0" "tl_completed new_telemetry = 0"
  by (simp_all add: telemetry_ok_def new_telemetry_def kNumLanes_def numeral_3_eq_3)

lemma counted_step:
  assumes "counted es st"
  shows "counted (es @ [e]) (telemetry_step e st)"
proof (cases st)
  case st: (Pair rs t)
  have ok: "telemetry_ok t" using assms by (simp add: st counted_def)
  show ?thesis
  proof (cases e)
    case Report
    have "rp_dispatched (fst (take_report t)) = tl_dispatched t" "rp_completed (fst (take_report t)) = tl_completed t"
      "snd (take_report t) = new_telemetry"
      by (simp_all add: take_report_def Let_def)
    then show ?thesis using assms take_report_ok [OF ok]
      by (simp add: st Report counted_def case_prod_beta dispatched_in_def completed_in_def)
  qed (use assms record_ok [OF ok] in \<open>simp_all add: st counted_def dispatched_in_def completed_in_def
      record_label_dispatched_def record_label_completed_def record_scaling_event_def algebra_simps\<close>)
qed


end
