(* ===== verification/Dispatcher.thy ===== *)
theory Dispatcher
  imports Worker Manager Observability
begin

text \<open>
  The dispatcher service (\<^verbatim>\<open>src/services/labios-dispatcher.cpp\<close>): it buffers the labels it
  receives and processes them in batches, answering queries inline, shuffling the rest and sending
  them to workers. What is fixed while a batch is processed is \<open>dispatcher_env\<close> (the clock reads
  the same throughout a batch); the rest is the state \<open>dispatcher\<close>. An exception that leaves the
  batch thread ends the process: then the result is an error. \<open>dp_world\<close> is what the rest of the
  system does to the servers while the dispatcher waits for resumed workers. Logging and start-up files
  are left out, and so is \<^verbatim>\<open>nats.flush()\<close>, which sends nothing.
\<close>

subsection \<open>Environment and state\<close>

record ('s, 'n, 'r) dispatcher_env =
  dp_redis :: "'s server"
  dp_nats :: "'n nats_lib"
  dp_enc :: "fb_label \<Rightarrow> bytes"
  dp_dec :: "bytes \<Rightarrow> fb_label"
  dp_encc :: "fb_completion \<Rightarrow> bytes"
  dp_config :: config
  dp_profile :: weight_profile
  dp_draw :: "'r \<Rightarrow> nat \<Rightarrow> nat \<times> 'r"
  dp_now_us :: u64
  dp_now_ms :: u64
  dp_new_id :: u64
  dp_nats_connected :: bool
  dp_redis_connected :: bool
  dp_set_order :: "string list \<Rightarrow> string list"
  dp_world :: "('s, 'n) io \<Rightarrow> ('s, 'n) io"

text \<open>A fan-out thread: the handle it waits on and the reply subjects it serves.\<close>

type_synonym fanout_thread = "nat \<times> string list"

record ('s, 'n, 'r) dispatcher =
  ds_io :: "('s, 'n) io"
  ds_channels :: channel_registry
  ds_workers :: "worker_info list"
  ds_buffer :: "label_data list"
  ds_cursor :: nat
  ds_random :: 'r
  ds_telemetry :: telemetry
  ds_fanouts :: "fanout_thread list"

type_synonym ('s, 'n, 'r, 'a) dispatch_op = "(('s, 'n, 'r) dispatcher, 'a) redis_op"

definition ds_redis :: "('s, 'a) redis_op \<Rightarrow> ('s, 'n, 'r, 'a) dispatch_op" where
  "ds_redis m d = (let (r, io) = on_redis m (ds_io d) in (r, d\<lparr>ds_io := io\<rparr>))"

definition ds_nats :: "('n nats_conn, 'a) redis_op \<Rightarrow> ('s, 'n, 'r, 'a) dispatch_op" where
  "ds_nats m d = (let (r, io) = on_nats m (ds_io d) in (r, d\<lparr>ds_io := io\<rparr>))"

definition ds_update :: "(('s, 'n, 'r) dispatcher \<Rightarrow> ('s, 'n, 'r) dispatcher) \<Rightarrow> ('s, 'n, 'r, unit) dispatch_op" where
  "ds_update f d = ret () (f d)"

definition now_text :: "('s, 'n, 'r) dispatcher_env \<Rightarrow> string" where
  "now_text env = u64_to_string (dp_now_ms env)"

subsection \<open>Workers\<close>

definition snapshot_worker :: "int \<Rightarrow> worker_info list \<Rightarrow> score_snapshot" where
  "snapshot_worker wid ws =
     (case find (\<lambda>w. w_id w = wid) ws of
        None \<Rightarrow> default_score
      | Some w \<Rightarrow> \<lparr>ss_availability = (if w_available w then 1 else 0), ss_capacity = w_capacity w, ss_load = w_load w,
                   ss_speed = of_int (w_speed w), ss_energy = of_int (w_energy w),
                   ss_tier = of_nat (tier_num (w_tier w))\<rparr>)"

text \<open>A query that fails gives no workers.\<close>

definition query_workers :: "('s, 'n, 'r) dispatcher_env \<Rightarrow> ('s, 'n, 'r, worker_info list) dispatch_op" where
  "query_workers env =
     op_catch (op_bind (ds_nats (nats_request (dp_nats env) ''labios.manager.workers'' [])) (\<lambda>reply.
               ret (wr_workers (decode_worker_registry (string_of_bytes reply)))))
       (\<lambda>e. ret [])"

text \<open>The body of the refresh thread, also run once at start-up.\<close>

definition refresh_workers :: "('s, 'n, 'r) dispatcher_env \<Rightarrow> ('s, 'n, 'r, unit) dispatch_op" where
  "refresh_workers env = op_bind (query_workers env) (\<lambda>ws. ds_update (\<lambda>d. d\<lparr>ds_workers := ws\<rparr>))"

text \<open>
  One label through the configured solver; of an assignment only the first worker is read, and with
  one label there is at most one. The solvers' own states are the cursor and the random generator.
\<close>

definition solve ::
    "('s, 'n, 'r) dispatcher_env \<Rightarrow> worker_info list \<Rightarrow> bytes list \<Rightarrow> intent \<Rightarrow> ('s, 'n, 'r) dispatcher \<Rightarrow>
     bytes assignment \<times> ('s, 'n, 'r) dispatcher" where
  "solve env ws batch i d =
     (let policy = c_scheduler_policy (dp_config env) in
      if policy = ''random''
      then (let (a, r) = random_assign (dp_draw env) (ds_random d) batch ws in (a, d\<lparr>ds_random := r\<rparr>))
      else if policy = ''constraint'' then (constraint_assign (profile_for_intent (dp_profile env) i) batch ws, d)
      else if policy = ''minmax'' then (minmax_assign batch ws, d)
      else (let (a, k) = round_robin_assign (ds_cursor d) batch ws in (a, d\<lparr>ds_cursor := k\<rparr>)))"

definition select_worker ::
    "('s, 'n, 'r) dispatcher_env \<Rightarrow> worker_info list \<Rightarrow> intent \<Rightarrow> ('s, 'n, 'r, int option) dispatch_op" where
  "select_worker env ws i d =
     (let (a, d') = solve env ws [[]] i d
      in ret (case a of [] \<Rightarrow> None | (w, ls) # rest \<Rightarrow> Some w) d')"

subsection \<open>Receiving\<close>

text \<open>The callback of \<^verbatim>\<open>labios.labels\<close>; the connection swallows its exceptions.\<close>

definition on_label ::
    "('s, 'n, 'r) dispatcher_env \<Rightarrow> bytes \<Rightarrow> string \<Rightarrow> ('s, 'n, 'r) dispatcher \<Rightarrow> ('s, 'n, 'r) dispatcher" where
  "on_label env payload reply_to d =
     (case deserialize_label (dp_dec env) payload of
        Inl e \<Rightarrow> d
      | Inr l \<Rightarrow> d\<lparr>ds_buffer := ds_buffer d @
                    [mark_label_queued (dp_now_us env) (dp_now_us env) (l\<lparr>l_reply_to := reply_to\<rparr>)]\<rparr>)"

subsection \<open>Sending\<close>

definition worker_subject :: "int \<Rightarrow> string" where
  "worker_subject w = ''labios.worker.'' @ int_to_string w"

definition scheduled ::
    "('s, 'n, 'r) dispatcher_env \<Rightarrow> worker_info list \<Rightarrow> int \<Rightarrow> string \<Rightarrow> label_data \<Rightarrow> label_data" where
  "scheduled env ws w policy =
     mark_label_scheduled (dp_now_us env) (of_int w) policy (snapshot_worker w ws) (dp_now_us env)"

definition entry_for :: "int \<Rightarrow> label_data \<Rightarrow> schedule_entry" where
  "entry_for w l = \<lparr>se_label_id = l_id l, se_worker_id = w, se_flags = l_flags l\<rparr>"

definition send_label :: "('s, 'n, 'r) dispatcher_env \<Rightarrow> int \<Rightarrow> label_data \<Rightarrow> ('s, 'n, 'r, unit) dispatch_op" where
  "send_label env w l =
     op_bind (ds_nats (nats_publish (dp_nats env) (worker_subject w) (serialize_label (dp_enc env) l))) (\<lambda>_.
     ds_update (\<lambda>d. d\<lparr>ds_telemetry := record_label_dispatched 0 (ds_telemetry d)\<rparr>))"

definition record_write :: "('s, 'n, 'r) dispatcher_env \<Rightarrow> int \<Rightarrow> label_data \<Rightarrow> ('s, 'n, 'r, unit) dispatch_op" where
  "record_write env w l =
     (if l_type l = Write
      then (case l_destination l of
              FilePath path offset len \<Rightarrow> ds_redis (set_location (dp_redis env) path offset len w)
            | _ \<Rightarrow> ret ())
      else ret ())"

subsection \<open>Direct routes\<close>

fun dispatch_direct ::
    "('s, 'n, 'r) dispatcher_env \<Rightarrow> worker_info list \<Rightarrow> (label_data \<times> int) list \<Rightarrow> schedule_entry list \<Rightarrow>
     ('s, 'n, 'r, schedule_entry list) dispatch_op" where
  "dispatch_direct env ws [] sched = ret sched"
| "dispatch_direct env ws ((l, w) # rest) sched =
     (let l' = scheduled env ws w ''read-locality'' l
      in op_bind (send_label env w l') (\<lambda>_. dispatch_direct env ws rest (sched @ [entry_for w l'])))"

subsection \<open>Supertasks\<close>

definition dispatch_supertask ::
    "('s, 'n, 'r) dispatcher_env \<Rightarrow> worker_info list \<Rightarrow> supertask \<Rightarrow> ('s, 'n, 'r, unit) dispatch_op" where
  "dispatch_supertask env ws st =
     op_bind (select_worker env ws (l_intent (composite st))) (\<lambda>chosen.
     case chosen of
       None \<Rightarrow> ret ()
     | Some w \<Rightarrow>
         (let policy = c_scheduler_policy (dp_config env);
              children = map (scheduled env ws w policy) (st_children st);
              whole = scheduled env ws w policy (composite st)
          in op_bind (ds_redis (redis_set_binary (dp_redis env) (pack_key (l_id whole))
                        (pack_labels (map (serialize_label (dp_enc env)) children)))) (\<lambda>_.
             op_bind (op_each (record_write env w) children) (\<lambda>_.
             op_bind (ds_redis (schedule_batch (dp_redis env) (now_text env)
                        (map (entry_for w) children @ [entry_for w whole]))) (\<lambda>_.
             send_label env w whole)))))"

subsection \<open>Independent labels\<close>

text \<open>An aggregated write: the staged data of its parts becomes its own.\<close>

fun gather_chunks ::
    "('s, 'n, 'r) dispatcher_env \<Rightarrow> u64 list \<Rightarrow> bytes \<Rightarrow> ('s, 'n, 'r, bytes) dispatch_op" where
  "gather_chunks env [] combined = ret combined"
| "gather_chunks env (i # ids) combined =
     op_bind (ds_redis (redis_get_binary (dp_redis env) (data_key i 0 []))) (\<lambda>chunk.
     op_bind (ds_redis (redis_del (dp_redis env) (data_key i 0 []))) (\<lambda>_.
     gather_chunks env ids (combined @ chunk)))"

definition is_aggregated :: "label_data \<Rightarrow> bool" where
  "is_aggregated l \<longleftrightarrow> l_children l \<noteq> [] \<and> l_type l = Write"

definition stage_aggregate :: "('s, 'n, 'r) dispatcher_env \<Rightarrow> label_data \<Rightarrow> ('s, 'n, 'r, unit) dispatch_op" where
  "stage_aggregate env l =
     op_bind (gather_chunks env (l_children l) []) (\<lambda>combined.
     ds_redis (redis_set_binary (dp_redis env) (data_key (l_id l) 0 []) combined))"

text \<open>A label that stands for several clients is answered on an inbox, for a thread to fan out.\<close>

definition redirect_reply ::
    "('s, 'n, 'r) dispatcher_env \<Rightarrow> fanout \<Rightarrow> label_data \<Rightarrow> ('s, 'n, 'r, label_data) dispatch_op" where
  "redirect_reply env fo l =
     (case fo (l_id l) of
        None \<Rightarrow> ret l
      | Some replies \<Rightarrow>
          op_bind (ds_nats (create_reply_inbox (dp_nats env))) (\<lambda>(inbox, h).
          op_bind (ds_update (\<lambda>d. d\<lparr>ds_fanouts := ds_fanouts d @ [(h, replies)]\<rparr>)) (\<lambda>_.
          ret (l\<lparr>l_reply_to := inbox\<rparr>))))"

definition prepare_aggregate ::
    "('s, 'n, 'r) dispatcher_env \<Rightarrow> fanout \<Rightarrow> label_data \<Rightarrow> ('s, 'n, 'r, label_data) dispatch_op" where
  "prepare_aggregate env fo l =
     (if is_aggregated l then op_bind (stage_aggregate env l) (\<lambda>_. redirect_reply env fo l) else ret l)"

text \<open>A write goes where its file already is, unless that is worker 0 or a negative number.\<close>

definition write_target :: "('s, 'n, 'r) dispatcher_env \<Rightarrow> label_data \<Rightarrow> ('s, 'n, 'r, int option) dispatch_op" where
  "write_target env l =
     (if l_type l = Write
      then (case l_destination l of
              FilePath path offset len \<Rightarrow>
                op_bind (ds_redis (get_file_location (dp_redis env) path)) (\<lambda>loc.
                ret (case loc of None \<Rightarrow> None | Some w \<Rightarrow> if w > 0 then Some w else None))
            | _ \<Rightarrow> ret None)
      else ret None)"

definition dispatch_independent ::
    "('s, 'n, 'r) dispatcher_env \<Rightarrow> worker_info list \<Rightarrow> fanout \<Rightarrow> label_data \<Rightarrow>
     ('s, 'n, 'r, schedule_entry list) dispatch_op" where
  "dispatch_independent env ws fo l0 =
     op_bind (prepare_aggregate env fo l0) (\<lambda>l.
     op_bind (write_target env l) (\<lambda>target.
     case target of
       Some w \<Rightarrow>
         (let l' = scheduled env ws w ''write-locality'' l
          in op_bind (send_label env w l') (\<lambda>_. ret [entry_for w l']))
     | None \<Rightarrow>
         op_bind (select_worker env ws (l_intent l)) (\<lambda>chosen.
         case chosen of
           None \<Rightarrow> ret []
         | Some w \<Rightarrow>
             (let l' = scheduled env ws w (c_scheduler_policy (dp_config env)) l
              in op_bind (record_write env w l') (\<lambda>_.
                 op_bind (send_label env w l') (\<lambda>_. ret [entry_for w l']))))))"

fun dispatch_each ::
    "('s, 'n, 'r) dispatcher_env \<Rightarrow> worker_info list \<Rightarrow> fanout \<Rightarrow> label_data list \<Rightarrow> schedule_entry list \<Rightarrow>
     ('s, 'n, 'r, schedule_entry list) dispatch_op" where
  "dispatch_each env ws fo [] sched = ret sched"
| "dispatch_each env ws fo (l # ls) sched =
     op_bind (dispatch_independent env ws fo l) (\<lambda>es. dispatch_each env ws fo ls (sched @ es))"

text \<open>The fan-out thread, once it stops waiting; a failed publication ends it.\<close>

definition run_fanout ::
    "('s, 'n, 'r) dispatcher_env \<Rightarrow> fanout_thread \<Rightarrow> ('s, 'n, 'r, unit) dispatch_op" where
  "run_fanout env = (\<lambda>(h, replies) d.
     case async_replies (io_nats (ds_io d)) ! h of
       None \<Rightarrow> ret () d
     | Some data \<Rightarrow>
         op_catch (op_each (\<lambda>reply_to. ds_nats (nats_publish (dp_nats env) reply_to data)) replies) (\<lambda>e. ret ()) d)"

subsection \<open>Batches\<close>

text \<open>The shuffler, its location lookups asked of the catalog.\<close>

fun route_located ::
    "('s, 'n, 'r) dispatcher_env \<Rightarrow> label_data list \<Rightarrow> ('s, 'n, 'r, (label_data \<times> int) list \<times> label_data list) dispatch_op" where
  "route_located env [] = ret ([], [])"
| "route_located env (l # ls) =
     op_bind (if l_type l = Read
              then ds_redis (get_location (dp_redis env) (l_file_key l) (r_offset (label_range l)) (r_length (label_range l)))
              else ret None) (\<lambda>loc.
     op_bind (route_located env ls) (\<lambda>(direct, indep).
     ret (case loc of Some w \<Rightarrow> ((l, w) # direct, indep) | None \<Rightarrow> (direct, l # indep))))"

definition dispatcher_shuffler :: "('s, 'n, 'r) dispatcher_env \<Rightarrow> shuffler_config" where
  "dispatcher_shuffler env =
     \<lparr>aggregation_enabled = c_dispatcher_aggregation_enabled (dp_config env),
      dep_granularity = c_dispatcher_dep_granularity (dp_config env)\<rparr>"

definition shuffle_located ::
    "('s, 'n, 'r) dispatcher_env \<Rightarrow> label_data list \<Rightarrow> ('s, 'n, 'r, shuffle_result) dispatch_op" where
  "shuffle_located env batch =
     (let cfg = dispatcher_shuffler env;
          (merged, fo) = aggregate cfg batch;
          (tasks, remaining) = build_supertasks (dep_granularity cfg) (detect_dependencies (dep_granularity cfg) merged)
      in op_bind (route_located env remaining) (\<lambda>(direct, indep).
         ret \<lparr>direct_route = direct, supertasks = tasks, independent = indep, reply_fanout = fo\<rparr>))"

definition mark_result :: "u64 \<Rightarrow> shuffle_result \<Rightarrow> shuffle_result" where
  "mark_result now r =
     (let mark = mark_label_shuffled now now
      in r\<lparr>direct_route := map (\<lambda>(l, w). (mark l, w)) (direct_route r),
           independent := map mark (independent r),
           supertasks := map (\<lambda>st. \<lparr>composite = mark (composite st), st_children = map mark (st_children st)\<rparr>) (supertasks r)\<rparr>)"

definition dispatch_result ::
    "('s, 'n, 'r) dispatcher_env \<Rightarrow> worker_info list \<Rightarrow> shuffle_result \<Rightarrow> ('s, 'n, 'r, unit) dispatch_op" where
  "dispatch_result env ws r =
     op_bind (op_bind (dispatch_direct env ws (direct_route r) []) (\<lambda>sched.
              ds_redis (schedule_batch (dp_redis env) (now_text env) sched))) (\<lambda>_.
     op_bind (op_each (dispatch_supertask env ws) (supertasks r)) (\<lambda>_.
     op_bind (dispatch_each env ws (reply_fanout r) (independent r) []) (\<lambda>sched.
     ds_redis (schedule_batch (dp_redis env) (now_text env) sched))))"

text \<open>When every worker is suspended they are told to resume, and the registry is asked again.\<close>

definition resume_workers :: "('s, 'n, 'r) dispatcher_env \<Rightarrow> worker_info list \<Rightarrow> ('s, 'n, 'r, worker_info list) dispatch_op" where
  "resume_workers env ws =
     op_bind (op_each (\<lambda>w. ds_nats (nats_publish_text (dp_nats env) (''labios.worker.resume.'' @ int_to_string (w_id w)) ''1'')) ws) (\<lambda>_.
     op_bind (ds_update (\<lambda>d. d\<lparr>ds_io := dp_world env (ds_io d)\<rparr>)) (\<lambda>_.
     op_bind (query_workers env) (\<lambda>ws'.
     op_bind (ds_update (\<lambda>d. d\<lparr>ds_workers := ws'\<rparr>)) (\<lambda>_.
     ret ws'))))"

definition dispatch_labels :: "('s, 'n, 'r) dispatcher_env \<Rightarrow> label_data list \<Rightarrow> ('s, 'n, 'r, unit) dispatch_op" where
  "dispatch_labels env batch =
     op_bind (shuffle_located env batch) (\<lambda>r d.
       let r = mark_result (dp_now_us env) r; ws = ds_workers d
       in if ws = [] then ret () d
          else op_bind (if list_ex w_available ws then ret ws else resume_workers env ws) (\<lambda>ws.
               dispatch_result env ws r) d)"

text \<open>Queries, answered inline; \<open>None\<close> is running out of fuel in a scan.\<close>

definition dispatcher_obs :: "('s, 'n, 'r) dispatcher_env \<Rightarrow> 's obs_env" where
  "dispatcher_obs env =
     \<lparr>ob_redis = dp_redis env, ob_now_ms = dp_now_ms env, ob_nats_connected = dp_nats_connected env,
      ob_redis_connected = dp_redis_connected env, ob_config = dp_config env, ob_set_order = dp_set_order env\<rparr>"

definition ds_continue ::
    "('s, 'n, 'r) dispatcher_env \<Rightarrow> label_data \<Rightarrow> completion_data \<Rightarrow> ('s, 'n, 'r, label_data option) dispatch_op" where
  "ds_continue env l c d =
     (let (r, reg, io) = process_continuation (dp_redis env) (dp_nats env) (dp_encc env) (dp_dec env) (dp_new_id env)
                           l c (ds_channels d) (ds_io d)
      in (r, d\<lparr>ds_channels := reg, ds_io := io\<rparr>))"

definition observe_key :: "u64 \<Rightarrow> string" where
  "observe_key label_id = ''labios:observe:'' @ u64_to_string label_id"

definition observe_completion :: "label_data \<Rightarrow> observe_result \<Rightarrow> completion_data" where
  "observe_completion l r =
     \<lparr>comp_label_id = l_id l, comp_status = (if ob_success r then CompComplete else CompError),
      comp_error = ob_error r, comp_data_key = observe_key (l_id l)\<rparr>"

definition answer_observe ::
    "('s, 'n, 'r) dispatcher_env \<Rightarrow> label_data \<Rightarrow> observe_result \<Rightarrow> ('s, 'n, 'r, unit) dispatch_op" where
  "answer_observe env l r =
     (let c = observe_completion l r in
      op_bind (ds_redis (redis_set (dp_redis env) (observe_key (l_id l)) (ob_json_data r))) (\<lambda>_.
      op_bind (if l_reply_to l = [] then ret ()
               else ds_nats (nats_publish (dp_nats env) (l_reply_to l) (dp_encc env (serialize_completion_core c)))) (\<lambda>_.
      if cont_kind (l_continuation l) = ContNone then ret ()
      else op_catch (op_bind (ds_continue env l c) (\<lambda>chained.
             case chained of
               None \<Rightarrow> ret ()
             | Some l' \<Rightarrow> ds_nats (nats_publish (dp_nats env) ''labios.labels'' (serialize_label (dp_enc env) l')))) (\<lambda>e. ret ()))))"

definition observe_label ::
    "nat \<Rightarrow> ('s, 'n, 'r) dispatcher_env \<Rightarrow> worker_info list \<Rightarrow> label_data \<Rightarrow> ('s, 'n, 'r) dispatcher \<Rightarrow>
     (unit result \<times> ('s, 'n, 'r) dispatcher) option" where
  "observe_label fuel env ws l d =
     (case handle_observe fuel (dispatcher_obs env) ws (parse_uri (l_source_uri l)) (io_redis (ds_io d)) of
        None \<Rightarrow> None
      | Some (r, s) \<Rightarrow>
          (let d' = d\<lparr>ds_io := (ds_io d)\<lparr>io_redis := s\<rparr>\<rparr>
           in Some (case r of Inl e \<Rightarrow> (Inl e, d') | Inr obs \<Rightarrow> answer_observe env l obs d')))"

fun observe_labels ::
    "nat \<Rightarrow> ('s, 'n, 'r) dispatcher_env \<Rightarrow> worker_info list \<Rightarrow> label_data list \<Rightarrow> ('s, 'n, 'r) dispatcher \<Rightarrow>
     (unit result \<times> ('s, 'n, 'r) dispatcher) option" where
  "observe_labels fuel env ws [] d = Some (Inr (), d)"
| "observe_labels fuel env ws (l # ls) d =
     (if l_type l \<noteq> Observe then observe_labels fuel env ws ls d
      else case observe_label fuel env ws l d of
             None \<Rightarrow> None
           | Some (Inl e, d') \<Rightarrow> Some (Inl e, d')
           | Some (Inr _, d') \<Rightarrow> observe_labels fuel env ws ls d')"

definition depth_text :: "label_data list \<Rightarrow> string" where
  "depth_text batch =
     nat_to_string (length batch) @ '','' @ nat_to_string (length (filter (\<lambda>l. l_pipeline l \<noteq> []) batch)) @ '','' @
     nat_to_string (length (filter (\<lambda>l. l_type l = Observe) batch))"

definition report_depth :: "('s, 'n, 'r) dispatcher_env \<Rightarrow> label_data list \<Rightarrow> ('s, 'n, 'r, unit) dispatch_op" where
  "report_depth env batch =
     op_catch (op_bind (ds_nats (nats_publish_text (dp_nats env) ''labios.queue.depth'' (depth_text batch))) (\<lambda>_.
               ds_redis (redis_set (dp_redis env) ''labios:queue:depth'' (depth_text batch)))) (\<lambda>e. ret ())"

text \<open>One turn of the batch thread: the buffer, full or at its timeout.\<close>

definition process_batch ::
    "nat \<Rightarrow> ('s, 'n, 'r) dispatcher_env \<Rightarrow> ('s, 'n, 'r) dispatcher \<Rightarrow>
     (unit result \<times> ('s, 'n, 'r) dispatcher) option" where
  "process_batch fuel env d =
     (let batch = ds_buffer d; d1 = snd (report_depth env batch (d\<lparr>ds_buffer := []\<rparr>))
      in if batch = [] then Some (Inr (), d1)
         else case observe_labels fuel env (ds_workers d1) batch d1 of
                None \<Rightarrow> None
              | Some (Inl e, d2) \<Rightarrow> Some (Inl e, d2)
              | Some (Inr _, d2) \<Rightarrow>
                  (let rest = filter (\<lambda>l. l_type l \<noteq> Observe) batch
                   in Some (if rest = [] then (Inr (), d2) else dispatch_labels env rest d2)))"

end
