(* ===== verification/Delivery.thy ===== *)
theory Delivery
  imports Dispatcher
begin

text \<open>
  What a batch leaves behind: what the dispatcher (\<open>Dispatcher\<close>) has published to the workers and
  written to the warehouse once a batch is processed.
\<close>

subsection \<open>What an operation does\<close>

text \<open>
  \<open>does V m R\<close>: in every state \<open>m\<close> succeeds, and \<open>R\<close> relates the view before, its result
  and the view after.
\<close>

definition does :: "('d \<Rightarrow> 'v) \<Rightarrow> ('d, 'a) redis_op \<Rightarrow> ('v \<Rightarrow> 'a \<Rightarrow> 'v \<Rightarrow> bool) \<Rightarrow> bool" where
  "does V m R \<longleftrightarrow> (\<forall>d. \<exists>x d'. m d = (Inr x, d') \<and> R (V d) x (V d'))"

lemma does_ret: "(\<And>v. R v x v) \<Longrightarrow> does V (ret x) R"
  by (simp add: does_def ret_def)

lemma does_bind:
  assumes "does V m R" "\<And>x. does V (f x) (S x)" "\<And>v x v' y v''. R v x v' \<Longrightarrow> S x v' y v'' \<Longrightarrow> T v y v''"
  shows "does V (op_bind m f) T"
  unfolding does_def
proof
  fix d
  obtain x d1 where 1: "m d = (Inr x, d1)" "R (V d) x (V d1)" using assms(1) unfolding does_def by blast
  obtain y d2 where 2: "f x d1 = (Inr y, d2)" "S x (V d1) y (V d2)" using assms(2) unfolding does_def by blast
  show "\<exists>y d'. op_bind m f d = (Inr y, d') \<and> T (V d) y (V d')"
    using 1 2 assms(3) by (auto simp: op_bind_def)
qed

lemma op_bind_ret_left: "op_bind (ret x) f = f x"
  by (simp add: op_bind_def ret_def fun_eq_iff)

lemma does_mono: "does V m R \<Longrightarrow> (\<And>v x v'. R v x v' \<Longrightarrow> R' v x v') \<Longrightarrow> does V m R'"
  unfolding does_def by blast

lemma does_if: "(c \<Longrightarrow> does V m R) \<Longrightarrow> (\<not> c \<Longrightarrow> does V m' R) \<Longrightarrow> does V (if c then m else m') R"
  by simp

text \<open>The dispatcher's view: the warehouse and the messages sent.\<close>

definition ds_view ::
    "('s \<Rightarrow> redis_db) \<Rightarrow> ('n \<Rightarrow> nats_message list) \<Rightarrow> ('s, 'n, 'r) dispatcher \<Rightarrow> redis_db \<times> nats_message list" where
  "ds_view db sent d = io_view db sent (ds_io d)"

lemma does_redis:
  fixes db :: "'s \<Rightarrow> redis_db" and sent :: "'n \<Rightarrow> nats_message list"
  assumes "\<And>v. \<exists>x v'. yields db m v (Inr x) v' \<and> R v x v'"
  shows "does (ds_view db sent) (ds_redis m) (\<lambda>v x v'. R (fst v) x (fst v') \<and> snd v' = snd v)"
  unfolding does_def
proof
  fix d :: "('s, 'n, 'r) dispatcher"
  obtain x v' where y: "yields db m (db (io_redis (ds_io d))) (Inr x) v'" "R (db (io_redis (ds_io d))) x v'"
    using assms by blast
  obtain s' where "m (io_redis (ds_io d)) = (Inr x, s')" "db s' = v'" using yields_run [OF y(1) refl] by blast
  then show "\<exists>x d'. ds_redis m d = (Inr x, d') \<and>
      R (fst (ds_view db sent d)) x (fst (ds_view db sent d')) \<and> snd (ds_view db sent d') = snd (ds_view db sent d)"
    using y(2) by (auto simp: ds_redis_def on_redis_def ds_view_def io_view_def)
qed

lemma does_redis_eff:
  assumes "\<And>v. yields db m v (Inr (r v)) (f v)"
  shows "does (ds_view db sent) (ds_redis m) (\<lambda>v x v'. x = r (fst v) \<and> v' = (f (fst v), snd v))"
  by (rule does_mono [OF does_redis [where R = "\<lambda>v x v'. x = r v \<and> v' = f v"]]) (use assms in \<open>auto simp: prod_eq_iff\<close>)

lemma does_update:
  assumes "\<And>d. ds_io (f d) = ds_io d"
  shows "does (ds_view db sent) (ds_update f) (\<lambda>v x v'. v' = v)"
  using assms by (simp add: does_def ds_update_def ret_def ds_view_def)

subsection \<open>A worker is chosen\<close>

lemma first_worker:
  assumes "all_grouped a = mset [x]" "fst ` set a \<subseteq> A"
  shows "\<exists>w ls rest. a = (w, ls) # rest \<and> w \<in> A"
  using assms by (cases a) (auto simp: all_grouped_def)

lemma solve_one:
  assumes "available_ids ws \<noteq> []"
  shows "\<exists>w ls rest d'. solve env ws [b] i d = ((w, ls) # rest, d') \<and> ds_io d' = ds_io d \<and>
    (c_scheduler_policy (dp_config env) \<noteq> ''random'' \<longrightarrow> w \<in> set (available_ids ws))"
proof -
  have ws: "ws \<noteq> []" using assms by (auto simp: available_ids_def)
  have rr: "\<exists>w ls rest k. round_robin_assign (ds_cursor d) [b] ws = ((w, ls) # rest, k) \<and> w \<in> set (available_ids ws)"
    using first_worker [OF rr.conserves [OF assms, of "ds_cursor d" "[b]"] rr.eligible]
    by (metis prod.collapse)
  have con: "\<exists>w ls rest. constraint_assign p [b] ws = (w, ls) # rest \<and> w \<in> set (available_ids ws)" for p
    using first_worker [OF con.conserves [OF assms, of p "()" "[b]"] con.eligible] by (simp add: constraint_step_def)
  have mm: "\<exists>w ls rest. minmax_assign [b] ws = (w, ls) # rest \<and> w \<in> set (available_ids ws)"
    using first_worker [OF mm.conserves [OF assms, of "()" "[b]"] mm.eligible] by (simp add: minmax_step_def)
  consider "c_scheduler_policy (dp_config env) = ''random''" | "c_scheduler_policy (dp_config env) = ''constraint''"
    | "c_scheduler_policy (dp_config env) = ''minmax''"
    | "c_scheduler_policy (dp_config env) \<notin> {''random'', ''constraint'', ''minmax''}" by auto
  then show ?thesis
  proof cases
    case 1
    then show ?thesis by (simp add: solve_def random_assign_def ws case_prod_beta)
  next
    case 2
    then show ?thesis using con [of "profile_for_intent (dp_profile env) i"] by (auto simp: solve_def)
  next
    case 3
    then show ?thesis using mm by (auto simp: solve_def)
  next
    case 4
    then show ?thesis using rr by (auto simp: solve_def)
  qed
qed

lemma does_select:
  assumes "available_ids ws \<noteq> []"
  shows "does (ds_view db sent) (select_worker env ws i) (\<lambda>v x v'. v' = v \<and> (\<exists>w. x = Some w))"
  unfolding does_def
proof
  fix d
  obtain w ls rest d' where "solve env ws [[]] i d = ((w, ls) # rest, d')" "ds_io d' = ds_io d"
    using solve_one [OF assms] by blast
  then show "\<exists>x d'. select_worker env ws i d = (Inr x, d') \<and> ds_view db sent d' = ds_view db sent d \<and> (\<exists>w. x = Some w)"
    by (simp add: select_worker_def ret_def ds_view_def)
qed

subsection \<open>Messages and packs\<close>

text \<open>
  \<open>carries env ws l m\<close>: the message takes \<open>l\<close>, scheduled, to a worker, possibly with another
  reply address. \<open>packed env ws st d\<close>: the children of \<open>st\<close>, scheduled, are in the warehouse.
\<close>

definition carries :: "('s, 'n, 'r) dispatcher_env \<Rightarrow> worker_info list \<Rightarrow> label_data \<Rightarrow> nats_message \<Rightarrow> bool" where
  "carries env ws l m \<longleftrightarrow> (\<exists>w policy reply.
     m = (worker_subject w, [], serialize_label (dp_enc env) (scheduled env ws w policy (l\<lparr>l_reply_to := reply\<rparr>))))"

definition pack_value :: "('s, 'n, 'r) dispatcher_env \<Rightarrow> label_data list \<Rightarrow> redis_value" where
  "pack_value env ls = VStr (string_of_bytes (pack_labels (map (serialize_label (dp_enc env)) ls)))"

definition packed :: "('s, 'n, 'r) dispatcher_env \<Rightarrow> worker_info list \<Rightarrow> supertask \<Rightarrow> redis_db \<Rightarrow> bool" where
  "packed env ws st d \<longleftrightarrow> (\<exists>w policy.
     d (pack_key (l_id (composite st))) = Some (pack_value env (map (scheduled env ws w policy) (st_children st))))"

text \<open>The keys a dispatched label touches besides its data: those of the catalog.\<close>

definition book_key :: "string \<Rightarrow> bool" where
  "book_key k \<longleftrightarrow> (\<exists>i. k = catalog_key i) \<or> (\<exists>f. k = location_key f \<or> k = offset_location_key f)"

lemma pack_key_inj [simp]: "pack_key i = pack_key j \<longleftrightarrow> i = j"
  by (simp add: pack_key_def word_eq_iff_unsigned [where ?'a = nat])

lemma book_key_simps [simp]:
  "book_key (catalog_key i)" "book_key (location_key f)" "book_key (offset_location_key f)"
  "\<not> book_key (pack_key i)" "\<not> book_key (data_key i 0 [])" "data_key i 0 [] \<noteq> pack_key j" "pack_key j \<noteq> data_key i 0 []"
  by (auto simp: book_key_def pack_key_def data_key_def catalog_key_def location_key_def offset_location_key_def)

lemma scheduled_simps [simp]:
  "l_id (scheduled env ws w policy l) = l_id l" "l_type (scheduled env ws w policy l) = l_type l"
  "l_children (scheduled env ws w policy l) = l_children l" "l_data_size (scheduled env ws w policy l) = l_data_size l"
  "l_destination (scheduled env ws w policy l) = l_destination l" "l_reply_to (scheduled env ws w policy l) = l_reply_to l"
  "l_aggregation (scheduled env ws w policy l) = l_aggregation l" "l_pipeline (scheduled env ws w policy l) = l_pipeline l"
  "origin_ids (scheduled env ws w policy l) = origin_ids l"
  by (simp_all add: scheduled_def mark_label_scheduled_def append_label_hop_def stamp_created_def Let_def origin_ids_def)

lemma scheduled_carries: "carries env ws l (worker_subject w, [], serialize_label (dp_enc env) (scheduled env ws w policy l))"
  unfolding carries_def by (intro exI [of _ w] exI [of _ policy] exI [of _ "l_reply_to l"]) simp

text \<open>What is staged under an identifier.\<close>

definition staged_bytes :: "redis_db \<Rightarrow> u64 \<Rightarrow> bytes" where
  "staged_bytes d i = (case db_get d (data_key i 0 []) of Some v \<Rightarrow> bytes_of_string v | None \<Rightarrow> [])"

definition gathered :: "u64 \<Rightarrow> u64 list \<Rightarrow> redis_db \<Rightarrow> redis_db" where
  "gathered whole ids d = (\<lambda>k. if k = data_key whole 0 [] then Some (VStr (string_of_bytes (concat (map (staged_bytes d) ids))))
     else if \<exists>i \<in> set ids. k = data_key i 0 [] then None else d k)"

subsection \<open>The operations of a dispatch\<close>

context redis_server
begin

lemma get_location_answers: "\<exists>x s'. get_location exec f off len s = (Inr x, s') \<and> db s' = db s"
proof (cases "off = 0 \<and> len = 0")
  case True
  then show ?thesis
    using yields_run [OF yields_get_file_location refl, of f s] by (auto simp: get_location_def)
next
  case False
  have lt: "unat off < 2 ^ 64" and z: "(0::nat) < 2 ^ 64" using unsigned_less [of off] by simp_all
  obtain ms s1 where ms: "redis_zrangebyscore exec (offset_location_key f) (of_nat 0) (of_nat (unat off)) s = (Inr ms, s1)" "db s1 = db s"
    using zrange_answer [OF z lt, where k = "offset_location_key f" and s = s] by (metis prod.collapse)
  have tail: "\<exists>x s'. (case first_covering (off + len) ms of Some wid \<Rightarrow> ret (Some wid) | None \<Rightarrow> get_file_location exec f) s1 = (Inr x, s') \<and> db s' = db s"
    using yields_run [OF yields_get_file_location ms(2), of f] by (cases "first_covering (off + len) ms") (auto simp: ret_def ms(2))
  show ?thesis
    unfolding get_location_def if_not_P [OF False] op_bind_def by (simp only: ms(1) prod.case sum.case tail)
qed

end

locale dispatcher_link = io_link "dp_redis env" db "dp_nats env" sent
  for env :: "('s, 'n, 'r) dispatcher_env" and db :: "'s \<Rightarrow> redis_db" and sent :: "'n \<Rightarrow> nats_message list"
begin

lemma does_nats:
  fixes m :: "('n nats_conn, 'a) redis_op"
  assumes "\<And>d ms. yields (io_view db sent) (on_nats m) (d, ms) (Inr x) (d, ms @ new)"
  shows "does (ds_view db sent) (ds_nats m) (\<lambda>v y v'. y = x \<and> v' = (fst v, snd v @ new))"
  unfolding does_def
proof
  fix d :: "('s, 'n, 'c) dispatcher"
  obtain io where "on_nats m (ds_io d) = (Inr x, io)"
    "io_view db sent io = (fst (io_view db sent (ds_io d)), snd (io_view db sent (ds_io d)) @ new)"
    using yields_run [OF assms] by (metis prod.collapse)
  then show "\<exists>y d'. ds_nats m d = (Inr y, d') \<and> y = x \<and>
      ds_view db sent d' = (fst (ds_view db sent d), snd (ds_view db sent d) @ new)"
    by (simp add: ds_nats_def ds_view_def)
qed

lemma does_send:
  "does (ds_view db sent) (send_label env w l)
     (\<lambda>v x v'. v' = (fst v, snd v @ [(worker_subject w, [], serialize_label (dp_enc env) l)]))"
  unfolding send_label_def
  by (rule does_bind [OF does_nats [OF yields_publish] does_update]) simp_all

lemma does_record_write:
  "does (ds_view db sent) (record_write env w l)
     (\<lambda>v x v'. snd v' = snd v \<and> (\<forall>k. \<not> book_key k \<longrightarrow> fst v' k = fst v k))"
proof -
  have eff: "loc_effect f e d k = d k" if "\<not> book_key k" for f e d k
    using that by (auto simp: loc_effect_def book_key_def split: prod.split)
  have "does (ds_view db sent) (ds_redis (set_location (dp_redis env) path off len w))
      (\<lambda>v x v'. snd v' = snd v \<and> (\<forall>k. \<not> book_key k \<longrightarrow> fst v' k = fst v k))" for path off len
    by (rule does_mono [OF does_redis_eff [OF yields_set_location]]) (simp add: eff)
  then show ?thesis
    by (auto simp: record_write_def intro!: does_ret split: pointer.split)
qed

lemma does_schedule:
  "does (ds_view db sent) (ds_redis (schedule_batch (dp_redis env) now es))
     (\<lambda>v x v'. snd v' = snd v \<and> (\<forall>k. \<not> book_key k \<longrightarrow> fst v' k = fst v k))"
proof -
  have "fold (sched_effect now) es d k = d k" if "\<not> book_key k" for d k
    using that by (intro fold_sched_other) auto
  then show ?thesis by (intro does_mono [OF does_redis_eff [OF yields_schedule_batch]]) simp
qed

lemma does_direct:
  fixes sched :: "schedule_entry list"
  shows "does (ds_view db sent) (dispatch_direct env ws ls sched)
     (\<lambda>v x v'. fst v' = fst v \<and> (\<exists>ms. snd v' = snd v @ ms \<and> list_all2 (carries env ws) (map fst ls) ms))"
proof (induction ls arbitrary: sched)
  case Nil
  show ?case by (simp add: does_def ret_def)
next
  case (Cons lw ls)
  obtain l w where lw: "lw = (l, w)" by fastforce
  show ?case
    unfolding lw dispatch_direct.simps Let_def
    by (rule does_bind [OF does_send Cons.IH]) (auto simp: scheduled_carries)
qed

lemma does_each_record:
  "does (ds_view db sent) (op_each (record_write env w) ls)
     (\<lambda>v x v'. snd v' = snd v \<and> (\<forall>k. \<not> book_key k \<longrightarrow> fst v' k = fst v k))"
proof (induction ls)
  case Nil
  show ?case by (simp add: does_def ret_def)
next
  case (Cons l ls)
  show ?case
    unfolding op_each.simps by (rule does_bind [OF does_record_write Cons.IH]) simp
qed

lemma does_supertask:
  assumes "available_ids ws \<noteq> []"
  shows "does (ds_view db sent) (dispatch_supertask env ws st)
    (\<lambda>v x v'. (\<exists>m. carries env ws (composite st) m \<and> snd v' = snd v @ [m]) \<and> packed env ws st (fst v') \<and>
       (\<forall>k. \<not> book_key k \<longrightarrow> k \<noteq> pack_key (l_id (composite st)) \<longrightarrow> fst v' k = fst v k))"
proof -
  let ?cs = "\<lambda>w. map (scheduled env ws w (c_scheduler_policy (dp_config env))) (st_children st)"
  let ?t = "\<lambda>w. scheduled env ws w (c_scheduler_policy (dp_config env)) (composite st)"
  let ?R = "\<lambda>w v x v'. (\<exists>m. carries env ws (composite st) m \<and> snd v' = snd v @ [m]) \<and>
      fst v' (pack_key (l_id (composite st))) = Some (pack_value env (?cs w)) \<and>
      (\<forall>k. \<not> book_key k \<longrightarrow> k \<noteq> pack_key (l_id (composite st)) \<longrightarrow> fst v' k = fst v k)"
  have rest: "does (ds_view db sent)
      (op_bind (ds_redis (redis_set_binary (dp_redis env) (pack_key (l_id (?t w))) (pack_labels (map (serialize_label (dp_enc env)) (?cs w))))) (\<lambda>_.
       op_bind (op_each (record_write env w) (?cs w)) (\<lambda>_.
       op_bind (ds_redis (schedule_batch (dp_redis env) (now_text env) (map (entry_for w) (?cs w) @ [entry_for w (?t w)]))) (\<lambda>_.
       send_label env w (?t w))))) (?R w)" for w
  proof -
    let ?m = "(worker_subject w, [], serialize_label (dp_enc env) (?t w))"
    let ?S = "\<lambda>v x v'. snd v' = snd v @ [?m] \<and> (\<forall>k. \<not> book_key k \<longrightarrow> fst v' k = fst v k)"
    have 1: "does (ds_view db sent) (op_bind (ds_redis (schedule_batch (dp_redis env) (now_text env) es)) (\<lambda>_. send_label env w (?t w))) ?S" for es
      by (rule does_bind [OF does_schedule does_send]) simp
    have 2: "does (ds_view db sent) (op_bind (op_each (record_write env w) ls) (\<lambda>_.
        op_bind (ds_redis (schedule_batch (dp_redis env) (now_text env) es)) (\<lambda>_. send_label env w (?t w)))) ?S" for ls es
      by (rule does_bind [OF does_each_record 1]) simp
    show ?thesis
      by (rule does_bind [OF does_redis_eff [OF yields_set_binary] 2]) (auto simp: pack_value_def intro: scheduled_carries)
  qed
  show ?thesis
    unfolding dispatch_supertask_def
  proof (rule does_bind [OF does_select [OF assms]])
    fix chosen
    show "does (ds_view db sent)
        (case chosen of None \<Rightarrow> ret () | Some w \<Rightarrow>
          (let policy = c_scheduler_policy (dp_config env); children = map (scheduled env ws w policy) (st_children st);
               whole = scheduled env ws w policy (composite st)
           in op_bind (ds_redis (redis_set_binary (dp_redis env) (pack_key (l_id whole))
                (pack_labels (map (serialize_label (dp_enc env)) children)))) (\<lambda>_.
              op_bind (op_each (record_write env w) children) (\<lambda>_.
              op_bind (ds_redis (schedule_batch (dp_redis env) (now_text env) (map (entry_for w) children @ [entry_for w whole]))) (\<lambda>_.
              send_label env w whole)))))
        (\<lambda>v x v'. \<forall>w. chosen = Some w \<longrightarrow> ?R w v x v')"
      using rest by (cases chosen) (simp_all add: Let_def does_ret)
  qed (auto simp: packed_def)
qed

lemma does_supertasks:
  assumes "available_ids ws \<noteq> []" "distinct (map (l_id \<circ> composite) sts)"
  shows "does (ds_view db sent) (op_each (dispatch_supertask env ws) sts)
    (\<lambda>v x v'. (\<exists>ms. snd v' = snd v @ ms \<and> list_all2 (carries env ws) (map composite sts) ms) \<and>
       list_all (\<lambda>st. packed env ws st (fst v')) sts \<and>
       (\<forall>k. \<not> book_key k \<longrightarrow> (\<forall>st \<in> set sts. k \<noteq> pack_key (l_id (composite st))) \<longrightarrow> fst v' k = fst v k))"
  using assms(2)
proof (induction sts)
  case Nil
  show ?case by (simp add: does_def ret_def)
next
  case (Cons st sts)
  have "packed env ws st d' = packed env ws st d" if "\<forall>k. \<not> book_key k \<longrightarrow> (\<forall>st \<in> set sts. k \<noteq> pack_key (l_id (composite st))) \<longrightarrow> d' k = d k" for d d'
    using that Cons.prems by (simp add: packed_def image_iff)
  note keep = this
  show ?case
    unfolding op_each.simps
  proof (rule does_bind [OF does_supertask [OF assms(1)] Cons.IH], goal_cases)
    case 1
    then show ?case using Cons.prems by simp
  next
    case (2 v x v' y v'')
    then show ?case using keep [of "fst v''" "fst v'"] by auto
  qed
qed

text \<open>Aggregates: what the parts had staged moves to the whole.\<close>

lemma does_gather:
  fixes ids :: "u64 list" and combined :: bytes
  assumes "distinct ids"
  shows "does (ds_view db sent) (gather_chunks env ids combined)
    (\<lambda>v x v'. x = combined @ concat (map (staged_bytes (fst v)) ids) \<and> snd v' = snd v \<and>
       fst v' = (\<lambda>k. if \<exists>i \<in> set ids. k = data_key i 0 [] then None else fst v k))"
  using assms
proof (induction ids arbitrary: combined)
  case Nil
  show ?case by (simp add: does_def ret_def)
next
  case (Cons i ids)
  have other: "staged_bytes (d(data_key i 0 [] := None)) j = staged_bytes d j" if "j \<noteq> i" for d j
    using that by (simp add: staged_bytes_def db_get_def)
  have map: "map (staged_bytes (d(data_key i 0 [] := None))) ids = map (staged_bytes d) ids" for d
    using Cons.prems by (intro map_cong refl other) auto
  have 1: "does (ds_view db sent) (op_bind (ds_redis (redis_del (dp_redis env) (data_key i 0 []))) (\<lambda>_. gather_chunks env ids c))
      (\<lambda>v x v'. x = c @ concat (map (staged_bytes (fst v)) ids) \<and> snd v' = snd v \<and>
         fst v' = (\<lambda>k. if \<exists>j \<in> set (i # ids). k = data_key j 0 [] then None else fst v k))" for c
  proof (rule does_bind [OF does_redis_eff [OF yields_del] Cons.IH])
    show "distinct ids" using Cons.prems by simp
    fix v x v' y v''
    assume "x = () \<and> v' = ((fst v)(data_key i 0 [] := None), snd v)"
      "y = c @ concat (map (staged_bytes (fst v')) ids) \<and> snd v'' = snd v' \<and>
       fst v'' = (\<lambda>k. if \<exists>j \<in> set ids. k = data_key j 0 [] then None else fst v' k)"
    then show "y = c @ concat (map (staged_bytes (fst v)) ids) \<and> snd v'' = snd v \<and>
       fst v'' = (\<lambda>k. if \<exists>j \<in> set (i # ids). k = data_key j 0 [] then None else fst v k)"
      by (simp only: fst_conv snd_conv map) (auto simp: fun_eq_iff)
  qed
  show ?case
    unfolding gather_chunks.simps
    by (rule does_bind [OF does_redis_eff [OF yields_get_binary] 1]) (auto simp flip: staged_bytes_def)
qed

lemma does_stage:
  assumes "distinct (l_children l)"
  shows "does (ds_view db sent) (stage_aggregate env l)
    (\<lambda>v x v'. v' = (gathered (l_id l) (l_children l) (fst v), snd v))"
  unfolding stage_aggregate_def
  by (rule does_bind [OF does_gather [OF assms] does_redis_eff [OF yields_set_binary]])
     (auto simp: gathered_def fun_eq_iff prod_eq_iff)

lemma does_redirect:
  "does (ds_view db sent) (redirect_reply env fo l)
    (\<lambda>v l' v'. v' = v \<and> (\<exists>reply. l' = l\<lparr>l_reply_to := reply\<rparr>) \<and> (fo (l_id l) = None \<longrightarrow> l' = l))"
  unfolding does_def
proof
  fix d :: "('s, 'n, 'r) dispatcher"
  show "\<exists>l' d'. redirect_reply env fo l d = (Inr l', d') \<and> ds_view db sent d' = ds_view db sent d \<and>
      (\<exists>reply. l' = l\<lparr>l_reply_to := reply\<rparr>) \<and> (fo (l_id l) = None \<longrightarrow> l' = l)"
  proof (cases "fo (l_id l)")
    case None
    then show ?thesis by (auto simp: redirect_reply_def ret_def intro!: exI [of _ "l_reply_to l"])
  next
    case (Some replies)
    let ?c = "io_nats (ds_io d)"
    have "\<exists>p c. ensure_inbox_sub (dp_nats env) ?c = (Inr p, c) \<and> sent (nc_lib c) = sent (nc_lib ?c)"
      using inbox_law [of "nc_lib ?c"] subscribe_law
      by (auto simp: ensure_inbox_sub_def ret_def Let_def case_prod_beta split: option.split)
    then obtain p c where "ensure_inbox_sub (dp_nats env) ?c = (Inr p, c)" "sent (nc_lib c) = sent (nc_lib ?c)" by blast
    then show ?thesis
      using Some by (auto simp: redirect_reply_def op_bind_def ds_nats_def on_nats_def create_reply_inbox_def ret_def
          ds_update_def ds_view_def io_view_def Let_def)
  qed
qed

lemma does_prepare:
  assumes "distinct (l_children l)"
  shows "does (ds_view db sent) (prepare_aggregate env fo l)
    (\<lambda>v l' v'. (\<exists>reply. l' = l\<lparr>l_reply_to := reply\<rparr>) \<and>
       v' = (if is_aggregated l then gathered (l_id l) (l_children l) (fst v) else fst v, snd v))"
proof (cases "is_aggregated l")
  case True
  then show ?thesis
    unfolding prepare_aggregate_def if_P [OF True]
    by (intro does_bind [OF does_stage [OF assms] does_redirect]) auto
next
  case False
  have "l = l\<lparr>l_reply_to := l_reply_to l\<rparr>" by simp
  then show ?thesis
    unfolding prepare_aggregate_def if_not_P [OF False] by (intro does_ret) (auto simp: False intro: exI [of _ "l_reply_to l"])
qed

lemma does_target: "does (ds_view db sent) (write_target env l) (\<lambda>v x v'. v' = v)"
proof -
  have "does (ds_view db sent) (op_bind (ds_redis (get_file_location (dp_redis env) path)) (\<lambda>loc.
      ret (case loc of None \<Rightarrow> None | Some w \<Rightarrow> if w > 0 then Some w else None))) (\<lambda>v x v'. v' = v)" for path
    by (rule does_bind [OF does_redis_eff [OF yields_get_file_location] does_ret [where R = "\<lambda>v x v'. v' = v"]]) auto
  then show ?thesis by (auto simp: write_target_def intro!: does_ret split: pointer.split)
qed

lemma does_independent:
  assumes "available_ids ws \<noteq> []" "distinct (l_children l)"
  shows "does (ds_view db sent) (dispatch_independent env ws fo l)
    (\<lambda>v x v'. (\<exists>m. carries env ws l m \<and> snd v' = snd v @ [m]) \<and>
       (\<forall>k. \<not> book_key k \<longrightarrow> fst v' k = (if is_aggregated l then gathered (l_id l) (l_children l) (fst v) else fst v) k))"
proof -
  let ?m = "\<lambda>w policy l'. (worker_subject w, [], serialize_label (dp_enc env) (scheduled env ws w policy l'))"
  let ?T = "\<lambda>l' v x v'. (\<exists>w policy. snd v' = snd v @ [?m w policy l']) \<and> (\<forall>k. \<not> book_key k \<longrightarrow> fst v' k = fst v k)"
  have carried: "carries env ws l (?m w policy (l\<lparr>l_reply_to := reply\<rparr>))" for w policy reply
    unfolding carries_def by blast
  have send: "does (ds_view db sent) (op_bind (send_label env w (scheduled env ws w policy l')) (\<lambda>_. ret x)) (?T l')"
    for w policy l' and x :: "schedule_entry list"
    by (rule does_bind [OF does_send does_ret [where R = "\<lambda>v x v'. v' = v"]]) auto
  have routed: "does (ds_view db sent)
      (case target of
         Some w \<Rightarrow> (let l2 = scheduled env ws w ''write-locality'' l' in op_bind (send_label env w l2) (\<lambda>_. ret [entry_for w l2]))
       | None \<Rightarrow> op_bind (select_worker env ws (l_intent l')) (\<lambda>chosen.
           case chosen of
             None \<Rightarrow> ret []
           | Some w \<Rightarrow> (let l2 = scheduled env ws w (c_scheduler_policy (dp_config env)) l'
               in op_bind (record_write env w l2) (\<lambda>_. op_bind (send_label env w l2) (\<lambda>_. ret [entry_for w l2]))))) (?T l')"
    for target l'
  proof (cases target)
    case (Some w)
    then show ?thesis by (simp only: option.case Let_def send)
  next
    case None
    have "does (ds_view db sent) (case chosen of None \<Rightarrow> ret [] | Some w \<Rightarrow>
        (let l2 = scheduled env ws w (c_scheduler_policy (dp_config env)) l'
         in op_bind (record_write env w l2) (\<lambda>_. op_bind (send_label env w l2) (\<lambda>_. ret [entry_for w l2]))))
        (\<lambda>v x v'. chosen \<noteq> None \<longrightarrow> ?T l' v x v')" for chosen
    proof (cases chosen)
      case (Some w)
      show ?thesis
        unfolding Some option.case Let_def by (rule does_bind [OF does_record_write send]) auto
    qed (simp add: does_ret)
    then show ?thesis
      unfolding None option.case by (rule does_bind [OF does_select [OF assms(1)]]) auto
  qed
  show ?thesis
    unfolding dispatch_independent_def
  proof (rule does_bind [OF does_prepare [OF assms(2)]])
    show "does (ds_view db sent) (op_bind (write_target env l') (\<lambda>target.
      case target of
         Some w \<Rightarrow> (let l2 = scheduled env ws w ''write-locality'' l' in op_bind (send_label env w l2) (\<lambda>_. ret [entry_for w l2]))
       | None \<Rightarrow> op_bind (select_worker env ws (l_intent l')) (\<lambda>chosen.
           case chosen of
             None \<Rightarrow> ret []
           | Some w \<Rightarrow> (let l2 = scheduled env ws w (c_scheduler_policy (dp_config env)) l'
               in op_bind (record_write env w l2) (\<lambda>_. op_bind (send_label env w l2) (\<lambda>_. ret [entry_for w l2])))))) (?T l')" for l'
      by (rule does_bind [OF does_target routed]) auto
  qed (use carried in auto)
qed

lemma does_each:
  assumes "available_ids ws \<noteq> []" "\<forall>l \<in> set ls. distinct (l_children l)"
  shows "does (ds_view db sent) (dispatch_each env ws fo ls sched)
    (\<lambda>v x v'. (\<exists>ms. snd v' = snd v @ ms \<and> list_all2 (carries env ws) ls ms) \<and>
       (\<forall>k. \<not> book_key k \<longrightarrow> (\<forall>i. k \<noteq> data_key i 0 []) \<longrightarrow> fst v' k = fst v k))"
  using assms(2)
proof (induction ls arbitrary: sched)
  case Nil
  show ?case by (simp add: does_def ret_def)
next
  case (Cons l ls)
  show ?case
    unfolding dispatch_each.simps
    by (rule does_bind [OF does_independent [OF assms(1)] Cons.IH]) (use Cons.prems in \<open>auto simp: gathered_def split: if_splits\<close>)
qed

lemma does_result:
  assumes "available_ids ws \<noteq> []" "distinct (map (l_id \<circ> composite) (supertasks r))"
    and "\<forall>l \<in> set (independent r). distinct (l_children l)"
  shows "does (ds_view db sent) (dispatch_result env ws r)
    (\<lambda>v x v'. (\<exists>ms. snd v' = snd v @ ms \<and>
         list_all2 (carries env ws) (map fst (direct_route r) @ map composite (supertasks r) @ independent r) ms) \<and>
       list_all (\<lambda>st. packed env ws st (fst v')) (supertasks r))"
proof -
  let ?sched = "\<lambda>es. ds_redis (schedule_batch (dp_redis env) (now_text env) es)"
  have 1: "does (ds_view db sent) (op_bind (dispatch_direct env ws (direct_route r) []) ?sched)
      (\<lambda>v x v'. \<exists>ms. snd v' = snd v @ ms \<and> list_all2 (carries env ws) (map fst (direct_route r)) ms)"
    by (rule does_bind [OF does_direct does_schedule]) auto
  have 3: "does (ds_view db sent) (op_bind (dispatch_each env ws (reply_fanout r) (independent r) []) ?sched)
      (\<lambda>v x v'. (\<exists>ms. snd v' = snd v @ ms \<and> list_all2 (carries env ws) (independent r) ms) \<and>
        (\<forall>i. fst v' (pack_key i) = fst v (pack_key i)))"
    by (rule does_bind [OF does_each [OF assms(1,3)] does_schedule]) auto
  have 2: "does (ds_view db sent) (op_bind (op_each (dispatch_supertask env ws) (supertasks r)) (\<lambda>_.
        op_bind (dispatch_each env ws (reply_fanout r) (independent r) []) ?sched))
      (\<lambda>v x v'. (\<exists>ms. snd v' = snd v @ ms \<and> list_all2 (carries env ws) (map composite (supertasks r) @ independent r) ms) \<and>
        list_all (\<lambda>st. packed env ws st (fst v')) (supertasks r))"
  proof (rule does_bind [OF does_supertasks [OF assms(1,2)] 3], goal_cases)
    case (1 v x v' y v'')
    then obtain ms ms' where "snd v'' = snd v @ ms @ ms'" "list_all2 (carries env ws) (map composite (supertasks r)) ms"
      "list_all2 (carries env ws) (independent r) ms'" by auto
    moreover have "list_all (\<lambda>st. packed env ws st (fst v'')) (supertasks r)" using 1 by (auto simp: packed_def list_all_iff)
    ultimately show ?case by (blast intro: list_all2_appendI)
  qed
  show ?thesis
    unfolding dispatch_result_def
  proof (rule does_bind [OF 1 2], goal_cases)
    case (1 v x v' y v'')
    then obtain ms ms' where "snd v'' = snd v @ ms @ ms'" "list_all2 (carries env ws) (map fst (direct_route r)) ms"
      "list_all2 (carries env ws) (map composite (supertasks r) @ independent r) ms'" by auto
    then show ?case using 1 by (blast intro: list_all2_appendI)
  qed
qed

lemma does_locate: "does (ds_view db sent) (ds_redis (get_location (dp_redis env) f off len)) (\<lambda>v x v'. v' = v)"
  unfolding does_def
proof
  fix d :: "('s, 'n, 'c) dispatcher"
  obtain x s where "get_location (dp_redis env) f off len (io_redis (ds_io d)) = (Inr x, s)" "db s = db (io_redis (ds_io d))"
    using get_location_answers by blast
  then show "\<exists>x d'. ds_redis (get_location (dp_redis env) f off len) d = (Inr x, d') \<and> ds_view db sent d' = ds_view db sent d"
    by (simp add: ds_redis_def on_redis_def ds_view_def io_view_def)
qed

lemma does_route:
  "does (ds_view db sent) (route_located env ls)
    (\<lambda>v x v'. v' = v \<and> mset (map fst (fst x) @ snd x) = mset ls)"
proof (induction ls)
  case Nil
  show ?case by (simp add: does_def ret_def)
next
  case (Cons l ls)
  have tail: "does (ds_view db sent) (op_bind (route_located env ls) (\<lambda>(direct, indep).
      ret (case loc of Some w \<Rightarrow> ((l, w) # direct, indep) | None \<Rightarrow> (direct, l # indep))))
      (\<lambda>v x v'. v' = v \<and> mset (map fst (fst x) @ snd x) = mset (l # ls))" for loc
  proof (rule does_bind [OF Cons.IH])
    show "does (ds_view db sent) (case p of (direct, indep) \<Rightarrow>
        ret (case loc of Some w \<Rightarrow> ((l, w) # direct, indep) | None \<Rightarrow> (direct, l # indep)))
        (\<lambda>v x v'. v' = v \<and> mset (map fst (fst x) @ snd x) = add_mset l (mset (map fst (fst p) @ snd p)))" for p
      by (cases p; cases loc) (auto intro: does_ret)
  qed auto
  have head: "does (ds_view db sent) (if l_type l = Read
      then ds_redis (get_location (dp_redis env) (l_file_key l) (r_offset (label_range l)) (r_length (label_range l)))
      else ret None) (\<lambda>v x v'. v' = v)"
    by (rule does_if [OF does_locate does_ret]) simp
  show ?case
    unfolding route_located.simps by (rule does_bind [OF head tail]) auto
qed

lemma does_shuffle:
  "does (ds_view db sent) (shuffle_located env batch)
    (\<lambda>v r v'. v' = v \<and> (let r0 = shuffle (dispatcher_shuffler env) batch None in
       supertasks r = supertasks r0 \<and> reply_fanout r = reply_fanout r0 \<and>
       mset (map fst (direct_route r) @ independent r) = mset (independent r0) \<and> direct_route r0 = []))"
proof -
  let ?cfg = "dispatcher_shuffler env"
  obtain merged fo where a: "aggregate ?cfg batch = (merged, fo)" by fastforce
  obtain tasks rest where b: "build_supertasks (dep_granularity ?cfg) (detect_dependencies (dep_granularity ?cfg) merged) = (tasks, rest)"
    by fastforce
  have all: "route_reads None ls = ([], ls)" for ls by (induction ls) simp_all
  have r0: "shuffle ?cfg batch None = \<lparr>direct_route = [], supertasks = tasks, independent = rest, reply_fanout = fo\<rparr>"
    by (simp add: shuffle_def a b all Let_def)
  show ?thesis
    unfolding shuffle_located_def Let_def a b case_prod_conv r0
  proof (rule does_bind [OF does_route])
    show "does (ds_view db sent) (case p of (direct, indep) \<Rightarrow>
        ret \<lparr>direct_route = direct, supertasks = tasks, independent = indep, reply_fanout = fo\<rparr>)
        (\<lambda>v r v'. v' = v \<and> r = \<lparr>direct_route = fst p, supertasks = tasks, independent = snd p, reply_fanout = fo\<rparr>)" for p
      by (cases p) (auto intro: does_ret)
  qed auto
qed

end

subsection \<open>What shuffling makes of a batch\<close>

text \<open>A label that is not composite and whose children, if any, are the labels it stands for.\<close>

definition plain :: "label_data \<Rightarrow> bool" where
  "plain l \<longleftrightarrow> l_type l \<noteq> Composite \<and> (l_children l = [] \<or> l_children l = origin_ids l)"

lemma plain_merge_run: "plain (merge_run w run)"
  by (simp add: plain_def)

lemma plain_bare [simp]: "plain (bare l) = plain l"
  by (simp add: plain_def bare_def origin_ids_def)

lemma merge_writes_plain: "\<forall>w \<in> set ws. plain w \<Longrightarrow> \<forall>l \<in> set (fst (merge_writes ws fo)). plain l"
proof (induction "length ws" arbitrary: ws fo rule: less_induct)
  case less
  show ?case
  proof (cases ws)
    case (Cons w ws')
    obtain run rest where r: "take_run (dest_offset w + l_data_size w) ws' = (run, rest)" by fastforce
    have split: "ws' = run @ rest" using take_run_split [OF r] .
    then have "\<forall>l \<in> set (fst (merge_writes rest fo')). plain l" for fo'
      using less.prems Cons by (intro less.hyps) auto
    then show ?thesis
      using Cons split less.prems plain_merge_run by (auto simp: merge_writes_Cons [OF r [unfolded split]])
  qed simp
qed

lemma aggregate_plain:
  assumes "\<forall>l \<in> set batch. plain l"
  shows "\<forall>l \<in> set (fst (aggregate cfg batch)). plain l"
proof -
  have grp: "\<forall>l \<in> set (fst (aggregate_group grp fo)). plain l" if "\<forall>l \<in> set grp. plain l" for grp fo
  proof -
    obtain merged fo' where m: "merge_writes (sort_key dest_offset (filter (\<lambda>l. l_type l = Write) grp)) fo = (merged, fo')" by fastforce
    have "\<forall>l \<in> set merged. plain l"
      using merge_writes_plain [of "sort_key dest_offset (filter (\<lambda>l. l_type l = Write) grp)" fo] that m by simp
    then show ?thesis using that by (simp add: aggregate_group_def m ball_Un)
  qed
  have "\<forall>l \<in> set (fst (aggregate_groups gs fo)). plain l" if "\<forall>(k, ls) \<in> set gs. \<forall>l \<in> set ls. plain l" for gs fo
    using that
  proof (induction gs fo rule: aggregate_groups.induct)
    case (2 key g gs fo)
    obtain out fo1 where o: "aggregate_group g fo = (out, fo1)" by fastforce
    obtain out' fo2 where o': "aggregate_groups gs fo1 = (out', fo2)" by fastforce
    have "\<forall>l \<in> set out. plain l" using grp [of g fo] 2(2) o by simp
    moreover have "\<forall>l \<in> set out'. plain l" using "2.IH" [OF o [symmetric] refl] 2(2) o' by simp
    ultimately show ?case by (simp add: o o' ball_Un)
  qed simp
  moreover have "\<forall>(k, ls) \<in> set (group_by l_file_key batch). \<forall>l \<in> set ls. plain l"
    using assms group_by_memD(1) [of _ _ l_file_key batch] by fastforce
  ultimately show ?thesis using assms by (simp add: aggregate_def)
qed

lemma bare_member: "mset (map bare xs) = mset (map bare ys) \<Longrightarrow> x \<in> set xs \<Longrightarrow> \<exists>y \<in> set ys. bare x = bare y"
  by (metis (no_types, lifting) imageE imageI list.set_map mset_eq_setD)

lemma routed_plain:
  assumes "\<forall>l \<in> set batch. plain l"
  shows "\<forall>l \<in> set (routed (shuffle cfg batch lookup)). plain l"
  using bare_member [OF shuffle_mset] aggregate_plain [OF assms] plain_bare by metis

lemma supertask_shape:
  assumes "st \<in> set (supertasks (shuffle cfg batch lookup))"
  shows "l_type (composite st) = Composite" "st_children st \<noteq> []" "l_id (composite st) = hd (map l_id (st_children st))"
proof -
  obtain labels where "supertasks (shuffle cfg batch lookup) = fst (build_supertasks (dep_granularity cfg) labels)"
    unfolding shuffle_supertasks by blast
  then obtain k grp where st: "st = make_supertask grp" "(k, grp) \<in> set (group_by (group_key (dep_granularity cfg))
      (filter (\<lambda>l. l_id l \<in> involved_ids labels) labels))"
    using assms by (auto simp: build_supertasks_def Let_def)
  have "grp \<noteq> []" using group_by_memD(2) [OF st(2)] .
  then have "sort_key l_id grp \<noteq> []" by (metis length_0_conv length_sort)
  then show "l_type (composite st) = Composite" "st_children st \<noteq> []" "l_id (composite st) = hd (map l_id (st_children st))"
    by (cases "sort_key l_id grp"; simp add: st(1) make_supertask_def Let_def)+
qed

lemma distinct_origins:
  assumes "\<forall>w \<in> set batch. unmerged w" "distinct (map l_id batch)"
  shows "distinct (concat (map origin_ids (routed (shuffle cfg batch lookup))))"
  using shuffle_ids [OF assms(1)] assms(2) mset_eq_imp_distinct_iff by blast

lemma composites_distinct:
  assumes "\<forall>w \<in> set batch. unmerged w \<and> l_dependencies w = []" "distinct (map l_id batch)"
  shows "distinct (map (l_id \<circ> composite) (supertasks (shuffle cfg batch lookup)))"
proof -
  let ?r = "shuffle cfg batch lookup"
  have ids: "map l_id (map bare ls) = map l_id ls" for ls by simp
  have "mset (map l_id (map bare (routed ?r))) = mset (map l_id (map bare (fst (aggregate cfg batch))))"
    using shuffle_mset [of cfg batch lookup] by (metis mset_map)
  then have "mset (map l_id (routed ?r)) = mset (map l_id (fst (aggregate cfg batch)))"
    unfolding ids .
  from mset_eq_imp_distinct_iff [OF this] have "distinct (map l_id (routed ?r))"
    using aggregate_distinct [OF assms, of cfg] by blast
  then have "distinct (concat (map (\<lambda>st. map l_id (st_children st)) (supertasks ?r)))"
    by (simp add: routed_def map_concat comp_def)
  then have "distinct (map (hd \<circ> (\<lambda>st. map l_id (st_children st))) (supertasks ?r))"
    by (rule distinct_heads) (use supertask_shape(2) in blast)
  moreover have "map (hd \<circ> (\<lambda>st. map l_id (st_children st))) (supertasks ?r) = map (l_id \<circ> composite) (supertasks ?r)"
    using supertask_shape(3) by (intro map_cong) auto
  ultimately show ?thesis by simp
qed

subsection \<open>Every label is delivered once\<close>

text \<open>
  What a worker that receives a message finds to execute: the label itself or, for a composite, the
  labels packed under its identifier.
\<close>

definition delivers :: "('s, 'n, 'r) dispatcher_env \<Rightarrow> redis_db \<Rightarrow> nats_message \<Rightarrow> label_data list \<Rightarrow> bool" where
  "delivers env d m ls \<longleftrightarrow> (\<exists>w l. m = (worker_subject w, [], serialize_label (dp_enc env) l) \<and>
     (if l_type l = Composite then d (pack_key (l_id l)) = Some (pack_value env ls) else ls = [l]))"

lemma carries_delivers:
  assumes "list_all2 (carries env ws) ls msgs" "\<forall>l \<in> set ls. l_type l \<noteq> Composite"
  shows "\<exists>dss. list_all2 (delivers env d) msgs dss \<and> map origin_ids (concat dss) = map origin_ids ls"
  using assms
proof (induction rule: list_all2_induct)
  case (Cons l ls m msgs)
  obtain w policy reply where m: "m = (worker_subject w, [], serialize_label (dp_enc env) (scheduled env ws w policy (l\<lparr>l_reply_to := reply\<rparr>)))"
    using Cons.hyps(1) unfolding carries_def by blast
  let ?l = "scheduled env ws w policy (l\<lparr>l_reply_to := reply\<rparr>)"
  obtain dss where dss: "list_all2 (delivers env d) msgs dss" "map origin_ids (concat dss) = map origin_ids ls" using Cons by auto
  have "delivers env d m [?l]"
    unfolding delivers_def by (intro exI [of _ w] exI [of _ ?l]) (simp add: m Cons.prems)
  then have "list_all2 (delivers env d) (m # msgs) ([?l] # dss)" using dss by simp
  moreover have "origin_ids (l\<lparr>l_reply_to := reply\<rparr>) = origin_ids l" by (simp add: origin_ids_def)
  ultimately show ?case using dss(2) by (intro exI [of _ "[?l] # dss"]) simp
qed simp

lemma packs_deliver:
  assumes "list_all2 (carries env ws) (map composite sts) msgs" "list_all (\<lambda>st. packed env ws st d) sts"
    and "\<forall>st \<in> set sts. l_type (composite st) = Composite"
  shows "\<exists>dss. list_all2 (delivers env d) msgs dss \<and> map origin_ids (concat dss) = map origin_ids (concat (map st_children sts))"
  using assms
proof (induction sts arbitrary: msgs)
  case (Cons st sts)
  then obtain m ms' where ms: "msgs = m # ms'" "carries env ws (composite st) m" "list_all2 (carries env ws) (map composite sts) ms'"
    by (cases msgs) auto
  obtain dss where dss: "list_all2 (delivers env d) ms' dss" "map origin_ids (concat dss) = map origin_ids (concat (map st_children sts))"
    using Cons ms by auto
  obtain w policy where p: "d (pack_key (l_id (composite st))) = Some (pack_value env (map (scheduled env ws w policy) (st_children st)))"
    using Cons.prems by (auto simp: packed_def)
  obtain w' policy' reply where m: "m = (worker_subject w', [], serialize_label (dp_enc env) (scheduled env ws w' policy' ((composite st)\<lparr>l_reply_to := reply\<rparr>)))"
    using ms(2) unfolding carries_def by blast
  let ?l = "scheduled env ws w' policy' ((composite st)\<lparr>l_reply_to := reply\<rparr>)"
  have "delivers env d m (map (scheduled env ws w policy) (st_children st))"
    unfolding delivers_def by (intro exI [of _ w'] exI [of _ ?l]) (use Cons.prems p in \<open>simp add: m\<close>)
  then show ?case
    using dss ms by (intro exI [of _ "map (scheduled env ws w policy) (st_children st) # dss"]) (simp add: comp_def)
qed simp

lemma shuffled_mark [simp]:
  "l_id (mark_label_shuffled now ts l) = l_id l" "l_type (mark_label_shuffled now ts l) = l_type l"
  "l_children (mark_label_shuffled now ts l) = l_children l" "l_pipeline (mark_label_shuffled now ts l) = l_pipeline l"
  "l_data_size (mark_label_shuffled now ts l) = l_data_size l" "l_destination (mark_label_shuffled now ts l) = l_destination l"
  "origin_ids (mark_label_shuffled now ts l) = origin_ids l"
  by (simp_all add: mark_label_shuffled_def append_label_hop_def stamp_created_def Let_def origin_ids_def)

text \<open>What a result sends out: the labels that go by themselves, and the composites.\<close>

lemma result_delivers:
  assumes "list_all2 (carries env ws) (map fst (direct_route r) @ map composite (supertasks r) @ independent r) msgs"
    and "list_all (\<lambda>st. packed env ws st d) (supertasks r)"
    and "\<forall>l \<in> set (map fst (direct_route r) @ independent r). l_type l \<noteq> Composite"
    and "\<forall>st \<in> set (supertasks r). l_type (composite st) = Composite"
  shows "\<exists>dss. list_all2 (delivers env d) msgs dss \<and> map origin_ids (concat dss) = map origin_ids (routed r)"
proof -
  obtain m1 m2 m3 where m: "msgs = m1 @ m2 @ m3" "list_all2 (carries env ws) (map fst (direct_route r)) m1"
    "list_all2 (carries env ws) (map composite (supertasks r)) m2" "list_all2 (carries env ws) (independent r) m3"
    using assms(1) unfolding list_all2_append1 by blast
  obtain d1 where d1: "list_all2 (delivers env d) m1 d1" "map origin_ids (concat d1) = map origin_ids (map fst (direct_route r))"
    using carries_delivers [OF m(2), of d] assms(3) unfolding set_append ball_Un by blast
  obtain d2 where d2: "list_all2 (delivers env d) m2 d2" "map origin_ids (concat d2) = map origin_ids (concat (map st_children (supertasks r)))"
    using packs_deliver [OF m(3) assms(2,4)] by blast
  obtain d3 where d3: "list_all2 (delivers env d) m3 d3" "map origin_ids (concat d3) = map origin_ids (independent r)"
    using carries_delivers [OF m(4), of d] assms(3) unfolding set_append ball_Un by blast
  show ?thesis
    by (intro exI [of _ "d1 @ d2 @ d3"]) (use m(1) d1 d2 d3 in \<open>simp add: routed_def list_all2_appendI\<close>)
qed

lemma mark_result_facts:
  "map fst (direct_route (mark_result now r)) = map (mark_label_shuffled now now) (map fst (direct_route r))"
  "independent (mark_result now r) = map (mark_label_shuffled now now) (independent r)"
  "map (l_id \<circ> composite) (supertasks (mark_result now r)) = map (l_id \<circ> composite) (supertasks r)"
  "\<forall>st \<in> set (supertasks r). l_type (composite st) = Composite \<Longrightarrow>
   \<forall>st \<in> set (supertasks (mark_result now r)). l_type (composite st) = Composite"
  "map origin_ids (routed (mark_result now r)) = map origin_ids (routed r)"
  by (auto simp: mark_result_def Let_def routed_def case_prod_beta comp_def map_concat)

lemma keeps_workers [keeps_rules]: "keeps (\<lambda>d. ds_workers d = ws) (ds_redis m)"
  by (simp add: keeps_def ds_redis_def case_prod_beta Let_def)

lemma keeps_workers_route [keeps_rules]: "keeps (\<lambda>d. ds_workers d = ws) (route_located env ls)"
  by (induction ls) (auto simp: case_prod_beta intro!: keeps_rules)

lemma keeps_workers_shuffle: "keeps (\<lambda>d. ds_workers d = ws) (shuffle_located env batch)"
  by (auto simp: shuffle_located_def Let_def case_prod_beta intro!: keeps_rules)

text \<open>
  C3: Every label of a batch is delivered exactly once. When some worker is available, dispatching a batch
  of fresh labels with distinct identifiers succeeds; each message it publishes goes to a worker's
  subject, and what the worker finds to execute for it - the label it carries or, for a composite, the
  labels packed in the warehouse - stands, taken over all messages, for exactly the labels of the batch
  (a merged write stands for the writes of its run).
\<close>

theorem batch_delivered:
  assumes "io_link (dp_redis env) db (dp_nats env) sent" "list_ex w_available (ds_workers d)"
    and "\<forall>l \<in> set batch. unmerged l \<and> l_dependencies l = [] \<and> l_type l \<noteq> Composite" "distinct (map l_id batch)"
  shows "\<exists>d' msgs dss. dispatch_labels env batch d = (Inr (), d') \<and>
    sent (nc_lib (io_nats (ds_io d'))) = sent (nc_lib (io_nats (ds_io d))) @ msgs \<and>
    list_all2 (delivers env (db (io_redis (ds_io d')))) msgs dss \<and>
    mset (concat (map origin_ids (concat dss))) = mset (map l_id batch)"
proof -
  have link: "dispatcher_link env db sent" using assms(1) by (simp add: dispatcher_link_def)
  let ?cfg = "dispatcher_shuffler env" and ?ws = "ds_workers d"
  let ?r0 = "shuffle ?cfg batch None"
  have avail: "available_ids ?ws \<noteq> []" "?ws \<noteq> []"
    using assms(2) by (auto simp: available_ids_def list_ex_iff filter_empty_conv)
  obtain r d1 where r: "shuffle_located env batch d = (Inr r, d1)" "ds_view db sent d1 = ds_view db sent d"
    "supertasks r = supertasks ?r0" "mset (map fst (direct_route r) @ independent r) = mset (independent ?r0)" "direct_route ?r0 = []"
    using dispatcher_link.does_shuffle [OF link, of batch] unfolding does_def Let_def by metis
  have ws: "ds_workers d1 = ?ws" using keeps_workers_shuffle [of ?ws env batch] r(1) by (auto simp: keeps_def)
  let ?m = "mark_result (dp_now_us env) r"
  have mem: "set (map fst (direct_route r) @ independent r) \<subseteq> set (routed ?r0)"
    using mset_eq_setD [OF r(4)] by (auto simp: routed_def)
  have plain: "\<forall>l \<in> set (routed ?r0). plain l"
    using assms(3) by (intro routed_plain) (simp add: plain_def unmerged_def)
  have own: "\<forall>l \<in> set (map fst (direct_route ?m) @ independent ?m). l_type l \<noteq> Composite"
    unfolding mark_result_facts using plain mem by (auto simp: plain_def)
  have "\<forall>l \<in> set (routed ?r0). distinct (origin_ids l)"
    using distinct_origins [of batch ?cfg None] assms(3,4) by (auto simp: distinct_concat_iff)
  then have children: "\<forall>l \<in> set (independent ?m). distinct (l_children l)"
    unfolding mark_result_facts using plain mem by (fastforce simp: plain_def)
  have ids: "distinct (map (l_id \<circ> composite) (supertasks ?m))"
    unfolding mark_result_facts r(3) using assms(3,4) by (intro composites_distinct) auto
  have composites: "\<forall>st \<in> set (supertasks ?m). l_type (composite st) = Composite"
    by (rule mark_result_facts(4)) (use r(3) supertask_shape(1) in auto)
  obtain x d' msgs where d': "dispatch_result env ?ws ?m d1 = (Inr x, d')" "snd (ds_view db sent d') = snd (ds_view db sent d1) @ msgs"
    "list_all2 (carries env ?ws) (map fst (direct_route ?m) @ map composite (supertasks ?m) @ independent ?m) msgs"
    "list_all (\<lambda>st. packed env ?ws st (fst (ds_view db sent d'))) (supertasks ?m)"
    using dispatcher_link.does_result [OF link avail(1) ids children] unfolding does_def by blast
  obtain dss where dss: "list_all2 (delivers env (fst (ds_view db sent d'))) msgs dss" "map origin_ids (concat dss) = map origin_ids (routed ?m)"
    using result_delivers [OF d'(3,4) own composites] by blast
  have "mset (routed r) = mset (routed ?r0)" using r(3,4,5) by (simp add: routed_def ac_simps)
  then have "mset (concat (map origin_ids (concat dss))) = mset (concat (map origin_ids (routed ?r0)))"
    unfolding dss(2) mark_result_facts by (rule mset_concat_map_cong)
  also have "\<dots> = mset (map l_id batch)" using assms(3) by (intro shuffle_ids) simp
  finally have "mset (concat (map origin_ids (concat dss))) = mset (map l_id batch)" .
  moreover have "dispatch_labels env batch d = (Inr (), d')"
    using r(1) ws avail(2) assms(2) d'(1) by (simp add: dispatch_labels_def op_bind_def Let_def ret_def)
  ultimately show ?thesis
    using d'(2) r(2) dss(1) by (auto simp: ds_view_def io_view_def)
qed

subsection \<open>Merged writes on their own\<close>

lemma staged_gathered:
  "staged_bytes (gathered i ids d) i = concat (map (staged_bytes d) ids)"
  "j \<in> set ids \<Longrightarrow> j \<noteq> i \<Longrightarrow> gathered i ids d (data_key j 0 []) = None"
  "j \<notin> set ids \<Longrightarrow> j \<noteq> i \<Longrightarrow> gathered i ids d (data_key j 0 []) = d (data_key j 0 [])"
  by (auto simp: gathered_def staged_bytes_def db_get_def)

text \<open>
  C14: A merged write that goes out by itself takes its data along: once it is dispatched, the warehouse
  holds under its identifier the bytes its parts had staged, in their order - the payload with which the
  merged write has the effect of its parts on the file - the parts' own entries are gone, no other
  label's data has changed, and one message carries it to a worker.
\<close>

theorem merged_write_staged:
  assumes "io_link (dp_redis env) db (dp_nats env) sent" "list_ex w_available ws"
    and "is_aggregated l" "distinct (l_children l)"
  shows "\<exists>es d' w l'. dispatch_independent env ws fo l d = (Inr es, d') \<and>
    sent (nc_lib (io_nats (ds_io d'))) = sent (nc_lib (io_nats (ds_io d))) @ [(worker_subject w, [], serialize_label (dp_enc env) l')] \<and>
    l_id l' = l_id l \<and> l_destination l' = l_destination l \<and>
    staged_bytes (db (io_redis (ds_io d'))) (l_id l) = label_payload (staged_bytes (db (io_redis (ds_io d)))) l \<and>
    (\<forall>j. j \<noteq> l_id l \<longrightarrow> db (io_redis (ds_io d')) (data_key j 0 []) =
       (if j \<in> set (l_children l) then None else db (io_redis (ds_io d)) (data_key j 0 [])))"
proof -
  have link: "dispatcher_link env db sent" using assms(1) by (simp add: dispatcher_link_def)
  have avail: "available_ids ws \<noteq> []" using assms(2) by (auto simp: available_ids_def list_ex_iff filter_empty_conv)
  obtain es d' m where d': "dispatch_independent env ws fo l d = (Inr es, d')" "carries env ws l m"
    "snd (ds_view db sent d') = snd (ds_view db sent d) @ [m]"
    "\<forall>k. \<not> book_key k \<longrightarrow> fst (ds_view db sent d') k = gathered (l_id l) (l_children l) (fst (ds_view db sent d)) k"
    using dispatcher_link.does_independent [OF link avail assms(4), of fo] unfolding does_def if_P [OF assms(3)] by blast
  obtain w policy reply where m: "m = (worker_subject w, [], serialize_label (dp_enc env) (scheduled env ws w policy (l\<lparr>l_reply_to := reply\<rparr>)))"
    using d'(2) unfolding carries_def by blast
  have data: "db (io_redis (ds_io d')) (data_key j 0 []) = gathered (l_id l) (l_children l) (db (io_redis (ds_io d))) (data_key j 0 [])" for j
    using d'(4) by (simp add: ds_view_def io_view_def)
  then have "staged_bytes (db (io_redis (ds_io d'))) (l_id l) = staged_bytes (gathered (l_id l) (l_children l) (db (io_redis (ds_io d)))) (l_id l)"
    by (simp add: staged_bytes_def db_get_def)
  then have "staged_bytes (db (io_redis (ds_io d'))) (l_id l) = label_payload (staged_bytes (db (io_redis (ds_io d)))) l"
    using assms(3) by (simp add: staged_gathered label_payload_def is_aggregated_def)
  moreover have "j \<noteq> l_id l \<Longrightarrow> db (io_redis (ds_io d')) (data_key j 0 []) =
       (if j \<in> set (l_children l) then None else db (io_redis (ds_io d)) (data_key j 0 []))" for j
    using data [of j] staged_gathered(2,3) [of j "l_children l" "l_id l"] by simp
  ultimately show ?thesis
    using d'(1,3) m
    by (intro exI [of _ es] exI [of _ d'] exI [of _ w] exI [of _ "scheduled env ws w policy (l\<lparr>l_reply_to := reply\<rparr>)"])
       (simp add: ds_view_def io_view_def)
qed


subsection \<open>A merged write inside a supertask\<close>

text \<open>Two adjacent writes and a read of both: the writes are merged, and the merged write and the read become a supertask.\<close>

lemma at_fields:
  "l_id (write_at i p off n a) = i" "l_type (write_at i p off n a) = Write" "l_file_key (write_at i p off n a) = p"
  "l_destination (write_at i p off n a) = FilePath p off n" "l_data_size (write_at i p off n a) = n"
  "l_reply_to (write_at i p off n a) = a" "l_dependencies (write_at i p off n a) = []" "l_children (write_at i p off n a) = []"
  "l_id (read_at i p off n) = i" "l_type (read_at i p off n) = Read" "l_file_key (read_at i p off n) = p"
  "l_source (read_at i p off n) = FilePath p off n" "l_dependencies (read_at i p off n) = []" "l_children (read_at i p off n) = []"
  by (simp_all add: at_defs)

lemma two_writes_merged:
  "fst (aggregate default_config [write_at 1 p 0 4 a, write_at 2 p 4 4 b, read_at 3 p 0 8]) =
     [read_at 3 p 0 8, merge_run (write_at 1 p 0 4 a) [write_at 2 p 4 4 b]]"
proof -
  have r: "take_run (dest_offset (write_at 1 p 0 4 a) + l_data_size (write_at 1 p 0 4 a)) [write_at 2 p 4 4 b] = ([write_at 2 p 4 4 b], [])"
    by (simp add: at_fields get_range_def)
  have m: "fst (merge_writes [write_at 1 p 0 4 a, write_at 2 p 4 4 b] fo) = [merge_run (write_at 1 p 0 4 a) [write_at 2 p 4 4 b]]" for fo
    by (simp add: merge_writes_Cons [OF r])
  show ?thesis
    by (simp add: aggregate_def default_config_def group_by_def aggregate_group_def case_prod_beta at_fields get_range_def m)
qed

lemma merged_fields:
  "l_destination (merge_run (write_at 1 p 0 4 a) [write_at 2 p 4 4 b]) = FilePath p 0 8"
  "l_data_size (merge_run (write_at 1 p 0 4 a) [write_at 2 p 4 4 b]) = 8"
  "l_pipeline (merge_run (write_at 1 p 0 4 a) [write_at 2 p 4 4 b]) = []"
  by (simp_all add: merge_run_def at_fields get_range_def Let_def default_label_def file_path_range_def)

lemma two_writes_shuffled:
  "\<exists>st c rd. supertasks (shuffle default_config [write_at 1 p 0 4 a, write_at 2 p 4 4 b, read_at 3 p 0 8] None) = [st] \<and>
     st_children st = [c, rd] \<and> l_id (composite st) = 1 \<and> l_type (composite st) = Composite \<and>
     independent (shuffle default_config [write_at 1 p 0 4 a, write_at 2 p 4 4 b, read_at 3 p 0 8] None) = [] \<and>
     l_id c = 1 \<and> l_type c = Write \<and> l_pipeline c = [] \<and> l_data_size c = 8 \<and> l_destination c = FilePath p 0 8 \<and> l_id rd = 3 \<and> l_type rd = Read"
proof -
  let ?m = "merge_run (write_at 1 p 0 4 a) [write_at 2 p 4 4 b]" and ?rd = "read_at 3 p 0 8"
  let ?rd' = "?rd\<lparr>l_dependencies := [dependency_on ?m RAW]\<rparr>"
  have hz: "hazard ?m ?rd = Some RAW"
    by (simp add: hazard_def label_range_def ranges_overlap_def at_fields get_range_def merged_fields)
  have gr: "group_by (\<lambda>i. group_key ''per-file'' ([?rd, ?m] ! i)) [0, Suc 0] = [(p, [0, Suc 0])]"
    by (simp add: group_by_def group_key_def at_fields)
  have len: "[0..<length [?rd, ?m]] = [0, Suc 0]" by (simp add: upt_rec)
  have le: "(1::u64) \<le> 3" "\<not> (3::u64) \<le> 1" by (simp_all add: word_le_nat_alt)
  have ord: "ordered_pairs (sort_key (\<lambda>i. l_id ([?rd, ?m] ! i)) [0, Suc 0]) = [(Suc 0, 0)]"
    by (simp add: at_fields le)
  have d: "detect_dependencies ''per-file'' [?rd, ?m] = [?rd', ?m]"
    unfolding detect_dependencies_def len gr by (simp add: detect_group_def add_dependency_def hz at_fields le)
  have inv: "involved_ids [?rd', ?m] = {1, 3}"
    by (auto simp: involved_ids_def dependency_on_def at_fields)
  have gk: "group_key ''per-file'' ?rd = p" "group_key ''per-file'' ?m = p"
    by (simp_all add: group_key_def at_fields)
  have b: "build_supertasks ''per-file'' [?rd', ?m] = ([make_supertask [?rd', ?m]], [])"
    by (simp add: build_supertasks_def inv Let_def group_by_def gk at_fields)
  let ?st = "make_supertask [?rd', ?m]"
  have s: "supertasks (shuffle default_config [write_at 1 p 0 4 a, write_at 2 p 4 4 b, read_at 3 p 0 8] None) = [?st]"
    "independent (shuffle default_config [write_at 1 p 0 4 a, write_at 2 p 4 4 b, read_at 3 p 0 8] None) = []"
    using two_writes_merged [of p a b] d b by (simp_all add: shuffle_def Let_def case_prod_beta default_config_def)
  have "st_children ?st = [?m\<lparr>l_supertask_id := 1\<rparr>, ?rd'\<lparr>l_supertask_id := 1\<rparr>]" "l_id (composite ?st) = 1" "l_type (composite ?st) = Composite"
    by (simp_all add: make_supertask_def Let_def at_fields le)
  then show ?thesis
    unfolding s
    by (intro exI [of _ ?st] exI [of _ "?m\<lparr>l_supertask_id := 1\<rparr>"] exI [of _ "?rd'\<lparr>l_supertask_id := 1\<rparr>"]) (simp add: merged_fields at_fields)
qed
context dispatcher_link
begin

lemma does_lone_supertask:
  assumes "available_ids ws \<noteq> []" "direct_route r = []" "supertasks r = [st]" "independent r = []"
  shows "does (ds_view db sent) (dispatch_result env ws r)
    (\<lambda>v x v'. (\<exists>m. carries env ws (composite st) m \<and> snd v' = snd v @ [m]) \<and> packed env ws st (fst v') \<and>
       (\<forall>i. staged_bytes (fst v') i = staged_bytes (fst v) i))"
proof -
  have none: "does (ds_view db sent) (ds_redis (schedule_batch (dp_redis env) (now_text env) [])) (\<lambda>v x v'. v' = v)"
    by (rule does_mono [OF does_redis_eff [OF yields_schedule_batch]]) simp
  have idle: "does (ds_view db sent) (op_bind (ret []) (\<lambda>sched. ds_redis (schedule_batch (dp_redis env) (now_text env) sched))) (\<lambda>v x v'. v' = v)"
    using none by (simp add: op_bind_ret_left)
  have same: "staged_bytes d' i = staged_bytes d i" if "d' (data_key i 0 []) = d (data_key i 0 [])" for d d' i
    using that by (simp add: staged_bytes_def db_get_def)
  have one: "does (ds_view db sent) (op_each (dispatch_supertask env ws) [st])
      (\<lambda>v x v'. (\<exists>m. carries env ws (composite st) m \<and> snd v' = snd v @ [m]) \<and> packed env ws st (fst v') \<and>
         (\<forall>i. staged_bytes (fst v') i = staged_bytes (fst v) i))"
    unfolding op_each.simps by (rule does_bind [OF does_supertask [OF assms(1)] does_ret [where R = "\<lambda>v x v'. v' = v"]]) (auto intro: same)
  have two: "does (ds_view db sent) (op_bind (op_each (dispatch_supertask env ws) [st])
        (\<lambda>_. op_bind (ret []) (\<lambda>sched. ds_redis (schedule_batch (dp_redis env) (now_text env) sched))))
      (\<lambda>v x v'. (\<exists>m. carries env ws (composite st) m \<and> snd v' = snd v @ [m]) \<and> packed env ws st (fst v') \<and>
         (\<forall>i. staged_bytes (fst v') i = staged_bytes (fst v) i))"
    by (rule does_bind [OF one idle]) simp
  show ?thesis
    unfolding dispatch_result_def assms(2-4) dispatch_direct.simps dispatch_each.simps
    by (rule does_bind [OF idle two]) simp
qed

end

text \<open>A worker writes what is staged under the label's own identifier.\<close>

lemma write_transfers_staged:
  assumes "redis_server (e_redis wenv) db" "l_pipeline l = []" "execute_write wenv l w = (Inr r, w')"
  shows "cr_bytes_transferred r = of_nat (length (staged_bytes (db (io_redis (wk_io w))) (l_id l)))"
proof -
  let ?blob = "staged_bytes (db (io_redis (wk_io w))) (l_id l)"
  obtain s where s: "retrieve (e_redis wenv) (l_id l) 0 [] (io_redis (wk_io w)) = (Inr ?blob, s)"
    using yields_run [OF redis_server.yields_get_binary [OF assms(1)] refl, of "data_key (l_id l) 0 []" "io_redis (wk_io w)"]
    by (auto simp: retrieve_def staged_bytes_def)
  have store: "cr_bytes_transferred r = of_nat (length blob)"
    if "store_label wenv l blob scheme path offset len location w1 = (Inr r, w')" for blob scheme path offset len location w1
    using that by (auto simp: store_label_def op_bind_def throw_def ret_def split: option.splits prod.splits sum.splits)
  show ?thesis
    using assms(2,3) store
    by (auto simp: execute_write_def op_bind_def wk_redis_def on_redis_def s run_label_pipeline_def ret_def throw_def Let_def
        split: if_splits pointer.splits)
qed

lemma loses_staged:
  assumes "dispatcher_link env db sent" "list_ex w_available (ds_workers d)" "dispatcher_shuffler env = default_config"
  shows "\<exists>d' msg c rd. dispatch_labels env [write_at 1 p 0 4 a, write_at 2 p 4 4 b, read_at 3 p 0 8] d = (Inr (), d') \<and>
    sent (nc_lib (io_nats (ds_io d'))) = sent (nc_lib (io_nats (ds_io d))) @ [msg] \<and>
    delivers env (db (io_redis (ds_io d'))) msg [c, rd] \<and>
    l_id c = 1 \<and> l_pipeline c = [] \<and> l_destination c = FilePath p 0 8 \<and> l_data_size c = 8 \<and>
    (\<forall>i. staged_bytes (db (io_redis (ds_io d'))) i = staged_bytes (db (io_redis (ds_io d))) i)"
proof -
  let ?batch = "[write_at 1 p 0 4 a, write_at 2 p 4 4 b, read_at 3 p 0 8]" and ?ws = "ds_workers d"
  have avail: "available_ids ?ws \<noteq> []" "?ws \<noteq> []"
    using assms(2) by (auto simp: available_ids_def list_ex_iff filter_empty_conv)
  obtain st c rd where sh: "supertasks (shuffle default_config ?batch None) = [st]" "independent (shuffle default_config ?batch None) = []"
    "st_children st = [c, rd]" "l_type (composite st) = Composite"
    and c: "l_id c = 1" "l_pipeline c = []" "l_destination c = FilePath p 0 8" "l_data_size c = 8"
    using two_writes_shuffled [of p a b] by blast
  obtain r d1 where r: "shuffle_located env ?batch d = (Inr r, d1)" "ds_view db sent d1 = ds_view db sent d"
    "supertasks r = [st]" "mset (map fst (direct_route r) @ independent r) = {#}"
    using dispatcher_link.does_shuffle [OF assms(1), of ?batch] sh(1,2) unfolding does_def Let_def assms(3) by (metis mset.simps(1))
  have ws: "ds_workers d1 = ?ws" using keeps_workers_shuffle [of ?ws env ?batch] r(1) by (auto simp: keeps_def)
  let ?mark = "mark_label_shuffled (dp_now_us env) (dp_now_us env)" and ?m = "mark_result (dp_now_us env) r"
  let ?st = "\<lparr>composite = ?mark (composite st), st_children = map ?mark (st_children st)\<rparr>"
  have m: "direct_route ?m = []" "supertasks ?m = [?st]" "independent ?m = []"
    using r(3,4) by (simp_all add: mark_result_def Let_def)
  obtain x d' msg where d': "dispatch_result env ?ws ?m d1 = (Inr x, d')" "carries env ?ws (composite ?st) msg"
    "snd (ds_view db sent d') = snd (ds_view db sent d1) @ [msg]" "packed env ?ws ?st (fst (ds_view db sent d'))"
    "\<forall>i. staged_bytes (fst (ds_view db sent d')) i = staged_bytes (fst (ds_view db sent d1)) i"
    using dispatcher_link.does_lone_supertask [OF assms(1) avail(1) m] unfolding does_def by blast
  obtain w policy where pack: "fst (ds_view db sent d') (pack_key (l_id (composite ?st))) =
      Some (pack_value env (map (scheduled env ?ws w policy) (st_children ?st)))"
    using d'(4) by (auto simp: packed_def)
  obtain w' policy' reply where msg: "msg = (worker_subject w', [], serialize_label (dp_enc env) (scheduled env ?ws w' policy' ((composite ?st)\<lparr>l_reply_to := reply\<rparr>)))"
    using d'(2) unfolding carries_def by blast
  let ?t = "scheduled env ?ws w' policy' ((composite ?st)\<lparr>l_reply_to := reply\<rparr>)"
  let ?c = "scheduled env ?ws w policy (?mark c)" and ?rd = "scheduled env ?ws w policy (?mark rd)"
  have "delivers env (fst (ds_view db sent d')) msg [?c, ?rd]"
    unfolding delivers_def by (intro exI [of _ w'] exI [of _ ?t]) (use pack sh(3,4) in \<open>simp add: msg\<close>)
  moreover have "dispatch_labels env ?batch d = (Inr (), d')"
    using r(1) ws avail(2) assms(2) d'(1) by (simp add: dispatch_labels_def op_bind_def Let_def ret_def)
  ultimately show ?thesis
    using d'(3,5) r(2) c by (intro exI [of _ d'] exI [of _ msg] exI [of _ ?c] exI [of _ ?rd]) (simp add: ds_view_def io_view_def)
qed

text \<open>
  C16: Merging loses data when the merged write ends up in a supertask. Of two adjacent writes of 4 bytes
  and a read of both, the dispatcher makes one supertask with a merged write of 8 bytes, but the staged
  data of the two writes stays where it was: a worker that executes the merged write transfers only
  what the first write had staged, and the second write's data is left in the warehouse.
\<close>

theorem supertask_merge_loses_data:
  assumes "io_link (dp_redis env) db (dp_nats env) sent" "list_ex w_available (ds_workers d)"
    and "dispatcher_shuffler env = default_config"
  shows "\<exists>d' msg c rd. dispatch_labels env [write_at 1 p 0 4 a, write_at 2 p 4 4 b, read_at 3 p 0 8] d = (Inr (), d') \<and>
    sent (nc_lib (io_nats (ds_io d'))) = sent (nc_lib (io_nats (ds_io d))) @ [msg] \<and>
    delivers env (db (io_redis (ds_io d'))) msg [c, rd] \<and> l_destination c = FilePath p 0 8 \<and> l_data_size c = 8 \<and>
    staged_bytes (db (io_redis (ds_io d'))) 2 = staged_bytes (db (io_redis (ds_io d))) 2 \<and>
    (\<forall>wenv w r w'. e_redis wenv = dp_redis env \<longrightarrow> db (io_redis (wk_io w)) = db (io_redis (ds_io d')) \<longrightarrow>
       execute_write wenv c w = (Inr r, w') \<longrightarrow>
       cr_bytes_transferred r = of_nat (length (staged_bytes (db (io_redis (ds_io d))) 1)))"
proof -
  have link: "dispatcher_link env db sent" using assms(1) by (simp add: dispatcher_link_def)
  have server: "redis_server (dp_redis env) db" using assms(1) by (rule io_link.axioms(1))
  obtain d' msg c rd where x: "dispatch_labels env [write_at 1 p 0 4 a, write_at 2 p 4 4 b, read_at 3 p 0 8] d = (Inr (), d')"
    "sent (nc_lib (io_nats (ds_io d'))) = sent (nc_lib (io_nats (ds_io d))) @ [msg]" "delivers env (db (io_redis (ds_io d'))) msg [c, rd]"
    "l_destination c = FilePath p 0 8" "l_data_size c = 8" "l_id c = 1" "l_pipeline c = []"
    and staged: "\<And>i. staged_bytes (db (io_redis (ds_io d'))) i = staged_bytes (db (io_redis (ds_io d))) i"
    using loses_staged [OF link assms(2,3), of p a b] by blast
  have "cr_bytes_transferred r = of_nat (length (staged_bytes (db (io_redis (ds_io d))) 1))"
    if "e_redis wenv = dp_redis env" "db (io_redis (wk_io w)) = db (io_redis (ds_io d'))" "execute_write wenv c w = (Inr r, w')"
    for wenv :: "('a, 'n2, 'b2) env" and w r w'
    using write_transfers_staged [of wenv db c w r w'] that server x(6,7) staged [of 1] by simp
  then show ?thesis using x staged by blast
qed

subsection \<open>Examples\<close>

definition sample_dispatcher_env :: "(ref_state, nats_message list, nat) dispatcher_env" where
  "sample_dispatcher_env =
     \<lparr>dp_redis = ref_exec, dp_nats = ref_lib, dp_enc = (\<lambda>fb. bytes_of_string (u64_to_string (fb_id fb))), dp_dec = (\<lambda>b. serialize_label_core default_label), dp_encc = (\<lambda>c. []),
      dp_config = default_cfg, dp_profile = default_profile, dp_draw = (\<lambda>r n. (0, r)), dp_now_us = 5, dp_now_ms = 6,
      dp_new_id = 7, dp_nats_connected = True, dp_redis_connected = True, dp_set_order = (\<lambda>ns. ns), dp_world = (\<lambda>io. io)\<rparr>"

definition sample_dispatcher :: "(ref_state, nats_message list, nat) dispatcher" where
  "sample_dispatcher =
     \<lparr>ds_io = \<lparr>io_redis = [(data_key 1 0 [], LStr ''abcd''), (data_key 2 0 [], LStr ''efgh'')], io_nats = ref_conn\<rparr>,
      ds_channels = [], ds_workers = [default_worker 1, default_worker 2], ds_buffer = [], ds_cursor = 0, ds_random = 0,
      ds_telemetry = new_telemetry, ds_fanouts = []\<rparr>"

lemma sample_link: "io_link (dp_redis sample_dispatcher_env) ref_db (dp_nats sample_dispatcher_env) (\<lambda>ms. ms)"
  by (simp add: sample_dispatcher_env_def ref_io.io_link_axioms)

lemma sample_available: "list_ex w_available (ds_workers sample_dispatcher)"
  by (simp add: sample_dispatcher_def default_worker_def)

interpretation ref_dispatcher: dispatcher_link sample_dispatcher_env ref_db "\<lambda>ms. ms"
  using sample_link by (simp add: dispatcher_link_def)

theorem batch_delivered_witness:
  "\<exists>d' msgs dss. dispatch_labels sample_dispatcher_env [write_at 1 ''f'' 0 4 [], write_at 2 ''g'' 4 4 [], read_at 3 ''f'' 0 8] sample_dispatcher = (Inr (), d') \<and>
    nc_lib (io_nats (ds_io d')) = msgs \<and> list_all2 (delivers sample_dispatcher_env (ref_db (io_redis (ds_io d')))) msgs dss \<and>
    mset (concat (map origin_ids (concat dss))) = {#1, 2, 3#}"
proof -
  let ?batch = "[write_at 1 ''f'' 0 4 [], write_at 2 ''g'' 4 4 [], read_at 3 ''f'' 0 8]"
  have "\<forall>l \<in> set ?batch. unmerged l \<and> l_dependencies l = [] \<and> l_type l \<noteq> Composite" "distinct (map l_id ?batch)"
    by (simp_all add: unmerged_def at_defs)
  from batch_delivered [OF sample_link sample_available this] show ?thesis
    by (simp add: sample_dispatcher_def ref_conn_def at_fields)
qed

theorem merged_write_staged_witness:
  "\<exists>es d'. dispatch_independent sample_dispatcher_env [default_worker 1] Map.empty
      (merge_run (write_at 1 ''f'' 0 4 []) [write_at 2 ''f'' 4 4 []]) sample_dispatcher = (Inr es, d') \<and>
    staged_bytes (ref_db (io_redis (ds_io d'))) 1 = bytes_of_string ''abcdefgh''"
proof -
  let ?l = "merge_run (write_at 1 ''f'' 0 4 []) [write_at 2 ''f'' 4 4 []]"
  have l: "is_aggregated ?l" "distinct (l_children ?l)" by (simp_all add: is_aggregated_def at_fields)
  have w: "list_ex w_available [default_worker 1]" by (simp add: default_worker_def)
  have "label_payload (staged_bytes (ref_db (io_redis (ds_io sample_dispatcher)))) ?l = bytes_of_string ''abcdefgh''"
    by (simp add: label_payload_def at_fields staged_bytes_def sample_dispatcher_def ref_db_def db_get_def bytes_of_string_def)
  then show ?thesis
    using merged_write_staged [OF sample_link w l, of Map.empty sample_dispatcher] by (auto simp: at_fields)
qed


theorem supertask_merge_loses_data_witness:
  "\<exists>d' msg c rd. dispatch_labels sample_dispatcher_env [write_at 1 ''f'' 0 4 [], write_at 2 ''f'' 4 4 [], read_at 3 ''f'' 0 8] sample_dispatcher = (Inr (), d') \<and>
    delivers sample_dispatcher_env (ref_db (io_redis (ds_io d'))) msg [c, rd] \<and> l_data_size c = 8 \<and>
    staged_bytes (ref_db (io_redis (ds_io d'))) 2 = bytes_of_string ''efgh''"
proof -
  have "dispatcher_shuffler sample_dispatcher_env = default_config"
    by (simp add: dispatcher_shuffler_def sample_dispatcher_env_def default_cfg_def default_config_def)
  moreover have "staged_bytes (ref_db (io_redis (ds_io sample_dispatcher))) 2 = bytes_of_string ''efgh''"
    by (simp add: staged_bytes_def sample_dispatcher_def ref_db_def db_get_def)
  ultimately show ?thesis
    using supertask_merge_loses_data [OF sample_link sample_available, of "''f''" "[]" "[]"] by metis
qed

end
