(* ===== verification/Sqlite.thy ===== *)
theory Sqlite
  imports Backend
begin

text \<open>
  The SQLite backend (\<^verbatim>\<open>src/labios/backend/sqlite_backend.cpp\<close>). The SQL engine is a parameter: a
  record of the \<^verbatim>\<open>sqlite3\<close> functions the code calls, over a state \<open>'q\<close> (the connection and what
  is behind it) and a statement type \<open>'st\<close>. What the code relies on of its four statements is the
  locale \<open>sqlite_engine\<close>, interpreted on an engine that keeps one table.
\<close>

subsection \<open>The engine\<close>

datatype sql_value = SqlNull | SqlInt int | SqlText string | SqlBlob bytes

datatype sql_step = SqlRow "sql_value list" | SqlDone | SqlError

text \<open>
  \<^verbatim>\<open>sqlite3_open\<close> gives whether it returned \<^verbatim>\<open>SQLITE_OK\<close>; \<^verbatim>\<open>sqlite3_exec\<close> gives \<open>None\<close> when it did and
  the message otherwise (there may be none); \<^verbatim>\<open>sqlite3_prepare_v2\<close> gives a statement when it did. The
  code never looks at the result of a bind.
\<close>

record ('q, 'st) sqlite =
  sq_open :: "string \<Rightarrow> 'q \<Rightarrow> bool \<times> 'q"
  sq_exec :: "string \<Rightarrow> 'q \<Rightarrow> string option option \<times> 'q"
  sq_errmsg :: "'q \<Rightarrow> string"
  sq_prepare :: "string \<Rightarrow> 'q \<Rightarrow> 'st option"
  sq_bind :: "nat \<Rightarrow> sql_value \<Rightarrow> 'st \<Rightarrow> 'st"
  sq_step :: "'st \<Rightarrow> 'q \<Rightarrow> sql_step \<times> 'st \<times> 'q"
  sq_column_bytes :: "sql_value \<Rightarrow> nat"
  sq_column_blob :: "sql_value \<Rightarrow> bytes option"
  sq_column_text :: "sql_value \<Rightarrow> string option"
  sq_column_int :: "sql_value \<Rightarrow> int"

definition bind_all :: "('q, 'st) sqlite \<Rightarrow> (nat \<times> sql_value) list \<Rightarrow> 'st \<Rightarrow> 'st" where
  "bind_all api bs st = foldl (\<lambda>st (i, v). sq_bind api i v st) st bs"

subsection \<open>The backend\<close>

definition create_sql :: string where
  "create_sql =
     ''CREATE TABLE IF NOT EXISTS labios_store (  key TEXT PRIMARY KEY,  data BLOB,'' @
     ''  intent INTEGER DEFAULT 0,  isolation INTEGER DEFAULT 0,  priority INTEGER DEFAULT 0,'' @
     ''  ttl_seconds INTEGER DEFAULT 0,  app_id INTEGER DEFAULT 0,  created_at INTEGER DEFAULT (strftime('' @
     [CHR 0x27] @ ''%s'' @ [CHR 0x27] @ '','' @ [CHR 0x27] @ ''now'' @ [CHR 0x27] @ '')),  version INTEGER DEFAULT 1);''"

text \<open>The constructor.\<close>

definition sqlite_open :: "('q, 'st) sqlite \<Rightarrow> string \<Rightarrow> 'q \<Rightarrow> unit result \<times> 'q" where
  "sqlite_open api db_path q =
     (let (opened, q1) = sq_open api db_path q in
      if \<not> opened then (Inl (''sqlite open failed: '' @ sq_errmsg api q1), q1)
      else
        (case sq_exec api create_sql q1 of
           (None, q2) \<Rightarrow> (Inr (), q2)
         | (Some (Some e), q2) \<Rightarrow> (Inl (''sqlite table creation failed: '' @ e), q2)
         | (Some None, q2) \<Rightarrow> (Inl ''sqlite table creation failed: unknown error'', q2)))"

definition extract_key :: "label_data \<Rightarrow> string" where
  "extract_key l =
     (let uri = (if l_dest_uri l \<noteq> [] then l_dest_uri l else l_source_uri l) in
      if uri \<noteq> [] then strip_leading_slash (u_path (parse_uri uri)) else u64_to_string (l_id l))"

definition put_sql :: string where
  "put_sql =
     ''INSERT OR REPLACE INTO labios_store'' @
     '' (key, data, intent, isolation, priority, ttl_seconds, app_id)'' @
     '' VALUES (?, ?, ?, ?, ?, ?, ?)''"

text \<open>The casts to \<^verbatim>\<open>int\<close> of the unsigned fields wrap.\<close>

definition put_binds :: "string \<Rightarrow> label_data \<Rightarrow> bytes \<Rightarrow> (nat \<times> sql_value) list" where
  "put_binds key l data =
     [(1, SqlText key), (2, SqlBlob data),
      (3, SqlInt (int (intent_num (l_intent l)))),
      (4, SqlInt (int (isolation_num (l_isolation l)))),
      (5, SqlInt (uint (l_priority l))),
      (6, SqlInt (sint (l_ttl_seconds l))),
      (7, SqlInt (sint (l_app_id l)))]"

definition sqlite_put :: "('q, 'st) sqlite \<Rightarrow> label_data \<Rightarrow> bytes \<Rightarrow> 'q \<Rightarrow> backend_result \<times> 'q" where
  "sqlite_put api l data q =
     (let key = extract_key l in
      case sq_prepare api put_sql q of
        None \<Rightarrow> (backend_failed (sq_errmsg api q), q)
      | Some st \<Rightarrow>
          (let (rc, st', q') = sq_step api (bind_all api (put_binds key l data) st) q
           in if rc \<noteq> SqlDone then (backend_failed (sq_errmsg api q'), q') else (backend_ok, q')))"

definition get_sql :: string where
  "get_sql = ''SELECT data FROM labios_store WHERE key = ?''"

definition data_failed :: "string \<Rightarrow> backend_data_result" where
  "data_failed e = \<lparr>bd_success = False, bd_error = e, bd_data = []\<rparr>"

definition sqlite_get :: "('q, 'st) sqlite \<Rightarrow> label_data \<Rightarrow> 'q \<Rightarrow> backend_data_result \<times> 'q" where
  "sqlite_get api l q =
     (let key = extract_key l in
      case sq_prepare api get_sql q of
        None \<Rightarrow> (data_failed (sq_errmsg api q), q)
      | Some st \<Rightarrow>
          (let (rc, st', q') = sq_step api (bind_all api [(1, SqlText key)] st) q in
           case rc of
             SqlRow vs \<Rightarrow>
               (let v = hd vs; size = sq_column_bytes api v in
                if size > 0
                then (case sq_column_blob api v of
                        None \<Rightarrow> (data_failed ''sqlite returned null blob pointer'', q')
                      | Some b \<Rightarrow> (\<lparr>bd_success = True, bd_error = [], bd_data = take size b\<rparr>, q'))
                else (\<lparr>bd_success = True, bd_error = [], bd_data = []\<rparr>, q'))
           | _ \<Rightarrow> (data_failed (''key not found: '' @ key), q')))"

definition del_sql :: string where
  "del_sql = ''DELETE FROM labios_store WHERE key = ?''"

definition sqlite_del :: "('q, 'st) sqlite \<Rightarrow> label_data \<Rightarrow> 'q \<Rightarrow> backend_result \<times> 'q" where
  "sqlite_del api l q =
     (let key = extract_key l in
      case sq_prepare api del_sql q of
        None \<Rightarrow> (backend_failed (sq_errmsg api q), q)
      | Some st \<Rightarrow>
          (let (rc, st', q') = sq_step api (bind_all api [(1, SqlText key)] st) q
           in if rc \<noteq> SqlDone then (backend_failed (sq_errmsg api q'), q') else (backend_ok, q')))"

subsection \<open>Queries\<close>

definition select_sql :: string where
  "select_sql =
     ''SELECT key, intent, isolation, priority, length(data) as size'' @
     '' FROM labios_store WHERE 1=1''"

text \<open>One pair of the query string: a known key extends the statement and the bindings.\<close>

definition add_filter :: "string \<Rightarrow> string \<times> (nat \<times> string) list \<Rightarrow> string \<times> (nat \<times> string) list" where
  "add_filter pair acc =
     (let (sql, binds) = acc in
      case find_char (CHR ''='') pair of
        None \<Rightarrow> (sql, binds)
      | Some eq \<Rightarrow>
          (let key = take eq pair; val = drop (Suc eq) pair in
           if key = ''intent'' then (sql @ '' AND intent = ?'', binds @ [(length binds + 1, val)])
           else if key = ''isolation'' then (sql @ '' AND isolation = ?'', binds @ [(length binds + 1, val)])
           else if key = ''priority'' then (sql @ '' AND priority = ?'', binds @ [(length binds + 1, val)])
           else (sql, binds)))"

function filter_loop :: "string \<Rightarrow> string \<times> (nat \<times> string) list \<Rightarrow> string \<times> (nat \<times> string) list" where
  "filter_loop q acc =
     (if q = [] then acc
      else (case find_char (CHR ''&'') q of
              None \<Rightarrow> add_filter q acc
            | Some amp \<Rightarrow> filter_loop (drop (Suc amp) q) (add_filter (take amp q) acc)))"
  by pat_completeness auto
termination by (relation "measure (\<lambda>(q, acc). length q)") auto

declare filter_loop.simps [simp del]

text \<open>A null text pointer prints nothing; nothing is escaped.\<close>

definition entry_json :: "('q, 'st) sqlite \<Rightarrow> sql_value list \<Rightarrow> string" where
  "entry_json api vs =
     ''{'' @ [CHR 0x22] @ ''key'' @ [CHR 0x22] @ '':'' @ [CHR 0x22] @
     (case sq_column_text api (vs ! 0) of Some k \<Rightarrow> k | None \<Rightarrow> []) @
     [CHR 0x22] @ '','' @ [CHR 0x22] @ ''intent'' @ [CHR 0x22] @ '':'' @ int_to_string (sq_column_int api (vs ! 1)) @
     '','' @ [CHR 0x22] @ ''isolation'' @ [CHR 0x22] @ '':'' @ int_to_string (sq_column_int api (vs ! 2)) @
     '','' @ [CHR 0x22] @ ''priority'' @ [CHR 0x22] @ '':'' @ int_to_string (sq_column_int api (vs ! 3)) @
     '','' @ [CHR 0x22] @ ''size'' @ [CHR 0x22] @ '':'' @ int_to_string (sq_column_int api (vs ! 4)) @ ''}''"

text \<open>The loop over the rows runs as long as the engine has rows; an error ends it like the last row.\<close>

partial_function (option) query_rows ::
    "('q, 'st) sqlite \<Rightarrow> bool \<Rightarrow> string \<Rightarrow> 'st \<Rightarrow> 'q \<Rightarrow> (string \<times> 'q) option" where
  "query_rows api fst_row json st q =
     (case sq_step api st q of
        (SqlRow vs, st', q') \<Rightarrow>
          query_rows api False (json @ (if fst_row then [] else '','') @ entry_json api vs) st' q'
      | (_, st', q') \<Rightarrow> Some (json, q'))"

definition sqlite_query :: "('q, 'st) sqlite \<Rightarrow> label_data \<Rightarrow> 'q \<Rightarrow> (backend_query_result \<times> 'q) option" where
  "sqlite_query api l q =
     (let uri = (if l_source_uri l \<noteq> [] then l_source_uri l else l_dest_uri l);
          (sql, binds) = filter_loop (u_query (parse_uri uri)) (select_sql, [])
      in case sq_prepare api sql q of
           None \<Rightarrow> Some (\<lparr>bq_success = False, bq_error = sq_errmsg api q, bq_json_data = []\<rparr>, q)
         | Some st \<Rightarrow>
             map_option (\<lambda>(json, q'). (\<lparr>bq_success = True, bq_error = [], bq_json_data = json @ '']}''\<rparr>, q'))
               (query_rows api True (''{'' @ [CHR 0x22] @ ''entries'' @ [CHR 0x22] @ '':['')
                 (bind_all api (map (\<lambda>(i, v). (i, SqlText v)) binds) st) q))"

text \<open>As an entry of the backend registry.\<close>

definition sqlite_backend :: "('q, 'st) sqlite \<Rightarrow> 'q any_backend" where
  "sqlite_backend api =
     \<lparr>ab_put = (\<lambda>l data q. let (r, q') = sqlite_put api l data q in (Inr r, q')),
      ab_get = (\<lambda>l q. let (r, q') = sqlite_get api l q in (Inr r, q')),
      ab_del = (\<lambda>l q. let (r, q') = sqlite_del api l q in (Inr r, q'))\<rparr>"

subsection \<open>The contract of the engine\<close>

text \<open>What the backend reads back of a row of the table; a null blob reads as no data.\<close>

record sql_row =
  sr_data :: bytes
  sr_intent :: int
  sr_isolation :: int
  sr_priority :: int

type_synonym sql_table = "string \<Rightarrow> sql_row option"

datatype sql_column = ColIntent | ColIsolation | ColPriority

fun col_name :: "sql_column \<Rightarrow> string" where
  "col_name ColIntent = ''intent''" | "col_name ColIsolation = ''isolation''" | "col_name ColPriority = ''priority''"

fun col_value :: "sql_column \<Rightarrow> sql_row \<Rightarrow> int" where
  "col_value ColIntent r = sr_intent r" | "col_value ColIsolation r = sr_isolation r"
| "col_value ColPriority r = sr_priority r"

definition clause :: "sql_column \<Rightarrow> string" where
  "clause c = '' AND '' @ col_name c @ '' = ?''"

type_synonym sql_filters = "(sql_column \<times> string) list"

definition clauses :: "sql_filters \<Rightarrow> string" where
  "clauses fs = concat (map (clause \<circ> fst) fs)"

definition filter_binds :: "sql_filters \<Rightarrow> (nat \<times> string) list" where
  "filter_binds fs = enumerate 1 (map snd fs)"

definition text_binds :: "(nat \<times> string) list \<Rightarrow> (nat \<times> sql_value) list" where
  "text_binds = map (\<lambda>(i, v). (i, SqlText v))"

text \<open>\<open>affine v i\<close>: does the text \<open>v\<close>, compared with an integer column, equal the integer \<open>i\<close>?\<close>

definition passes :: "(string \<Rightarrow> int \<Rightarrow> bool) \<Rightarrow> sql_filters \<Rightarrow> sql_row \<Rightarrow> bool" where
  "passes affine fs row \<longleftrightarrow> list_all (\<lambda>(c, v). affine v (col_value c row)) fs"

text \<open>A text the engine stores as it is: within the length limit, without a NUL.\<close>

definition text_ok :: "nat \<Rightarrow> string \<Rightarrow> bool" where
  "text_ok cap t \<longleftrightarrow> length t \<le> cap \<and> CHR 0x00 \<notin> set t"

text \<open>A statement gives these rows and then is done.\<close>

fun emits :: "('q, 'st) sqlite \<Rightarrow> 'st \<Rightarrow> 'q \<Rightarrow> sql_value list list \<Rightarrow> 'q \<Rightarrow> bool" where
  "emits api st q [] q' \<longleftrightarrow> (\<exists>st'. sq_step api st q = (SqlDone, st', q'))"
| "emits api st q (vs # rows) q' \<longleftrightarrow>
     (\<exists>st1 q1. sq_step api st q = (SqlRow vs, st1, q1) \<and> emits api st1 q1 rows q')"

text \<open>How the columns of a listed row read.\<close>

definition row_view :: "('q, 'st) sqlite \<Rightarrow> sql_table \<Rightarrow> string \<Rightarrow> sql_value list \<Rightarrow> bool" where
  "row_view api t k vs \<longleftrightarrow>
     (case t k of
        None \<Rightarrow> False
      | Some row \<Rightarrow>
          sq_column_text api (vs ! 0) = Some k \<and> sq_column_int api (vs ! 1) = sr_intent row \<and>
          sq_column_int api (vs ! 2) = sr_isolation row \<and> sq_column_int api (vs ! 3) = sr_priority row \<and>
          sq_column_int api (vs ! 4) = int (length (sr_data row)))"

definition data_view :: "('q, 'st) sqlite \<Rightarrow> bytes \<Rightarrow> sql_value \<Rightarrow> bool" where
  "data_view api b v \<longleftrightarrow> sq_column_bytes api v = length b \<and> (b \<noteq> [] \<longrightarrow> sq_column_blob api v = Some b)"

text \<open>The row a put stores: data over the engine's limit cannot be bound, and the parameter stays null.\<close>

definition put_row :: "nat \<Rightarrow> label_data \<Rightarrow> bytes \<Rightarrow> sql_row" where
  "put_row cap l data =
     \<lparr>sr_data = (if length data \<le> cap then data else []), sr_intent = int (intent_num (l_intent l)),
      sr_isolation = int (isolation_num (l_isolation l)), sr_priority = uint (l_priority l)\<rparr>"

text \<open>
  \<open>tab\<close> is the table behind a connection, \<open>ready\<close> that the table exists, \<open>healthy\<close> that no lock, full
  disk or I/O error is in the way, \<open>cap\<close> the engine's length limit.
\<close>

locale sqlite_engine =
  fixes api :: "('q, 'st) sqlite" and tab :: "'q \<Rightarrow> sql_table" and ready :: "'q \<Rightarrow> bool"
    and healthy :: "'q \<Rightarrow> bool" and cap :: nat and affine :: "string \<Rightarrow> int \<Rightarrow> bool"
  assumes create_law:
      "sq_open api path q = (True, q1) \<Longrightarrow> sq_exec api create_sql q1 = (None, q2) \<Longrightarrow> ready q2"
    and insert_law:
      "ready q \<Longrightarrow> text_ok cap key \<Longrightarrow> sq_prepare api put_sql q = Some st \<Longrightarrow>
       sq_step api (bind_all api (put_binds key l data) st) q = (rc, st', q') \<Longrightarrow>
       ready q' \<and> (if rc = SqlDone then tab q' = (tab q)(key \<mapsto> put_row cap l data) else tab q' = tab q)"
    and select_law:
      "ready q \<Longrightarrow> healthy q \<Longrightarrow> text_ok cap key \<Longrightarrow>
       \<exists>st rc st' q'. sq_prepare api get_sql q = Some st \<and>
         sq_step api (bind_all api [(1, SqlText key)] st) q = (rc, st', q') \<and> ready q' \<and> tab q' = tab q \<and>
         (case tab q key of None \<Rightarrow> rc = SqlDone | Some row \<Rightarrow> \<exists>v. rc = SqlRow [v] \<and> data_view api (sr_data row) v)"
    and delete_law:
      "ready q \<Longrightarrow> text_ok cap key \<Longrightarrow> sq_prepare api del_sql q = Some st \<Longrightarrow>
       sq_step api (bind_all api [(1, SqlText key)] st) q = (rc, st', q') \<Longrightarrow>
       ready q' \<and> (if rc = SqlDone then tab q' = (tab q)(key := None) else tab q' = tab q)"
    and query_law:
      "ready q \<Longrightarrow> healthy q \<Longrightarrow> list_all (\<lambda>(c, v). text_ok cap v) fs \<Longrightarrow>
       \<exists>st rows ks q'. sq_prepare api (select_sql @ clauses fs) q = Some st \<and>
         emits api (bind_all api (text_binds (filter_binds fs)) st) q rows q' \<and> ready q' \<and> tab q' = tab q \<and>
         distinct ks \<and> set ks = {k. \<exists>row. tab q k = Some row \<and> passes affine fs row} \<and>
         list_all2 (row_view api (tab q)) ks rows"
    and affine_law: "affine (int_to_string i) j \<longleftrightarrow> i = j"
begin

lemma put_get:
  assumes q: "ready q" and key: "text_ok cap (extract_key l)"
    and put: "sqlite_put api l data q = (backend_ok, q1)"
    and same: "extract_key l' = extract_key l" and h: "healthy q1"
  shows "tab q1 = (tab q)(extract_key l \<mapsto> put_row cap l data) \<and>
    (\<exists>q2. sqlite_get api l' q1 =
       (\<lparr>bd_success = True, bd_error = [], bd_data = (if length data \<le> cap then data else [])\<rparr>, q2) \<and>
       tab q2 = tab q1)"
proof -
  obtain st where st: "sq_prepare api put_sql q = Some st"
    using put by (auto simp: sqlite_put_def backend_failed_def backend_ok_def split: option.splits)
  obtain rc st' q' where step: "sq_step api (bind_all api (put_binds (extract_key l) l data) st) q = (rc, st', q')"
    by (metis prod_cases3)
  from put st step have rc: "rc = SqlDone" "q' = q1"
    by (auto simp: sqlite_put_def Let_def backend_failed_def backend_ok_def split: if_splits)
  from insert_law [OF q key st step] rc
  have q1: "ready q1" "tab q1 = (tab q)(extract_key l \<mapsto> put_row cap l data)" by simp_all
  have key': "text_ok cap (extract_key l')" using key same by simp
  from select_law [OF q1(1) h key'] q1(2) same obtain st2 v st3 q2 where
    "sq_prepare api get_sql q1 = Some st2"
    "sq_step api (bind_all api [(1, SqlText (extract_key l'))] st2) q1 = (SqlRow [v], st3, q2)"
    "tab q2 = tab q1" "data_view api (sr_data (put_row cap l data)) v"
    by auto
  then show ?thesis
    using q1(2) by (auto simp: sqlite_get_def data_view_def put_row_def)
qed

lemma get_missing:
  assumes "ready q" "healthy q" "text_ok cap (extract_key l)" "tab q (extract_key l) = None"
  shows "\<exists>q'. sqlite_get api l q = (data_failed (''key not found: '' @ extract_key l), q') \<and> tab q' = tab q"
proof -
  from select_law [OF assms(1-3)] assms(4) obtain st st' q' where
    "sq_prepare api get_sql q = Some st"
    "sq_step api (bind_all api [(1, SqlText (extract_key l))] st) q = (SqlDone, st', q')" "tab q' = tab q"
    by auto
  then show ?thesis by (simp add: sqlite_get_def)
qed

lemma del_get:
  assumes q: "ready q" and key: "text_ok cap (extract_key l)"
    and del: "sqlite_del api l q = (backend_ok, q1)" and h: "healthy q1"
  shows "tab q1 = (tab q)(extract_key l := None) \<and>
    (\<exists>q2. sqlite_get api l q1 = (data_failed (''key not found: '' @ extract_key l), q2))"
proof -
  obtain st where st: "sq_prepare api del_sql q = Some st"
    using del by (auto simp: sqlite_del_def backend_failed_def backend_ok_def split: option.splits)
  obtain rc st' q' where step: "sq_step api (bind_all api [(1, SqlText (extract_key l))] st) q = (rc, st', q')"
    by (metis prod_cases3)
  from del st step have rc: "rc = SqlDone" "q' = q1"
    by (auto simp: sqlite_del_def Let_def backend_failed_def backend_ok_def split: if_splits)
  from delete_law [OF q key st step] rc
  have q1: "ready q1" "tab q1 = (tab q)(extract_key l := None)" by simp_all
  with get_missing [OF q1(1) h key] show ?thesis by auto
qed

end

subsection \<open>The filters of a query\<close>

text \<open>The pieces between ampersands, and the filter each stands for.\<close>

fun query_terms :: "string \<Rightarrow> string list" where
  "query_terms [] = [[]]"
| "query_terms (c # cs) =
     (if c = CHR ''&'' then [] # query_terms cs
      else (case query_terms cs of t # ts \<Rightarrow> (c # t) # ts | [] \<Rightarrow> [[c]]))"

definition filter_of :: "string \<Rightarrow> sql_filters" where
  "filter_of t =
     (let key = takeWhile (\<lambda>c. c \<noteq> CHR ''='') t; val = drop (Suc (length key)) t in
      if CHR ''='' \<notin> set t then []
      else map (\<lambda>c. (c, val)) (filter (\<lambda>c. col_name c = key) [ColIntent, ColIsolation, ColPriority]))"

definition query_filters :: "string \<Rightarrow> sql_filters" where
  "query_filters q = concat (map filter_of (query_terms q))"

lemma query_terms_None: "find_char (CHR ''&'') q = None \<Longrightarrow> query_terms q = [q]"
  by (induction q) (auto split: if_splits)

lemma query_terms_Some:
  "find_char (CHR ''&'') q = Some n \<Longrightarrow> query_terms q = take n q # query_terms (drop (Suc n) q)"
  by (induction q arbitrary: n) (auto split: if_splits)

lemma filter_of_Nil [simp]: "filter_of [] = []"
  by (simp add: filter_of_def)

lemma clauses_append [simp]: "clauses (fs @ gs) = clauses fs @ clauses gs"
  by (simp add: clauses_def)

lemma filter_binds_snoc: "filter_binds (fs @ [(c, v)]) = filter_binds fs @ [(length (filter_binds fs) + 1, v)]"
  by (simp add: filter_binds_def enumerate_append_eq)

lemma find_char_takeWhile:
  "find_char c t = Some n \<Longrightarrow> takeWhile (\<lambda>x. x \<noteq> c) t = take n t \<and> n < length t \<and> c \<in> set t"
  by (induction t arbitrary: n) (auto split: if_splits)

lemma add_filter_spec:
  "add_filter t (sql @ clauses fs, filter_binds fs) =
     (sql @ clauses (fs @ filter_of t), filter_binds (fs @ filter_of t))"
proof (cases "find_char (CHR ''='') t")
  case None
  moreover from this have "CHR ''='' \<notin> set t" by (simp only: find_char_None not_False_eq_True)
  ultimately show ?thesis by (simp add: add_filter_def filter_of_def)
next
  case (Some n)
  let ?key = "take n t" and ?val = "drop (Suc n) t"
  note tw = find_char_takeWhile [OF Some]
  have f: "filter_of t = map (\<lambda>c. (c, ?val)) (filter (\<lambda>c. col_name c = ?key) [ColIntent, ColIsolation, ColPriority])"
    using tw by (simp add: filter_of_def min_absorb2)
  consider "?key = ''intent''" | "?key = ''isolation''" | "?key = ''priority''"
    | "?key \<noteq> ''intent''" "?key \<noteq> ''isolation''" "?key \<noteq> ''priority''" by blast
  then show ?thesis
    by cases (simp_all add: add_filter_def Some f filter_binds_snoc clauses_def clause_def)
qed

lemma filter_loop_spec:
  "filter_loop q (sql @ clauses fs, filter_binds fs) =
     (sql @ clauses (fs @ query_filters q), filter_binds (fs @ query_filters q))"
proof (induction "length q" arbitrary: q fs rule: less_induct)
  case less
  show ?case
  proof (cases "q = []")
    case True
    then show ?thesis by (simp add: filter_loop.simps query_filters_def)
  next
    case False
    show ?thesis
    proof (cases "find_char (CHR ''&'') q")
      case None
      then show ?thesis
        using False add_filter_spec [of q sql fs]
        by (simp add: filter_loop.simps [of q] query_filters_def query_terms_None)
    next
      case (Some n)
      have "length (drop (Suc n) q) < length q" using False by simp
      from less [OF this, of "fs @ filter_of (take n q)"] show ?thesis
        using False Some add_filter_spec [of "take n q" sql fs]
        by (simp add: filter_loop.simps [of q] query_filters_def query_terms_Some)
    qed
  qed
qed

subsection \<open>The rows of a query\<close>

text \<open>The listing the query should give, entry by entry.\<close>

definition row_json :: "sql_table \<Rightarrow> string \<Rightarrow> string" where
  "row_json t k =
     (case t k of
        None \<Rightarrow> []
      | Some row \<Rightarrow>
          ''{'' @ [CHR 0x22] @ ''key'' @ [CHR 0x22] @ '':'' @ [CHR 0x22] @ k @
          [CHR 0x22] @ '','' @ [CHR 0x22] @ ''intent'' @ [CHR 0x22] @ '':'' @ int_to_string (sr_intent row) @
          '','' @ [CHR 0x22] @ ''isolation'' @ [CHR 0x22] @ '':'' @ int_to_string (sr_isolation row) @
          '','' @ [CHR 0x22] @ ''priority'' @ [CHR 0x22] @ '':'' @ int_to_string (sr_priority row) @
          '','' @ [CHR 0x22] @ ''size'' @ [CHR 0x22] @ '':'' @ int_to_string (int (length (sr_data row))) @ ''}'')"

fun join_comma :: "string list \<Rightarrow> string" where
  "join_comma [] = []"
| "join_comma [x] = x"
| "join_comma (x # y # xs) = x @ '','' @ join_comma (y # xs)"

definition listing_json :: "sql_table \<Rightarrow> string list \<Rightarrow> string" where
  "listing_json t ks =
     ''{'' @ [CHR 0x22] @ ''entries'' @ [CHR 0x22] @ '':['' @ join_comma (map (row_json t) ks) @ '']}''"

lemma entry_json_view: "row_view api t k vs \<Longrightarrow> entry_json api vs = row_json t k"
  by (auto simp: row_view_def entry_json_def row_json_def split: option.splits)

text \<open>Each entry after the first is preceded by a comma.\<close>

fun rows_text :: "bool \<Rightarrow> string list \<Rightarrow> string" where
  "rows_text fst_row [] = []"
| "rows_text fst_row (x # xs) = (if fst_row then [] else '','') @ x @ rows_text False xs"

lemma rows_text_join:
  "rows_text True xs = join_comma xs \<and>
   rows_text False xs = (if xs = [] then [] else '','' @ join_comma xs)"
  by (induction xs rule: join_comma.induct) auto

lemma query_rows_emits:
  assumes "emits api st q rows q'" "list_all2 (row_view api t) ks rows"
  shows "query_rows api b json st q = Some (json @ rows_text b (map (row_json t) ks), q')"
  using assms
proof (induction rows arbitrary: st q ks b json)
  case Nil
  then show ?case by (auto simp: query_rows.simps [of api b json st q])
next
  case (Cons vs rows)
  from Cons.prems(1) obtain st1 q1 where
    s: "sq_step api st q = (SqlRow vs, st1, q1)" "emits api st1 q1 rows q'" by auto
  from Cons.prems(2) obtain k ks' where
    k: "ks = k # ks'" "row_view api t k vs" "list_all2 (row_view api t) ks' rows"
    by (auto simp: list_all2_Cons2)
  show ?case
    using Cons.IH [OF s(2) k(3)] s(1) k(1) entry_json_view [OF k(2)]
    by (simp add: query_rows.simps [of api b json st q])
qed

context sqlite_engine begin

lemma query_lists:
  assumes q: "ready q" "healthy q"
    and fs: "fs = query_filters (u_query (parse_uri (if l_source_uri l \<noteq> [] then l_source_uri l else l_dest_uri l)))"
    and ok: "list_all (\<lambda>(c, v). text_ok cap v) fs"
  shows "\<exists>ks q'. sqlite_query api l q =
      Some (\<lparr>bq_success = True, bq_error = [], bq_json_data = listing_json (tab q) ks\<rparr>, q') \<and>
    tab q' = tab q \<and> distinct ks \<and>
    set ks = {k. \<exists>row. tab q k = Some row \<and> passes affine fs row}"
proof -
  from query_law [OF q ok] obtain st rows ks q' where
    st: "sq_prepare api (select_sql @ clauses fs) q = Some st"
    and em: "emits api (bind_all api (text_binds (filter_binds fs)) st) q rows q'"
    and tab: "tab q' = tab q" "distinct ks" "set ks = {k. \<exists>row. tab q k = Some row \<and> passes affine fs row}"
    and rv: "list_all2 (row_view api (tab q)) ks rows"
    by blast
  have "filter_loop (u_query (parse_uri (if l_source_uri l \<noteq> [] then l_source_uri l else l_dest_uri l)))
      (select_sql, []) = (select_sql @ clauses fs, filter_binds fs)"
    unfolding fs using filter_loop_spec [of _ select_sql "[]"]
    by (simp add: clauses_def filter_binds_def)
  then have "sqlite_query api l q =
      Some (\<lparr>bq_success = True, bq_error = [], bq_json_data = listing_json (tab q) ks\<rparr>, q')"
    using st query_rows_emits [OF em rv]
    by (simp add: sqlite_query_def Let_def text_binds_def listing_json_def rows_text_join)
  then show ?thesis using tab by blast
qed

end

subsection \<open>An engine that keeps the contract\<close>

text \<open>One table, in memory; texts and blobs over the limit are not bound.\<close>

record ref_database =
  rd_created :: bool
  rd_rows :: "(string \<times> sql_row) list"

record ref_stmt =
  rt_sql :: string
  rt_binds :: "(nat \<times> sql_value) list"
  rt_pending :: "sql_value list list option"

definition fits :: "nat \<Rightarrow> sql_value \<Rightarrow> bool" where
  "fits cap v = (case v of SqlText t \<Rightarrow> length t \<le> cap | SqlBlob b \<Rightarrow> length b \<le> cap | _ \<Rightarrow> True)"

definition ref_bind :: "nat \<Rightarrow> nat \<Rightarrow> sql_value \<Rightarrow> ref_stmt \<Rightarrow> ref_stmt" where
  "ref_bind cap i v st = (if fits cap v then st\<lparr>rt_binds := (i, v) # rt_binds st\<rparr> else st)"

definition param :: "ref_stmt \<Rightarrow> nat \<Rightarrow> sql_value" where
  "param st i = (case map_of (rt_binds st) i of None \<Rightarrow> SqlNull | Some v \<Rightarrow> v)"

fun as_text :: "sql_value \<Rightarrow> string" where
  "as_text (SqlText t) = t" | "as_text _ = []"

fun as_blob :: "sql_value \<Rightarrow> bytes" where
  "as_blob (SqlBlob b) = b" | "as_blob _ = []"

fun as_int :: "sql_value \<Rightarrow> int" where
  "as_int (SqlInt i) = i" | "as_int _ = 0"

function parse_clauses :: "string \<Rightarrow> sql_column list" where
  "parse_clauses s =
     (if prefix (clause ColIntent) s then ColIntent # parse_clauses (drop (length (clause ColIntent)) s)
      else if prefix (clause ColIsolation) s then ColIsolation # parse_clauses (drop (length (clause ColIsolation)) s)
      else if prefix (clause ColPriority) s then ColPriority # parse_clauses (drop (length (clause ColPriority)) s)
      else [])"
  by pat_completeness auto
termination by (relation "measure length") (auto simp: clause_def prefix_def)

declare parse_clauses.simps [simp del]

definition same_number :: "string \<Rightarrow> int \<Rightarrow> bool" where
  "same_number v i \<longleftrightarrow> v = int_to_string i"

definition ref_select :: "ref_stmt \<Rightarrow> ref_database \<Rightarrow> (string \<times> sql_row) list" where
  "ref_select st q =
     (let cols = parse_clauses (drop (length select_sql) (rt_sql st)) in
      filter (\<lambda>(k, row). list_all (\<lambda>(i, c). same_number (as_text (param st i)) (col_value c row)) (enumerate 1 cols))
        (AList.clearjunk (rd_rows q)))"

definition ref_run :: "ref_stmt \<Rightarrow> ref_database \<Rightarrow> sql_value list list \<times> ref_database" where
  "ref_run st q =
     (let key = as_text (param st 1) in
      if rt_sql st = put_sql
      then ([], q\<lparr>rd_rows := AList.update key
             \<lparr>sr_data = as_blob (param st 2), sr_intent = as_int (param st 3),
              sr_isolation = as_int (param st 4), sr_priority = as_int (param st 5)\<rparr> (rd_rows q)\<rparr>)
      else if rt_sql st = get_sql
      then (case map_of (rd_rows q) key of None \<Rightarrow> [] | Some row \<Rightarrow> [[SqlBlob (sr_data row)]], q)
      else if rt_sql st = del_sql then ([], q\<lparr>rd_rows := AList.delete key (rd_rows q)\<rparr>)
      else (map (\<lambda>(k, row). [SqlText k, SqlInt (sr_intent row), SqlInt (sr_isolation row),
               SqlInt (sr_priority row), SqlInt (int (length (sr_data row)))]) (ref_select st q), q))"

definition ref_next :: "ref_stmt \<Rightarrow> ref_database \<Rightarrow> sql_value list list \<Rightarrow> sql_step \<times> ref_stmt \<times> ref_database" where
  "ref_next st q rows =
     (case rows of
        [] \<Rightarrow> (SqlDone, st\<lparr>rt_pending := Some []\<rparr>, q)
      | r # rs \<Rightarrow> (SqlRow r, st\<lparr>rt_pending := Some rs\<rparr>, q))"

definition ref_step :: "ref_stmt \<Rightarrow> ref_database \<Rightarrow> sql_step \<times> ref_stmt \<times> ref_database" where
  "ref_step st q =
     (case rt_pending st of
        Some rows \<Rightarrow> ref_next st q rows
      | None \<Rightarrow> (let (rows, q') = ref_run st q in ref_next st q' rows))"

definition ref_sqlite :: "nat \<Rightarrow> (ref_database, ref_stmt) sqlite" where
  "ref_sqlite cap =
     \<lparr>sq_open = (\<lambda>path q. (True, q)),
      sq_exec = (\<lambda>sql q. (if sql = create_sql then None else Some None, q\<lparr>rd_created := True\<rparr>)),
      sq_errmsg = (\<lambda>q. ''not an error''),
      sq_prepare = (\<lambda>sql q. Some \<lparr>rt_sql = sql, rt_binds = [], rt_pending = None\<rparr>),
      sq_bind = ref_bind cap, sq_step = ref_step,
      sq_column_bytes = (\<lambda>v. length (as_blob v)),
      sq_column_blob = (\<lambda>v. if as_blob v = [] then None else Some (as_blob v)),
      sq_column_text = (\<lambda>v. Some (as_text v)), sq_column_int = as_int\<rparr>"

definition ref_table :: "ref_database \<Rightarrow> sql_table" where
  "ref_table q = map_of (rd_rows q)"

lemma ref_api [simp]:
  "sq_open (ref_sqlite cap) path q = (True, q)"
  "sq_exec (ref_sqlite cap) sql q = (if sql = create_sql then None else Some None, q\<lparr>rd_created := True\<rparr>)"
  "sq_prepare (ref_sqlite cap) sql q = Some \<lparr>rt_sql = sql, rt_binds = [], rt_pending = None\<rparr>"
  "sq_bind (ref_sqlite cap) = ref_bind cap" "sq_step (ref_sqlite cap) = ref_step"
  "sq_column_bytes (ref_sqlite cap) v = length (as_blob v)"
  "sq_column_blob (ref_sqlite cap) v = (if as_blob v = [] then None else Some (as_blob v))"
  "sq_column_text (ref_sqlite cap) v = Some (as_text v)"
  "sq_column_int (ref_sqlite cap) = as_int"
  by (simp_all add: ref_sqlite_def)

lemma statements_differ [simp]:
  "put_sql \<noteq> get_sql" "put_sql \<noteq> del_sql" "get_sql \<noteq> del_sql" "get_sql \<noteq> put_sql" "del_sql \<noteq> put_sql"
  "del_sql \<noteq> get_sql" "select_sql @ s \<noteq> put_sql" "select_sql @ s \<noteq> get_sql" "select_sql @ s \<noteq> del_sql"
  by (simp_all add: put_sql_def get_sql_def del_sql_def select_sql_def)

lemma clause_prefix [simp]: "prefix (clause c) (clause d @ s) \<longleftrightarrow> c = d"
  by (cases c; cases d) (simp_all add: clause_def)

lemma parse_clauses_print: "parse_clauses (clauses fs) = map fst fs"
proof (induction fs)
  case Nil
  show ?case by (simp add: parse_clauses.simps [of "[]"] clauses_def clause_def)
next
  case (Cons f fs)
  have c: "clauses (f # fs) = clause (fst f) @ clauses fs" by (simp add: clauses_def)
  show ?case
    unfolding c by (cases "fst f") (simp_all add: parse_clauses.simps [of "clause _ @ _"] Cons.IH)
qed

lemma ref_bind_all:
  "bind_all (ref_sqlite cap) bs st =
     st\<lparr>rt_binds := rev (filter (\<lambda>(i, v). fits cap v) bs) @ rt_binds st\<rparr>"
  by (induction bs arbitrary: st) (auto simp: bind_all_def ref_bind_def)

lemma param_text_binds:
  assumes "list_all (\<lambda>(c, v). text_ok cap v) fs" "i < length fs"
  shows "param (bind_all (ref_sqlite cap) (text_binds (filter_binds fs))
    \<lparr>rt_sql = s, rt_binds = [], rt_pending = None\<rparr>) (Suc i) = SqlText (snd (fs ! i))"
proof -
  let ?bs = "text_binds (filter_binds fs)"
  have short: "length (snd (fs ! j)) \<le> cap" if "j < length fs" for j
    using assms(1) nth_mem [OF that] by (auto simp: list_all_iff text_ok_def)
  have all: "filter (\<lambda>(i, v). fits cap v) ?bs = ?bs"
    by (auto simp: filter_id_conv text_binds_def filter_binds_def fits_def in_set_enumerate_eq short)
  have d: "map fst ?bs = [1..<Suc (length fs)]"
    by (simp add: text_binds_def filter_binds_def comp_def split_def) 
  have "?bs ! i = (Suc i, SqlText (snd (fs ! i)))"
    using assms(2) by (simp add: text_binds_def filter_binds_def nth_enumerate_eq)
  moreover have "i < length ?bs" using assms(2) by (simp add: text_binds_def filter_binds_def)
  ultimately have m: "(Suc i, SqlText (snd (fs ! i))) \<in> set (rev ?bs)" by (metis nth_mem set_rev)
  have "distinct (map fst (rev ?bs))"
    unfolding rev_map [symmetric] distinct_rev d by simp
  from map_of_is_SomeI [OF this m] show ?thesis
    by (simp add: ref_bind_all param_def all)
qed

lemma ref_emits_pending:
  "rt_pending st = Some rows \<Longrightarrow> emits (ref_sqlite cap) st q rows q"
  by (induction rows arbitrary: st) (auto simp: ref_step_def ref_next_def)

lemma ref_emits_fresh:
  assumes "rt_pending st = None" "ref_run st q = (rows, q)"
  shows "emits (ref_sqlite cap) st q rows q"
  using assms by (cases rows) (auto simp: ref_step_def ref_next_def intro: ref_emits_pending)

lemma ref_put_params:
  assumes "text_ok cap key"
  shows "param (bind_all (ref_sqlite cap) (put_binds key l data) \<lparr>rt_sql = s, rt_binds = [], rt_pending = p\<rparr>) i =
    (if i = 1 then SqlText key
     else if i = 2 then (if length data \<le> cap then SqlBlob data else SqlNull)
     else if i = 3 then SqlInt (int (intent_num (l_intent l)))
     else if i = 4 then SqlInt (int (isolation_num (l_isolation l)))
     else if i = 5 then SqlInt (uint (l_priority l))
     else if i = 6 then SqlInt (sint (l_ttl_seconds l))
     else if i = 7 then SqlInt (sint (l_app_id l)) else SqlNull)"
  using assms by (simp add: ref_bind_all put_binds_def fits_def param_def text_ok_def)

lemma ref_key_param:
  "text_ok cap key \<Longrightarrow>
   param (bind_all (ref_sqlite cap) [(Suc 0, SqlText key)] \<lparr>rt_sql = s, rt_binds = [], rt_pending = p\<rparr>) (Suc 0) = SqlText key"
  by (simp add: ref_bind_all fits_def param_def text_ok_def)

lemma ref_bound_stmt [simp]:
  "rt_sql (bind_all (ref_sqlite cap) bs st) = rt_sql st"
  "rt_pending (bind_all (ref_sqlite cap) bs st) = rt_pending st"
  by (simp_all add: ref_bind_all)

lemma ref_insert:
  assumes "text_ok cap key"
  shows "\<exists>st'. ref_step (bind_all (ref_sqlite cap) (put_binds key l data) \<lparr>rt_sql = put_sql, rt_binds = [], rt_pending = None\<rparr>) q =
    (SqlDone, st', q\<lparr>rd_rows := AList.update key (put_row cap l data) (rd_rows q)\<rparr>)"
  using assms by (simp add: ref_step_def ref_run_def ref_next_def ref_put_params put_row_def)

lemma ref_select_one:
  assumes "text_ok cap key"
  shows "\<exists>rc st'. ref_step (bind_all (ref_sqlite cap) [(1, SqlText key)] \<lparr>rt_sql = get_sql, rt_binds = [], rt_pending = None\<rparr>) q =
      (rc, st', q) \<and>
    (case ref_table q key of None \<Rightarrow> rc = SqlDone
     | Some row \<Rightarrow> \<exists>v. rc = SqlRow [v] \<and> data_view (ref_sqlite cap) (sr_data row) v)"
  using assms
  by (auto simp: ref_step_def ref_run_def ref_next_def ref_key_param ref_table_def data_view_def split: option.split)

lemma ref_delete:
  assumes "text_ok cap key"
  shows "\<exists>st'. ref_step (bind_all (ref_sqlite cap) [(1, SqlText key)] \<lparr>rt_sql = del_sql, rt_binds = [], rt_pending = None\<rparr>) q =
    (SqlDone, st', q\<lparr>rd_rows := AList.delete key (rd_rows q)\<rparr>)"
  using assms by (simp add: ref_step_def ref_run_def ref_next_def ref_key_param)

lemma ref_passes:
  assumes "list_all (\<lambda>(c, v). text_ok cap v) fs"
  shows "list_all (\<lambda>(i, c). same_number (as_text (param (bind_all (ref_sqlite cap) (text_binds (filter_binds fs))
      \<lparr>rt_sql = s, rt_binds = [], rt_pending = None\<rparr>) i)) (col_value c row)) (enumerate (Suc 0) (map fst fs)) \<longleftrightarrow>
    passes same_number fs row"
  using param_text_binds [OF assms, of _ s]
  by (auto simp: passes_def list_all_length nth_enumerate_eq split_def)

lemma ref_query:
  assumes "list_all (\<lambda>(c, v). text_ok cap v) fs"
  shows "\<exists>rows ks. emits (ref_sqlite cap) (bind_all (ref_sqlite cap) (text_binds (filter_binds fs))
        \<lparr>rt_sql = select_sql @ clauses fs, rt_binds = [], rt_pending = None\<rparr>) q rows q \<and>
      distinct ks \<and> set ks = {k. \<exists>row. ref_table q k = Some row \<and> passes same_number fs row} \<and>
      list_all2 (row_view (ref_sqlite cap) (ref_table q)) ks rows"
proof -
  let ?st = "bind_all (ref_sqlite cap) (text_binds (filter_binds fs))
        \<lparr>rt_sql = select_sql @ clauses fs, rt_binds = [], rt_pending = None\<rparr>"
  let ?hits = "filter (\<lambda>(k, row). passes same_number fs row) (AList.clearjunk (rd_rows q))"
  let ?rows = "map (\<lambda>(k, row). [SqlText k, SqlInt (sr_intent row), SqlInt (sr_isolation row),
               SqlInt (sr_priority row), SqlInt (int (length (sr_data row)))]) ?hits"
  have sel: "ref_select ?st q = ?hits"
    by (simp add: ref_select_def parse_clauses_print ref_passes [OF assms])
  have "emits (ref_sqlite cap) ?st q ?rows q"
    by (rule ref_emits_fresh) (simp_all add: ref_run_def sel)
  moreover have d: "distinct (map fst (AList.clearjunk (rd_rows q)))" by (rule distinct_clearjunk)
  then have "distinct (map fst ?hits)" by (rule distinct_map_filter)
  moreover have mem: "(k, row) \<in> set (AList.clearjunk (rd_rows q)) \<longleftrightarrow> ref_table q k = Some row" for k row
    using d by (metis map_of_eq_Some_iff map_of_clearjunk ref_table_def)
  then have "set (map fst ?hits) = {k. \<exists>row. ref_table q k = Some row \<and> passes same_number fs row}"
    by force
  moreover have "list_all2 (row_view (ref_sqlite cap) (ref_table q)) (map fst ?hits) ?rows"
    unfolding list.rel_map list_all2_same using mem by (auto simp: row_view_def)
  ultimately show ?thesis by blast
qed

lemma int_to_string_inj [simp]: "int_to_string i = int_to_string j \<longleftrightarrow> i = j"
  by (metis decimal_print option.inject)

interpretation lite: sqlite_engine "ref_sqlite cap" ref_table rd_created "\<lambda>q. True" cap same_number for cap
proof unfold_locales
  fix path and q q1 q2 :: ref_database
  show "sq_open (ref_sqlite cap) path q = (True, q1) \<Longrightarrow> sq_exec (ref_sqlite cap) create_sql q1 = (None, q2) \<Longrightarrow>
      rd_created q2"
    by auto
next
  fix q q' :: ref_database and key st l data rc st'
  assume "rd_created q" "text_ok cap key" "sq_prepare (ref_sqlite cap) put_sql q = Some st"
    "sq_step (ref_sqlite cap) (bind_all (ref_sqlite cap) (put_binds key l data) st) q = (rc, st', q')"
  then show "rd_created q' \<and>
      (if rc = SqlDone then ref_table q' = (ref_table q)(key \<mapsto> put_row cap l data) else ref_table q' = ref_table q)"
    using ref_insert [of cap key l data q] by (auto simp: ref_table_def update_conv')
next
  fix q :: ref_database and key
  assume "rd_created q" "text_ok cap key"
  then show "\<exists>st rc st' q'. sq_prepare (ref_sqlite cap) get_sql q = Some st \<and>
         sq_step (ref_sqlite cap) (bind_all (ref_sqlite cap) [(1, SqlText key)] st) q = (rc, st', q') \<and>
         rd_created q' \<and> ref_table q' = ref_table q \<and>
         (case ref_table q key of None \<Rightarrow> rc = SqlDone
          | Some row \<Rightarrow> \<exists>v. rc = SqlRow [v] \<and> data_view (ref_sqlite cap) (sr_data row) v)"
    using ref_select_one [of cap key q] by auto
next
  fix q q' :: ref_database and key st rc st'
  assume "rd_created q" "text_ok cap key" "sq_prepare (ref_sqlite cap) del_sql q = Some st"
    "sq_step (ref_sqlite cap) (bind_all (ref_sqlite cap) [(1, SqlText key)] st) q = (rc, st', q')"
  then show "rd_created q' \<and>
      (if rc = SqlDone then ref_table q' = (ref_table q)(key := None) else ref_table q' = ref_table q)"
    using ref_delete [of cap key q] by (auto simp: ref_table_def delete_conv')
next
  fix q :: ref_database and fs :: sql_filters
  assume "rd_created q" "list_all (\<lambda>(c, v). text_ok cap v) fs"
  then show "\<exists>st rows ks q'. sq_prepare (ref_sqlite cap) (select_sql @ clauses fs) q = Some st \<and>
         emits (ref_sqlite cap) (bind_all (ref_sqlite cap) (text_binds (filter_binds fs)) st) q rows q' \<and>
         rd_created q' \<and> ref_table q' = ref_table q \<and>
         distinct ks \<and> set ks = {k. \<exists>row. ref_table q k = Some row \<and> passes same_number fs row} \<and>
         list_all2 (row_view (ref_sqlite cap) (ref_table q)) ks rows"
    using ref_query [of cap fs q] by auto
next
  fix i j
  show "same_number (int_to_string i) j \<longleftrightarrow> i = j"
    by (simp add: same_number_def)
qed

subsection \<open>The worker's backends\<close>

text \<open>
  The registry a worker builds when it starts: files, the key-value server when one is configured,
  and SQLite. The backends work on the pair of the first two's state and the engine's.
\<close>

definition left_backend :: "'a any_backend \<Rightarrow> ('a \<times> 'c) any_backend" where
  "left_backend b =
     \<lparr>ab_put = (\<lambda>l data (x, y). let (r, x') = ab_put b l data x in (r, (x', y))),
      ab_get = (\<lambda>l (x, y). let (r, x') = ab_get b l x in (r, (x', y))),
      ab_del = (\<lambda>l (x, y). let (r, x') = ab_del b l x in (r, (x', y)))\<rparr>"

definition right_backend :: "'c any_backend \<Rightarrow> ('a \<times> 'c) any_backend" where
  "right_backend b =
     \<lparr>ab_put = (\<lambda>l data (x, y). let (r, y') = ab_put b l data y in (r, (x, y'))),
      ab_get = (\<lambda>l (x, y). let (r, y') = ab_get b l y in (r, (x, y'))),
      ab_del = (\<lambda>l (x, y). let (r, y') = ab_del b l y in (r, (x, y')))\<rparr>"

definition worker_backends ::
    "string list \<Rightarrow> 's server option \<Rightarrow> ('q, 'st) sqlite \<Rightarrow> ((fs \<times> 's) \<times> 'q) backend_registry" where
  "worker_backends storage kv api =
     register_backend ''sqlite'' (right_backend (sqlite_backend api))
       (case kv of
          None \<Rightarrow> register_backend ''file'' (left_backend (posix_backend storage)) []
        | Some exec \<Rightarrow>
            register_backend ''kv'' (left_backend (kv_backend exec ''labios:kv:''))
              (register_backend ''file'' (left_backend (posix_backend storage)) []))"

lemma worker_backends_resolve:
  "backend_resolve (worker_backends storage kv api) scheme =
     (if scheme = ''file'' then Some (left_backend (posix_backend storage))
      else if scheme = ''kv'' then map_option (\<lambda>exec. left_backend (kv_backend exec ''labios:kv:'')) kv
      else if scheme = ''sqlite'' then Some (right_backend (sqlite_backend api)) else None)"
  by (auto simp: worker_backends_def backend_resolve_def register_backend_def update_conv' split: option.split)

context sqlite_engine begin

text \<open>What a worker stores under a SQLite URI it reads back; files and key-value server stay as they are.\<close>

lemma worker_sqlite_put_get:
  assumes b: "backend_resolve (worker_backends storage kv api) ''sqlite'' = Some b"
    and "ready q" "text_ok cap (extract_key l)" "length data \<le> cap"
    and put: "ab_put b l data (x, q) = (Inr backend_ok, (x', q1))"
    and "extract_key l' = extract_key l" "healthy q1"
  shows "x' = x \<and> (\<exists>q2. ab_get b l' (x, q1) = (Inr \<lparr>bd_success = True, bd_error = [], bd_data = data\<rparr>, (x, q2)))"
proof -
  have beq: "b = right_backend (sqlite_backend api)" using b by (simp add: worker_backends_resolve)
  from put have p: "sqlite_put api l data q = (backend_ok, q1)" "x' = x"
    by (auto simp: beq right_backend_def sqlite_backend_def split: prod.splits)
  from put_get [OF assms(2,3) p(1) assms(6,7)] assms(4) p(2) show ?thesis
    by (auto simp: beq right_backend_def sqlite_backend_def)
qed

end

subsection \<open>Properties\<close>

text \<open>
  The key is the path of the URI only: labels that address the store by different authorities share
  the empty key.
\<close>

lemma extract_key_authority:
  assumes "CHR '':'' \<notin> set s" "CHR ''/'' \<notin> set a" "a \<noteq> []"
  shows "extract_key (l\<lparr>l_dest_uri := s @ ''://'' @ a\<rparr>) = []"
proof -
  have "hd a \<noteq> CHR ''/''" using assms by (cases a) auto
  moreover have "find_char (CHR ''/'') a = None" using assms by (simp add: find_char_None)
  ultimately have "u_path (parse_uri (s @ ''://'' @ a)) = []"
    unfolding parse_uri_scheme [OF assms(1)] using assms by (simp add: parse_rest_def empty_uri_def)
  then show ?thesis by (simp add: extract_key_def strip_leading_slash_def)
qed


text \<open>
  C23: A query of the SQLite backend ends and lists, each once and as JSON entries joined by commas,
  exactly the keys of the rows that pass every filter of the URI's query string; the table is left
  as it is.
\<close>

theorem sqlite_query_lists:
  assumes "sqlite_engine api tab ready healthy cap affine"
    and "ready q" "healthy q"
    and "fs = query_filters (u_query (parse_uri (if l_source_uri l \<noteq> [] then l_source_uri l else l_dest_uri l)))"
    and "list_all (\<lambda>(c, v). text_ok cap v) fs"
  shows "\<exists>ks q'. sqlite_query api l q =
      Some (\<lparr>bq_success = True, bq_error = [], bq_json_data = listing_json (tab q) ks\<rparr>, q') \<and>
    tab q' = tab q \<and> distinct ks \<and>
    set ks = {k. \<exists>row. tab q k = Some row \<and> passes affine fs row}"
  using assms by (rule sqlite_engine.query_lists)

lemma ref_put:
  assumes "text_ok cap (extract_key l)"
  shows "sqlite_put (ref_sqlite cap) l data q =
    (backend_ok, q\<lparr>rd_rows := AList.update (extract_key l) (put_row cap l data) (rd_rows q)\<rparr>)"
  using ref_insert [OF assms, of l data q] by (auto simp: sqlite_put_def)

definition sample_note :: label_data where
  "sample_note = default_label\<lparr>l_id := 5, l_dest_uri := ''sqlite:///notes/1'', l_intent := ToolOutput, l_priority := 2\<rparr>"

definition sample_search :: label_data where
  "sample_search = default_label\<lparr>l_id := 6, l_source_uri := ''sqlite:///notes?intent=3&x&priority=2''\<rparr>"

definition sample_database :: ref_database where
  "sample_database = \<lparr>rd_created = True, rd_rows =
     [(''notes/1'', \<lparr>sr_data = [7, 8], sr_intent = 3, sr_isolation = 0, sr_priority = 2\<rparr>),
      (''notes/2'', \<lparr>sr_data = [9], sr_intent = 3, sr_isolation = 1, sr_priority = 4\<rparr>)]\<rparr>"

lemma sample_note_key: "extract_key sample_note = ''notes/1''"
  by code_simp


theorem sqlite_query_lists_witness:
  "\<exists>q'. sqlite_query (ref_sqlite 16) sample_search sample_database =
     Some (\<lparr>bq_success = True, bq_error = [], bq_json_data = listing_json (ref_table sample_database) [''notes/1'']\<rparr>, q')"
proof -
  let ?fs = "[(ColIntent, ''3''), (ColPriority, ''2'')]"
  have f: "?fs = query_filters (u_query (parse_uri
      (if l_source_uri sample_search \<noteq> [] then l_source_uri sample_search else l_dest_uri sample_search)))"
    by code_simp
  have c: "rd_created sample_database" by (simp add: sample_database_def)
  have ok: "list_all (\<lambda>(c, v). text_ok 16 v) ?fs" by (simp add: text_ok_def)
  have digits: "int_to_string 3 = ''3''" "int_to_string 2 = ''2''" "int_to_string 4 = ''4''" by code_simp+
  have hits: "{k. \<exists>row. ref_table sample_database k = Some row \<and> passes same_number ?fs row} = {''notes/1''}"
    by (auto simp: ref_table_def sample_database_def passes_def same_number_def digits split: if_splits)
  have one: "ks = [x]" if d: "distinct ks" and sx: "set ks = {x}" for ks and x :: string
  proof -
    have "length ks = 1" using distinct_card [OF d] sx by simp
    then show ?thesis using sx by (cases ks) simp_all
  qed
  from sqlite_query_lists [OF lite.sqlite_engine_axioms c TrueI f ok]
  show ?thesis
    unfolding hits by (elim exE conjE) (drule (1) one, simp)
qed

end
