(* ===== verification/Docker.thy ===== *)
theory Docker
  imports Orchestrator
begin

text \<open>
  The Docker client (\<^verbatim>\<open>src/labios/elastic/docker_client.cpp\<close>): HTTP requests over a local socket,
  chunked bodies, and the requests that create, start and remove a container. The kernel's sockets
  are a parameter, a record of the calls over a state \<open>'k\<close>; what the client relies on of the kernel
  and the daemon behind it is the locale \<open>docker_peer\<close>. Loops over the kernel's answers may run
  forever and are partial functions.
\<close>

abbreviation crlf :: string where
  "crlf \<equiv> [CHR 0x0D, CHR 0x0A]"

subsection \<open>Numbers in base 16\<close>

definition hex_val :: "char \<Rightarrow> nat option" where
  "hex_val c =
     (let n = of_char c in
      if 48 \<le> n \<and> n \<le> 57 then Some (n - 48)
      else if 97 \<le> n \<and> n \<le> 102 then Some (n - 87)
      else if 65 \<le> n \<and> n \<le> 70 then Some (n - 55) else None)"

definition is_hex :: "char \<Rightarrow> bool" where
  "is_hex c \<longleftrightarrow> hex_val c \<noteq> None"

definition hex_digits_val :: "string \<Rightarrow> nat" where
  "hex_digits_val s = foldl (\<lambda>a c. 16 * a + the (hex_val c)) 0 s"

text \<open>An optional \<^verbatim>\<open>0x\<close>, only when a digit follows it.\<close>

definition skip_0x :: "string \<Rightarrow> string" where
  "skip_0x s =
     (case s of
        a # b # c # r \<Rightarrow> if a = CHR ''0'' \<and> (b = CHR ''x'' \<or> b = CHR ''X'') \<and> is_hex c then c # r else s
      | _ \<Rightarrow> s)"

text \<open>\<^verbatim>\<open>std::stoul(s, nullptr, 16)\<close>.\<close>

definition stoul16 :: "string \<Rightarrow> u64 result" where
  "stoul16 s =
     (let (neg, body) = split_sign (dropWhile is_space s); ds = takeWhile is_hex (skip_0x body)
      in if ds = [] then Inl ''stoul: invalid argument''
         else if hex_digits_val ds \<ge> 2 ^ 64 then Inl ''stoul: out of range''
         else Inr (if neg then - of_nat (hex_digits_val ds) else of_nat (hex_digits_val ds)))"

subsection \<open>Chunked bodies\<close>

text \<open>The loop of \<^verbatim>\<open>dechunk\<close>, over the text from the current position on.\<close>

function dechunk_loop :: "string \<Rightarrow> string \<Rightarrow> string result" where
  "dechunk_loop acc rest =
     (case find_sub crlf rest of
        None \<Rightarrow> Inr acc
      | Some pos \<Rightarrow>
          (case stoul16 (take pos rest) of
             Inl e \<Rightarrow> Inl e
           | Inr w \<Rightarrow>
               (let n = unat w; data = drop (pos + 2) rest in
                if n = 0 \<or> n > 10 * 1024 * 1024 \<or> n > length data then Inr acc
                else dechunk_loop (acc @ take n data) (drop (n + 2) data))))"
  by pat_completeness auto
termination by (relation "measure (\<lambda>(acc, rest). length rest)") auto

declare dechunk_loop.simps [simp del]

definition dechunk :: "string \<Rightarrow> string result" where
  "dechunk chunked = dechunk_loop [] chunked"

subsection \<open>Requests\<close>

record http_response =
  hr_status :: int
  hr_body :: string

datatype moved = Moved nat | WriteIntr | WriteFailed

datatype arrived = Received string | ReadIntr | ReadFailed

text \<open>A socket call that fails leaves its reason for \<^verbatim>\<open>strerror\<close>.\<close>

record 'k sockets =
  k_socket :: "'k \<Rightarrow> int \<times> 'k"
  k_connect :: "int \<Rightarrow> string \<Rightarrow> 'k \<Rightarrow> bool \<times> 'k"
  k_write :: "int \<Rightarrow> string \<Rightarrow> 'k \<Rightarrow> moved \<times> 'k"
  k_read :: "int \<Rightarrow> nat \<Rightarrow> 'k \<Rightarrow> arrived \<times> 'k"
  k_close :: "int \<Rightarrow> 'k \<Rightarrow> 'k"
  k_strerror :: "'k \<Rightarrow> string"

text \<open>\<^verbatim>\<open>strncpy\<close> into the socket address keeps at most 107 characters.\<close>

definition sun_path :: "string \<Rightarrow> string" where
  "sun_path p = take 107 (takeWhile (\<lambda>c. c \<noteq> CHR 0x00) p)"

definition request_text :: "string \<Rightarrow> string \<Rightarrow> string \<Rightarrow> string" where
  "request_text verb path body =
     verb @ '' '' @ path @ '' HTTP/1.1'' @ crlf @ ''Host: localhost'' @ crlf @
     (if body \<noteq> []
      then ''Content-Type: application/json'' @ crlf @
           ''Content-Length: '' @ nat_to_string (length body) @ crlf
      else []) @
     ''Connection: close'' @ crlf @ crlf @ body"

partial_function (option) send_all :: "'k sockets \<Rightarrow> int \<Rightarrow> string \<Rightarrow> 'k \<Rightarrow> (unit result \<times> 'k) option" where
  "send_all ks fd rest k =
     (if rest = [] then Some (Inr (), k)
      else (case k_write ks fd rest k of
              (Moved n, k') \<Rightarrow>
                if n > 0 then send_all ks fd (drop n rest) k'
                else Some (Inl (''write() failed: '' @ k_strerror ks k'), k')
            | (WriteIntr, k') \<Rightarrow> send_all ks fd rest k'
            | (WriteFailed, k') \<Rightarrow> Some (Inl (''write() failed: '' @ k_strerror ks k'), k')))"

text \<open>Reading goes on to the end of the stream; an error counts as the end.\<close>

partial_function (option) recv_all :: "'k sockets \<Rightarrow> int \<Rightarrow> string \<Rightarrow> 'k \<Rightarrow> (string \<times> 'k) option" where
  "recv_all ks fd response k =
     (case k_read ks fd 4096 k of
        (Received x, k') \<Rightarrow> if x \<noteq> [] then recv_all ks fd (response @ x) k' else Some (response, k')
      | (ReadIntr, k') \<Rightarrow> recv_all ks fd response k'
      | (ReadFailed, k') \<Rightarrow> Some (response, k'))"

definition to_lower :: "char \<Rightarrow> char" where
  "to_lower c = (let n = of_char c in if 65 \<le> n \<and> n \<le> (90 :: nat) then char_of (n + 32) else c)"

definition parse_status :: "string \<Rightarrow> int result" where
  "parse_status response =
     (case find_sub '' '' response of
        None \<Rightarrow> Inr 0
      | Some p \<Rightarrow> if p + 3 < length response then stoi (take 3 (drop (Suc p) response)) else Inr 0)"

definition parse_body :: "string \<Rightarrow> string result" where
  "parse_body response =
     (case find_sub (crlf @ crlf) response of
        None \<Rightarrow> Inr []
      | Some p \<Rightarrow>
          (let raw_body = drop (p + 4) response; lower_headers = map to_lower (take p response) in
           if find_sub ''transfer-encoding: chunked'' lower_headers \<noteq> None then dechunk raw_body
           else Inr raw_body))"

definition parse_response :: "string \<Rightarrow> http_response result" where
  "parse_response response =
     (case parse_status response of
        Inl e \<Rightarrow> Inl e
      | Inr status \<Rightarrow>
          (case parse_body response of
             Inl e \<Rightarrow> Inl e
           | Inr body \<Rightarrow> Inr \<lparr>hr_status = status, hr_body = body\<rparr>))"

text \<open>The guard closes the socket however the request ends.\<close>

definition http_request ::
    "'k sockets \<Rightarrow> string \<Rightarrow> string \<Rightarrow> string \<Rightarrow> string \<Rightarrow> 'k \<Rightarrow> (http_response result \<times> 'k) option" where
  "http_request ks socket_path verb path body k =
     (let (fd, k1) = k_socket ks k in
      if fd < 0 then Some (Inl (''socket() failed: '' @ k_strerror ks k1), k1)
      else
        (let (connected, k2) = k_connect ks fd (sun_path socket_path) k1 in
         if \<not> connected
         then Some (Inl (''connect() to '' @ socket_path @ '' failed: '' @ k_strerror ks k2), k_close ks fd k2)
         else
           (case send_all ks fd (request_text verb path body) k2 of
              None \<Rightarrow> None
            | Some (Inl e, k3) \<Rightarrow> Some (Inl e, k_close ks fd k3)
            | Some (Inr _, k3) \<Rightarrow>
                (case recv_all ks fd [] k3 of
                   None \<Rightarrow> None
                 | Some (response, k4) \<Rightarrow> Some (parse_response response, k_close ks fd k4)))))"

subsection \<open>Containers\<close>

definition json_string :: "string \<Rightarrow> string" where
  "json_string s = [CHR 0x22] @ s @ [CHR 0x22]"

fun env_list :: "string list \<Rightarrow> string" where
  "env_list [] = []"
| "env_list [e] = json_string e"
| "env_list (e # es) = json_string e @ '','' @ env_list es"

text \<open>The texts go into the JSON as they are, without escapes.\<close>

definition create_body :: "container_spec \<Rightarrow> string" where
  "create_body spec =
     ''{'' @ json_string ''Image'' @ '':'' @ json_string (cs_image spec) @ '','' @
     json_string ''Env'' @ '':['' @ env_list (cs_env spec) @ ''],'' @
     json_string ''Labels'' @ '':{'' @ json_string ''labios.elastic'' @ '':'' @ json_string ''true'' @ '','' @
     json_string ''labios.worker'' @ '':'' @ json_string (cs_name spec) @ ''},'' @
     json_string ''HostConfig'' @ '':{'' @ json_string ''NetworkMode'' @ '':'' @ json_string (cs_network spec) @ ''}}''"

definition create_path :: "container_spec \<Rightarrow> string" where
  "create_path spec = ''/v1.41/containers/create?name='' @ cs_name spec"

definition start_path :: "string \<Rightarrow> string" where
  "start_path cid = ''/v1.41/containers/'' @ cid @ ''/start''"

text \<open>The ID is the text after the first \<^verbatim>\<open>"Id":"\<close>, up to a quote or the end.\<close>

definition response_id :: "string \<Rightarrow> string option" where
  "response_id body =
     (case find_sub (json_string ''Id'' @ '':'' @ [CHR 0x22]) body of
        None \<Rightarrow> None
      | Some p \<Rightarrow> Some (takeWhile (\<lambda>c. c \<noteq> CHR 0x22) (drop (p + 6) body)))"

definition create_and_start ::
    "'k sockets \<Rightarrow> string \<Rightarrow> container_spec \<Rightarrow> 'k \<Rightarrow> (string result \<times> 'k) option" where
  "create_and_start ks socket_path spec k =
     (case http_request ks socket_path ''POST'' (create_path spec) (create_body spec) k of
        None \<Rightarrow> None
      | Some (Inl e, k1) \<Rightarrow> Some (Inl e, k1)
      | Some (Inr resp, k1) \<Rightarrow>
          if hr_status resp \<noteq> 201
          then Some (Inl (''Docker create failed ('' @ int_to_string (hr_status resp) @ ''): '' @ hr_body resp), k1)
          else
            (case response_id (hr_body resp) of
               None \<Rightarrow> Some (Inl ''No container ID in Docker response'', k1)
             | Some cid \<Rightarrow>
                 (case http_request ks socket_path ''POST'' (start_path cid) [] k1 of
                    None \<Rightarrow> None
                  | Some (Inl e, k2) \<Rightarrow> Some (Inl e, k2)
                  | Some (Inr sr, k2) \<Rightarrow>
                      if hr_status sr \<noteq> 204 \<and> hr_status sr \<noteq> 304
                      then Some (Inl (''Docker start failed ('' @ int_to_string (hr_status sr) @ ''): '' @ hr_body sr), k2)
                      else Some (Inr cid, k2))))"

definition stop_path :: "string \<Rightarrow> string" where
  "stop_path cid = ''/v1.41/containers/'' @ cid @ ''/stop?t=10''"

definition delete_path :: "string \<Rightarrow> string" where
  "delete_path cid = ''/v1.41/containers/'' @ cid"

text \<open>Both requests are sent whatever the first one gives; every exception is swallowed.\<close>

definition stop_and_remove :: "'k sockets \<Rightarrow> string \<Rightarrow> string \<Rightarrow> 'k \<Rightarrow> 'k option" where
  "stop_and_remove ks socket_path cid k =
     (case http_request ks socket_path ''POST'' (stop_path cid) [] k of
        None \<Rightarrow> None
      | Some (_, k1) \<Rightarrow>
          map_option snd (http_request ks socket_path ''DELETE'' (delete_path cid) [] k1))"

subsection \<open>Chunked encoding\<close>

text \<open>What a server sends: the size in base 16, an extension, the data; a last chunk of size zero.\<close>

definition lower_hex :: "nat \<Rightarrow> char" where
  "lower_hex d = char_of (if d < 10 then 48 + d else 87 + d)"

fun nat_to_hex :: "nat \<Rightarrow> string" where
  "nat_to_hex n = (if n < 16 then [lower_hex n] else nat_to_hex (n div 16) @ [lower_hex (n mod 16)])"

declare nat_to_hex.simps [simp del]

definition chunk_text :: "string \<times> string \<Rightarrow> string" where
  "chunk_text ch = (let (ext, data) = ch in nat_to_hex (length data) @ ext @ crlf @ data @ crlf)"

definition chunked_text :: "(string \<times> string) list \<Rightarrow> string \<Rightarrow> string" where
  "chunked_text chunks trailer = concat (map chunk_text chunks) @ ''0'' @ crlf @ trailer"

definition extension_ok :: "string \<Rightarrow> bool" where
  "extension_ok ext \<longleftrightarrow> CHR 0x0D \<notin> set ext \<and> (ext = [] \<or> hd ext = CHR '';'')"

lemma of_char_lower_hex: "d < 16 \<Longrightarrow> of_char (lower_hex d) = (if d < 10 then 48 + d else 87 + d)"
  by (simp add: lower_hex_def)

lemma hex_val_lower_hex [simp]: "d < 16 \<Longrightarrow> hex_val (lower_hex d) = Some d"
  by (auto simp: hex_val_def of_char_lower_hex)

lemma nat_to_hex_digits: "list_all is_hex (nat_to_hex n)"
proof (induction n rule: nat_to_hex.induct)
  case (1 n)
  then show ?case by (cases "n < 16") (simp_all add: nat_to_hex.simps [of n] is_hex_def)
qed

lemma nat_to_hex_nonempty [simp]: "nat_to_hex n \<noteq> []"
  by (simp add: nat_to_hex.simps [of n])

lemma hex_digits_val_snoc: "hex_digits_val (s @ [c]) = 16 * hex_digits_val s + the (hex_val c)"
  by (simp add: hex_digits_val_def)

lemma hex_digits_val_print: "hex_digits_val (nat_to_hex n) = n"
proof (induction n rule: nat_to_hex.induct)
  case (1 n)
  then show ?case
    by (cases "n < 16") (simp_all add: nat_to_hex.simps [of n] hex_digits_val_snoc, simp add: hex_digits_val_def)
qed

lemma not_hex [simp]:
  "\<not> is_hex (CHR '';'')" "\<not> is_hex (CHR 0x0D)" "\<not> is_hex (CHR ''-'')" "\<not> is_hex (CHR ''+'')"
  "\<not> is_hex (CHR ''x'')" "\<not> is_hex (CHR ''X'')" "is_space c \<Longrightarrow> \<not> is_hex c"
  by (auto simp: is_hex_def hex_val_def is_space_def)

lemma takeWhile_hex:
  assumes "list_all is_hex ds" "ext = [] \<or> hd ext = CHR '';''"
  shows "takeWhile is_hex (ds @ ext) = ds"
  using assms by (cases ext) (auto simp: takeWhile_append list_all_iff)

lemma skip_0x_hex:
  assumes "list_all is_hex ds" "ext = [] \<or> hd ext = CHR '';''"
  shows "skip_0x (ds @ ext) = ds @ ext"
proof -
  have "b \<noteq> CHR ''x'' \<and> b \<noteq> CHR ''X''" if "ds @ ext = a # b # r" "ds \<noteq> []" for a b r
    using that assms by (cases ds; cases "tl ds"; cases ext) auto
  then show ?thesis
    using assms by (cases "ds = []") (auto simp: skip_0x_def split: list.split)
qed

lemma stoul16_print:
  assumes "n < 2 ^ 64" "ext = [] \<or> hd ext = CHR '';''"
  shows "stoul16 (nat_to_hex n @ ext) = Inr (of_nat n)"
proof -
  obtain d ds where h: "nat_to_hex n = d # ds" by (cases "nat_to_hex n") auto
  have hx: "is_hex d" using nat_to_hex_digits [of n] h by simp
  have "\<not> is_space d" using hx not_hex(7) by blast
  moreover have "d \<noteq> CHR ''-''" "d \<noteq> CHR ''+''" using hx not_hex(3,4) by metis+
  ultimately have "split_sign (dropWhile is_space (nat_to_hex n @ ext)) = (False, nat_to_hex n @ ext)"
    by (simp add: h split_sign_def)
  then show ?thesis
    using assms hex_digits_val_print [of n]
    by (simp add: stoul16_def skip_0x_hex [OF nat_to_hex_digits assms(2)]
        takeWhile_hex [OF nat_to_hex_digits assms(2)])
qed

lemma hex_no_cr: "CHR 0x0D \<notin> set (nat_to_hex n)"
  using nat_to_hex_digits [of n] not_hex(2) by (auto simp: list_all_iff)

text \<open>One turn of the loop over a chunk.\<close>

lemma dechunk_chunk:
  assumes "extension_ok ext" "length data < 2 ^ 64"
  shows "dechunk_loop acc (chunk_text (ext, data) @ rest) =
    (if data = [] \<or> length data > 10 * 1024 * 1024 then Inr acc else dechunk_loop (acc @ data) rest)"
proof -
  let ?head = "nat_to_hex (length data) @ ext"
  have f: "find_sub crlf (?head @ crlf @ data @ crlf @ rest) = Some (length ?head)"
    using assms(1) hex_no_cr by (intro find_sub_append) (simp add: extension_ok_def)
  have st: "stoul16 ?head = Inr (of_nat (length data))"
    using assms by (intro stoul16_print) (auto simp: extension_ok_def)
  have t: "chunk_text (ext, data) @ rest = ?head @ crlf @ data @ crlf @ rest"
    by (simp add: chunk_text_def)
  have tk: "take (length ?head) (?head @ crlf @ data @ crlf @ rest) = ?head"
    "drop (length ?head + 2) (?head @ crlf @ data @ crlf @ rest) = data @ crlf @ rest"
    by simp_all
  show ?thesis
    unfolding t
    by (subst dechunk_loop.simps, unfold f option.case tk st sum.case Let_def unat_of_nat64 [OF assms(2)]) simp
qed

lemma dechunk_end: "dechunk_loop acc (''0'' @ crlf @ trailer) = Inr acc"
proof -
  have f: "find_sub crlf (''0'' @ crlf @ trailer) = Some (length ''0'')"
    by (rule find_sub_append) simp
  have zero: "char_of (48 :: nat) = CHR ''0''" by code_simp
  have s: "stoul16 (take (length ''0'') (''0'' @ crlf @ trailer)) = Inr 0"
    using stoul16_print [of 0 "[]"] zero by (simp add: nat_to_hex.simps lower_hex_def)
  show ?thesis
    by (subst dechunk_loop.simps, unfold f option.case s sum.case Let_def) simp
qed

lemma dechunk_chunks:
  "list_all (\<lambda>(ext, data). extension_ok ext \<and> data \<noteq> [] \<and> length data \<le> 10 * 1024 * 1024) chunks \<Longrightarrow>
   dechunk_loop acc (chunked_text chunks trailer) = Inr (acc @ concat (map snd chunks))"
proof (induction chunks arbitrary: acc)
  case Nil
  then show ?case using dechunk_end [of acc trailer] by (simp add: chunked_text_def)
next
  case (Cons ch chunks)
  obtain ext data where ch: "ch = (ext, data)" by fastforce
  show ?case
    using Cons dechunk_chunk [of ext data acc "chunked_text chunks trailer"]
    by (simp add: ch chunked_text_def)
qed

text \<open>
  C19: Decoding a chunked body gives back the data of its chunks, whatever their number, their
  extensions and the trailer after the last chunk, when no chunk is larger than the limit of 10 MiB.
\<close>

theorem dechunk_roundtrip:
  assumes "list_all (\<lambda>(ext, data). extension_ok ext \<and> data \<noteq> [] \<and> length data \<le> 10 * 1024 * 1024) chunks"
  shows "dechunk (chunked_text chunks trailer) = Inr (concat (map snd chunks))"
  using dechunk_chunks [OF assms, of "[]"] by (simp add: dechunk_def)

theorem dechunk_roundtrip_witness:
  "dechunk (chunked_text [([], ''hello''), ('';a=b'', '' world'')] crlf) = Inr ''hello world''"
  using dechunk_roundtrip [of "[([], ''hello''), ('';a=b'', '' world'')]" crlf]
  by (simp add: extension_ok_def)

subsection \<open>The peer\<close>

text \<open>
  A daemon that answers every request, behind a kernel that may write and read in pieces and may
  interrupt any call, though not forever. \<open>serve\<close> is the daemon: a request to its response and the
  next state. \<open>idle d k\<close>: no connection is open and the daemon is in state \<open>d\<close>. \<open>talks fd req got d k\<close>:
  on \<open>fd\<close> the client has sent \<open>req\<close> to a daemon in state \<open>d\<close> and has read \<open>got\<close> characters of the
  response. \<open>fuse k\<close> bounds the interruptions before the next piece moves.
\<close>

locale docker_peer =
  fixes ks :: "'k sockets" and path :: string and serve :: "string \<Rightarrow> 'd \<Rightarrow> string \<times> 'd"
    and idle :: "'d \<Rightarrow> 'k \<Rightarrow> bool" and talks :: "int \<Rightarrow> string \<Rightarrow> nat \<Rightarrow> 'd \<Rightarrow> 'k \<Rightarrow> bool"
    and fuse :: "'k \<Rightarrow> nat"
  assumes connect_law: "idle d k \<Longrightarrow>
      \<exists>fd k1 k2. k_socket ks k = (fd, k1) \<and> 0 \<le> fd \<and> k_connect ks fd (sun_path path) k1 = (True, k2) \<and>
        talks fd [] 0 d k2"
    and write_law: "talks fd sent 0 d k \<Longrightarrow> rest \<noteq> [] \<Longrightarrow> \<exists>m k'. k_write ks fd rest k = (m, k') \<and>
      (case m of
         Moved n \<Rightarrow> 0 < n \<and> n \<le> length rest \<and> talks fd (sent @ take n rest) 0 d k'
       | WriteIntr \<Rightarrow> talks fd sent 0 d k' \<and> fuse k' < fuse k
       | WriteFailed \<Rightarrow> False)"
    and read_law: "req = request_text verb p body \<Longrightarrow> talks fd req got d k \<Longrightarrow> got \<le> length (fst (serve req d)) \<Longrightarrow>
      \<exists>m k'. k_read ks fd 4096 k = (m, k') \<and>
      (case m of
         Received x \<Rightarrow> x = take (length x) (drop got (fst (serve req d))) \<and>
           (x = [] \<longrightarrow> got = length (fst (serve req d))) \<and> talks fd req (got + length x) d k'
       | ReadIntr \<Rightarrow> talks fd req got d k' \<and> fuse k' < fuse k
       | ReadFailed \<Rightarrow> False)"
    and close_law: "req = request_text verb p body \<Longrightarrow> talks fd req (length (fst (serve req d))) d k \<Longrightarrow>
      idle (snd (serve req d)) (k_close ks fd k)"
begin

lemma send_all_sends:
  "talks fd sent 0 d k \<Longrightarrow> \<exists>k'. send_all ks fd rest k = Some (Inr (), k') \<and> talks fd (sent @ rest) 0 d k'"
proof (induction "length rest" arbitrary: rest sent k rule: less_induct)
  case less
  note shorter = less.hyps
  from less.prems show ?case
  proof (induction "fuse k" arbitrary: k rule: less_induct)
    case less
    show ?case
    proof (cases "rest = []")
      case True
      then show ?thesis using less.prems by (simp add: send_all.simps [of ks fd "[]"])
    next
      case False
      from write_law [OF less.prems False] obtain m k' where w: "k_write ks fd rest k = (m, k')"
        and m: "case m of Moved n \<Rightarrow> 0 < n \<and> n \<le> length rest \<and> talks fd (sent @ take n rest) 0 d k'
          | WriteIntr \<Rightarrow> talks fd sent 0 d k' \<and> fuse k' < fuse k | WriteFailed \<Rightarrow> False"
        by blast
      show ?thesis
      proof (cases m)
        case (Moved n)
        then have "length (drop n rest) < length rest" "talks fd (sent @ take n rest) 0 d k'" using m False by auto
        from shorter [OF this] show ?thesis using w m Moved False by (simp add: send_all.simps [of ks fd rest])
      next
        case WriteIntr
        then have "fuse k' < fuse k" "talks fd sent 0 d k'" using m by auto
        from less.hyps [OF this] show ?thesis
          using w WriteIntr False by (simp add: send_all.simps [of ks fd rest k])
      next
        case WriteFailed
        then show ?thesis using m by simp
      qed
    qed
  qed
qed

lemma recv_all_receives:
  assumes req: "req = request_text verb p body"
  shows "talks fd req got d k \<Longrightarrow> got \<le> length (fst (serve req d)) \<Longrightarrow>
    \<exists>k'. recv_all ks fd (take got (fst (serve req d))) k = Some (fst (serve req d), k') \<and>
      talks fd req (length (fst (serve req d))) d k'"
proof (induction "length (fst (serve req d)) - got" arbitrary: got k rule: less_induct)
  case less
  note shorter = less.hyps
  let ?resp = "fst (serve req d)"
  from less.prems show ?case
  proof (induction "fuse k" arbitrary: k rule: less_induct)
    case less
    from read_law [OF req less.prems] obtain m k' where r: "k_read ks fd 4096 k = (m, k')"
      and m: "case m of Received x \<Rightarrow> x = take (length x) (drop got ?resp) \<and> (x = [] \<longrightarrow> got = length ?resp) \<and>
          talks fd req (got + length x) d k'
        | ReadIntr \<Rightarrow> talks fd req got d k' \<and> fuse k' < fuse k | ReadFailed \<Rightarrow> False"
      by blast
    show ?case
    proof (cases m)
      case (Received x)
      then have x: "x = take (length x) (drop got ?resp)" "x = [] \<longrightarrow> got = length ?resp"
        "talks fd req (got + length x) d k'" using m by auto
      show ?thesis
      proof (cases "x = []")
        case True
        then show ?thesis using x r Received by (simp add: recv_all.simps [of ks fd _ k])
      next
        case False
        have le: "got + length x \<le> length ?resp"
          using arg_cong [OF x(1), of length] less.prems(2) by simp
        have ap: "take got ?resp @ x = take (got + length x) ?resp"
          by (subst x(1)) (simp add: take_add)
        have "length ?resp - (got + length x) < length ?resp - got" using False le by (cases x) auto
        from shorter [OF this x(3) le] show ?thesis
          using False r Received ap by (simp add: recv_all.simps [of ks fd "take got ?resp" k])
      qed
    next
      case ReadIntr
      then have "fuse k' < fuse k" "talks fd req got d k'" using m by auto
      from less.hyps [OF this less.prems(2)] show ?thesis
        using r ReadIntr by (simp add: recv_all.simps [of ks fd "take got ?resp" k])
    next
      case ReadFailed
      then show ?thesis using m by simp
    qed
  qed
qed

text \<open>However the pieces move, one request is one call of the daemon.\<close>

lemma exchange:
  assumes "idle d k"
  shows "\<exists>k'. http_request ks path verb p body k =
      Some (parse_response (fst (serve (request_text verb p body) d)), k') \<and>
    idle (snd (serve (request_text verb p body) d)) k'"
proof -
  let ?req = "request_text verb p body"
  from connect_law [OF assms] obtain fd k1 k2 where c: "k_socket ks k = (fd, k1)" "0 \<le> fd"
    "k_connect ks fd (sun_path path) k1 = (True, k2)" "talks fd [] 0 d k2" by blast
  from send_all_sends [OF c(4), of ?req] obtain k3 where s: "send_all ks fd ?req k2 = Some (Inr (), k3)"
    "talks fd ?req 0 d k3" by auto
  from recv_all_receives [OF refl s(2)] obtain k4 where r: "recv_all ks fd [] k3 = Some (fst (serve ?req d), k4)"
    "talks fd ?req (length (fst (serve ?req d))) d k4" by auto
  show ?thesis
    using c(1-3) s(1) r(1) close_law [OF refl r(2)] by (simp add: http_request_def)
qed

lemma create_outcome:
  assumes "idle d k"
    and r1: "serve (request_text ''POST'' (create_path spec) (create_body spec)) d = (r1, d1)"
      "parse_response r1 = Inr a" "hr_status a = 201" "response_id (hr_body a) = Some cid"
    and r2: "serve (request_text ''POST'' (start_path cid) []) d1 = (r2, d2)" "parse_response r2 = Inr b"
  shows "\<exists>k'. create_and_start ks path spec k =
      Some (if hr_status b = 204 \<or> hr_status b = 304 then Inr cid
            else Inl (''Docker start failed ('' @ int_to_string (hr_status b) @ ''): '' @ hr_body b), k') \<and>
    idle d2 k'"
proof -
  from exchange [OF assms(1), of "''POST''" "create_path spec" "create_body spec"] obtain k1 where
    e1: "http_request ks path ''POST'' (create_path spec) (create_body spec) k = Some (Inr a, k1)" "idle d1 k1"
    using r1 by auto
  from exchange [OF e1(2), of "''POST''" "start_path cid" "[]"] obtain k2 where
    e2: "http_request ks path ''POST'' (start_path cid) [] k1 = Some (Inr b, k2)" "idle d2 k2"
    using r2 by auto
  show ?thesis using e1(1) e2 r1(3,4) by (simp add: create_and_start_def)
qed

lemma stop_outcome:
  assumes "idle d k"
    and "serve (request_text ''POST'' (stop_path cid) []) d = (r1, d1)"
    and "serve (request_text ''DELETE'' (delete_path cid) []) d1 = (r2, d2)"
  shows "\<exists>k'. stop_and_remove ks path cid k = Some k' \<and> idle d2 k'"
proof -
  from exchange [OF assms(1), of "''POST''" "stop_path cid" "[]"] obtain k1 where
    e1: "http_request ks path ''POST'' (stop_path cid) [] k = Some (parse_response r1, k1)" "idle d1 k1"
    using assms(2) by auto
  from exchange [OF e1(2), of "''DELETE''" "delete_path cid" "[]"] obtain k2 where
    "http_request ks path ''DELETE'' (delete_path cid) [] k1 = Some (parse_response r2, k2)" "idle d2 k2"
    using assms(3) by auto
  then show ?thesis using e1(1) by (simp add: stop_and_remove_def)
qed

end

subsection \<open>A kernel that keeps the contract\<close>

text \<open>It moves 16 characters at a time and interrupts every other call; any daemon can be behind it.\<close>

record 'd ref_socket =
  rk_conn :: "(string \<times> nat) option"
  rk_daemon :: 'd
  rk_calm :: bool

definition ref_write :: "string \<Rightarrow> 'd ref_socket \<Rightarrow> moved \<times> 'd ref_socket" where
  "ref_write rest k =
     (case rk_conn k of
        None \<Rightarrow> (WriteFailed, k)
      | Some (sent, got) \<Rightarrow>
          if \<not> rk_calm k then (WriteIntr, k\<lparr>rk_calm := True\<rparr>)
          else (let n = min 16 (length rest)
                in (Moved n, k\<lparr>rk_conn := Some (sent @ take n rest, got), rk_calm := False\<rparr>)))"

definition ref_read :: "(string \<Rightarrow> 'd \<Rightarrow> string \<times> 'd) \<Rightarrow> 'd ref_socket \<Rightarrow> arrived \<times> 'd ref_socket" where
  "ref_read serve k =
     (case rk_conn k of
        None \<Rightarrow> (ReadFailed, k)
      | Some (sent, got) \<Rightarrow>
          if \<not> rk_calm k then (ReadIntr, k\<lparr>rk_calm := True\<rparr>)
          else (let x = take 16 (drop got (fst (serve sent (rk_daemon k))))
                in (Received x, k\<lparr>rk_conn := Some (sent, got + length x), rk_calm := False\<rparr>)))"

definition ref_close :: "(string \<Rightarrow> 'd \<Rightarrow> string \<times> 'd) \<Rightarrow> 'd ref_socket \<Rightarrow> 'd ref_socket" where
  "ref_close serve k =
     (case rk_conn k of
        None \<Rightarrow> k
      | Some (sent, got) \<Rightarrow> k\<lparr>rk_conn := None, rk_daemon := snd (serve sent (rk_daemon k))\<rparr>)"

definition ref_sockets :: "(string \<Rightarrow> 'd \<Rightarrow> string \<times> 'd) \<Rightarrow> 'd ref_socket sockets" where
  "ref_sockets serve =
     \<lparr>k_socket = (\<lambda>k. (3, k)), k_connect = (\<lambda>fd p k. (True, k\<lparr>rk_conn := Some ([], 0)\<rparr>)),
      k_write = (\<lambda>fd. ref_write), k_read = (\<lambda>fd n. ref_read serve), k_close = (\<lambda>fd. ref_close serve),
      k_strerror = (\<lambda>k. ''Success'')\<rparr>"

definition ref_idle :: "'d \<Rightarrow> 'd ref_socket \<Rightarrow> bool" where
  "ref_idle d k \<longleftrightarrow> rk_conn k = None \<and> rk_daemon k = d"

definition ref_talks :: "int \<Rightarrow> string \<Rightarrow> nat \<Rightarrow> 'd \<Rightarrow> 'd ref_socket \<Rightarrow> bool" where
  "ref_talks fd req got d k \<longleftrightarrow> rk_conn k = Some (req, got) \<and> rk_daemon k = d"

definition ref_fuse :: "'d ref_socket \<Rightarrow> nat" where
  "ref_fuse k = (if rk_calm k then 0 else 1)"

interpretation local_daemon: docker_peer "ref_sockets serve" path serve ref_idle ref_talks ref_fuse
  for serve :: "string \<Rightarrow> 'd \<Rightarrow> string \<times> 'd" and path
proof unfold_locales
  fix d and k :: "'d ref_socket"
  assume "ref_idle d k"
  then show "\<exists>fd k1 k2. k_socket (ref_sockets serve) k = (fd, k1) \<and> 0 \<le> fd \<and>
      k_connect (ref_sockets serve) fd (sun_path path) k1 = (True, k2) \<and> ref_talks fd [] 0 d k2"
    by (simp add: ref_idle_def ref_talks_def ref_sockets_def)
next
  fix fd sent d and k :: "'d ref_socket" and rest :: string
  assume "ref_talks fd sent 0 d k" "rest \<noteq> []"
  then show "\<exists>m k'. k_write (ref_sockets serve) fd rest k = (m, k') \<and>
      (case m of Moved n \<Rightarrow> 0 < n \<and> n \<le> length rest \<and> ref_talks fd (sent @ take n rest) 0 d k'
       | WriteIntr \<Rightarrow> ref_talks fd sent 0 d k' \<and> ref_fuse k' < ref_fuse k | WriteFailed \<Rightarrow> False)"
    by (simp add: ref_talks_def ref_sockets_def ref_write_def ref_fuse_def Let_def)
next
  fix req verb p body fd got d and k :: "'d ref_socket"
  assume "ref_talks fd req got d k" "got \<le> length (fst (serve req d))"
  then show "\<exists>m k'. k_read (ref_sockets serve) fd 4096 k = (m, k') \<and>
      (case m of
         Received x \<Rightarrow> x = take (length x) (drop got (fst (serve req d))) \<and>
           (x = [] \<longrightarrow> got = length (fst (serve req d))) \<and> ref_talks fd req (got + length x) d k'
       | ReadIntr \<Rightarrow> ref_talks fd req got d k' \<and> ref_fuse k' < ref_fuse k | ReadFailed \<Rightarrow> False)"
    by (auto simp: ref_talks_def ref_sockets_def ref_read_def ref_fuse_def Let_def min_def)
next
  fix req verb p body fd d and k :: "'d ref_socket"
  assume "ref_talks fd req (length (fst (serve req d))) d k"
  then show "ref_idle (snd (serve req d)) (k_close (ref_sockets serve) fd k)"
    by (simp add: ref_talks_def ref_idle_def ref_sockets_def ref_close_def)
qed

text \<open>
  C18: Creating a container, over a kernel that may split and interrupt every write and read, makes
  exactly two calls of the daemon, the creation and the start of the container it answered with,
  and gives the container's ID when the daemon accepts the start. When the start is refused the
  client throws and makes no further call: the created container is not removed.
\<close>

theorem container_created:
  assumes "docker_peer ks path serve idle talks fuse" "idle d k"
    and "serve (request_text ''POST'' (create_path spec) (create_body spec)) d = (r1, d1)"
      "parse_response r1 = Inr a" "hr_status a = 201" "response_id (hr_body a) = Some cid"
    and "serve (request_text ''POST'' (start_path cid) []) d1 = (r2, d2)" "parse_response r2 = Inr b"
  shows "\<exists>k'. create_and_start ks path spec k =
      Some (if hr_status b = 204 \<or> hr_status b = 304 then Inr cid
            else Inl (''Docker start failed ('' @ int_to_string (hr_status b) @ ''): '' @ hr_body b), k') \<and>
    idle d2 k'"
  using assms by (rule docker_peer.create_outcome)

text \<open>A daemon that creates the container \<^verbatim>\<open>c1\<close> once and refuses to start it.\<close>

definition created_reply :: string where
  "created_reply = ''HTTP/1.1 201 Created'' @ crlf @ crlf @ ''{'' @ json_string ''Id'' @ '':'' @ json_string ''c1'' @ ''}''"

definition refused_reply :: string where
  "refused_reply = ''HTTP/1.1 500 Internal Server Error'' @ crlf @ crlf @ ''no such image''"

definition refusing_daemon :: "string \<Rightarrow> string list \<Rightarrow> string \<times> string list" where
  "refusing_daemon req seen = (if seen = [] then created_reply else refused_reply, seen @ [req])"

definition sample_spec :: container_spec where
  "sample_spec = \<lparr>cs_image = ''labios'', cs_name = ''w7'', cs_env = [''A=1'', ''B=2''], cs_network = ''net''\<rparr>"

theorem container_created_witness:
  "\<exists>k'. create_and_start (ref_sockets refusing_daemon) ''/var/run/docker.sock'' sample_spec
      \<lparr>rk_conn = None, rk_daemon = [], rk_calm = False\<rparr> =
    Some (Inl ''Docker start failed (500): no such image'', k') \<and>
    rk_daemon k' = [request_text ''POST'' (create_path sample_spec) (create_body sample_spec),
      request_text ''POST'' (start_path ''c1'') []]"
proof -
  let ?b = "''{'' @ json_string ''Id'' @ '':'' @ json_string ''c1'' @ ''}''"
  let ?q1 = "request_text ''POST'' (create_path sample_spec) (create_body sample_spec)"
  let ?q2 = "request_text ''POST'' (start_path ''c1'') []"
  have p: "parse_response created_reply = Inr \<lparr>hr_status = 201, hr_body = ?b\<rparr>"
    "parse_response refused_reply = Inr \<lparr>hr_status = 500, hr_body = ''no such image''\<rparr>" by code_simp+
  have c: "response_id (hr_body \<lparr>hr_status = 201, hr_body = ?b\<rparr>) = Some ''c1''" by code_simp
  have n: "int_to_string 500 = ''500''" by code_simp
  have i: "ref_idle [] \<lparr>rk_conn = None, rk_daemon = [], rk_calm = False\<rparr>" by (simp add: ref_idle_def)
  have st: "hr_status \<lparr>hr_status = 201, hr_body = ?b\<rparr> = 201" by simp
  have s: "refusing_daemon ?q1 [] = (created_reply, [?q1])"
    "refusing_daemon ?q2 [?q1] = (refused_reply, [?q1, ?q2])" by (simp_all add: refusing_daemon_def)
  from container_created [OF local_daemon.docker_peer_axioms i s(1) p(1) st c s(2) p(2), of "''/var/run/docker.sock''"]
  show ?thesis by (auto simp: n ref_idle_def)
qed

end
