(* ===== verification/Spec2Isabelle.thy ===== *)
theory Spec2Isabelle
  imports LabelCodec Snowflake Shuffler Uri Orchestrator Worker Intercept Delivery Sqlite Docker
begin

text \<open>
  A verification development for LABIOS, a label-based I/O system in C++: a client turns an I/O
  call into labels, the dispatcher shuffles batches of labels and assigns them to workers, a worker
  executes each label against a storage backend and answers it. Redis (the warehouse) holds staged
  data and the catalog; NATS carries the labels, completions and notifications.

  \<^bold>\<open>Theories and the code they model\<close> (paths under \<^verbatim>\<open>src/\<close> and \<^verbatim>\<open>include/labios/\<close>)

  \<^item> \<open>Prelude\<close>: machine integers, decimal text, results (\<open>string + 'a\<close>, the text being that of the
    exception), parsing of integers as \<^verbatim>\<open>stoull\<close> and \<^verbatim>\<open>from_chars\<close> do it, list lemmas.
  \<^item> \<open>Label\<close>: \<^verbatim>\<open>LabelData\<close> with its nested structures and the lifecycle marks of
    \<^verbatim>\<open>labios/label.cpp\<close>. \<open>LabelCodec\<close>: the conversion to and from the FlatBuffers table of
    the same file. \<open>Snowflake\<close>: \<^verbatim>\<open>generate_label_id\<close>, as the atomic steps of any number of threads.
  \<^item> \<open>Sds\<close>: pipelines (\<^verbatim>\<open>labios/sds\<close>): text format, built-in functions, repository, executor.
  \<^item> \<open>Shuffler\<close>: \<^verbatim>\<open>labios/shuffler.cpp\<close>: merging of adjacent writes, hazards, supertasks, packing.
  \<^item> \<open>Uri\<close>: \<^verbatim>\<open>labios/uri.cpp\<close>.
  \<^item> \<open>Solver\<close>: \<^verbatim>\<open>labios/solver\<close>; \<open>WorkerManager\<close>: \<^verbatim>\<open>labios/worker_manager.cpp\<close>.
  \<^item> \<open>Elastic\<close>, \<open>Orchestrator\<close>: \<^verbatim>\<open>labios/elastic\<close>, the decision engine and the thread that acts on it.
  \<^item> \<open>Config\<close>: \<^verbatim>\<open>labios/config.cpp\<close>.
  \<^item> \<open>Redis\<close>, \<open>Nats\<close>: \<^verbatim>\<open>labios/transport\<close>, the two connections every other component uses.
  \<^item> \<open>Catalog\<close>, \<open>Content\<close>: \<^verbatim>\<open>labios/catalog_manager.cpp\<close>, \<^verbatim>\<open>labios/content_manager.cpp\<close>.
  \<^item> \<open>Channel\<close>, \<open>Workspace\<close>, \<open>Continuation\<close>: \<^verbatim>\<open>labios/channel.cpp\<close>, \<^verbatim>\<open>labios/workspace.cpp\<close>,
    \<^verbatim>\<open>labios/continuation.cpp\<close>.
  \<^item> \<open>Backend\<close>, \<open>Sqlite\<close>: \<^verbatim>\<open>labios/backend\<close>, the file, key-value and SQLite backends and their registry.
  \<^item> \<open>LabelManager\<close>: \<^verbatim>\<open>labios/label_manager.cpp\<close> and \<^verbatim>\<open>labios/session.cpp\<close>, publishing and waiting on
    the client's side; \<open>Client\<close>: \<^verbatim>\<open>labios/client.cpp\<close> and the C interface \<^verbatim>\<open>labios/c_api.cpp\<close>.
  \<^item> \<open>FdTable\<close>, \<open>PosixAdapter\<close>: \<^verbatim>\<open>labios/adapter\<close>, file calls on LABIOS descriptors; \<open>Intercept\<close>:
    \<^verbatim>\<open>drivers/posix_intercept.cpp\<close>, the preloaded library that sends each call there or to libc.
  \<^item> \<open>Worker\<close>: the message handler of \<^verbatim>\<open>services/labios-worker.cpp\<close>, which composes the backends, the
    catalog, the pipelines, the channels and the continuations.
  \<^item> \<open>Manager\<close>: \<^verbatim>\<open>services/labios-manager.cpp\<close>, \<^verbatim>\<open>labios/worker_registry_protocol.cpp\<close> and what a worker
    announces; \<open>Docker\<close>: \<^verbatim>\<open>labios/elastic/docker_client.cpp\<close>, the runtime the manager's
    orchestrator drives.
  \<^item> \<open>Observability\<close>: \<^verbatim>\<open>labios/observability.cpp\<close> and \<^verbatim>\<open>labios/telemetry.cpp\<close>.
  \<^item> \<open>Dispatcher\<close>: \<^verbatim>\<open>services/labios-dispatcher.cpp\<close>, one batch from the buffer to the workers, over the
    shuffler, the solvers, the continuations and the queries; \<open>Delivery\<close>: what a batch leaves behind.

  \<^bold>\<open>How state and effects are modelled\<close>

  A class is a record of its fields and a method a function from the record to its result and the
  new record. An operation that talks to a server has the type \<open>('s, 'a) redis_op\<close>, a state
  transformer that returns the result or the exception's text; \<open>op_bind\<close>, \<open>op_each\<close>, \<open>op_catch\<close>
  compose it as statements, loops and \<^verbatim>\<open>try\<close> blocks do. The Redis server (\<open>'s server\<close>: a command
  to a reply, over its own state) and the NATS library (\<open>'n nats_lib\<close>) are parameters; what the code
  relies on of them is the locales \<open>redis_server\<close>, \<open>nats_link\<close> and \<open>io_link\<close>, interpreted on
  reference implementations, on which the witnesses run. \<open>yields v m d r d'\<close> reads: from a state whose
  view is \<open>d\<close>, the operation \<open>m\<close> gives \<open>r\<close> and leaves the view \<open>d'\<close>; each operation has its law
  in this form, and the laws compose by \<open>yields_bind\<close>. Machine integers are words of their width.
  \<open>does V m R\<close> is the same for the two connections together: the operation \<open>m\<close> ends without an
  exception and relates the views before and after by \<open>R\<close>. What else is not under \<^verbatim>\<open>src/\<close> is a
  parameter in the same way, with its contract as a locale: the kernel's descriptors
  (\<open>descriptor_kernel\<close>), libc, the SQL engine (\<open>sqlite_engine\<close>), sockets and the Docker daemon
  (\<open>docker_peer\<close>). Interfaces between components are locales too: \<open>label_solver\<close>,
  \<open>container_runtime\<close>, \<open>dispatcher_link\<close>. Machine integers are words of their width. Mutexes make the
  methods of a class atomic; only the label identifiers, which use bare atomics, are modelled with
  interleaved steps.

  \<^bold>\<open>What the groups of lemmas show\<close>

  \<^item> Shuffling keeps every label, orders conflicting ones, and merging writes does not change what
    they write (\<open>Shuffler\<close>); identifiers are distinct unless two threads race (\<open>Snowflake\<close>).
  \<^item> Labels, pipelines, URIs, run-length data, packed supertasks and chain templates survive encoding
    and decoding (\<open>LabelCodec\<close>, \<open>Sds\<close>, \<open>Uri\<close>, \<open>Shuffler\<close>, \<open>Continuation\<close>).
  \<^item> The worker manager's buckets, scores and registry agree in every reachable state; solvers hand
    out every label; elastic decisions respect their bounds (\<open>WorkerManager\<close>, \<open>Solver\<close>, \<open>Elastic\<close>,
    \<open>Orchestrator\<close>).
  \<^item> The catalog refines a file history; the small-I/O cache is transparent as long as writes do not
    overlap, and its accounting is exact (\<open>Catalog\<close>, \<open>Content\<close>). A workspace refines a history of
    values per key, and only its owner and grantees reach it (\<open>Workspace\<close>).
  \<^item> Replies reach their requests, channel messages their subscribers, paths stay under the storage
    root, stored data reads back, and every label with a reply address is answered once (\<open>Nats\<close>,
    \<open>Channel\<close>, \<open>Backend\<close>, \<open>Sqlite\<close>, \<open>Worker\<close>).
  \<^item> A write of any size is cut into labels that cover it and a read is put together from its labels
    (\<open>LabelManager\<close>); descriptors share and release their file state, small writes read back from the
    cache, and each call goes where its file was opened (\<open>FdTable\<close>, \<open>PosixAdapter\<close>, \<open>Intercept\<close>).
  \<^item> Every label of a batch is sent to a worker, alone or in a pack that decodes to it; merged writes
    are staged as one write and answer all their clients (\<open>Delivery\<close>). The dispatcher decodes exactly
    the workers that announced themselves (\<open>Manager\<close>); queries list what exists and telemetry adds up
    (\<open>Observability\<close>). Requests to the daemon survive split and interrupted socket calls, and chunked
    bodies decode to their data (\<open>Docker\<close>).
  \<^item> Where the code fails its purpose the failure is a theorem or a lemma too: racing label
    identifiers, a merged write inside a supertask that loses its data, a preloaded \<^verbatim>\<open>dup\<close> that never
    returns, oversized data that SQLite reports as stored, a container left behind by a failed start,
    overlapping cached writes, doubled channel deliveries, reads that lose their data on a retry.

  \<^bold>\<open>Fuel\<close>

  Scanning keys (\<open>scan_loop\<close>, and so the queries, \<open>process_batch\<close> and the destruction of a channel)
  follows a cursor the server chooses, so it has fuel and \<open>None\<close> means that it ran out; the law of the
  server gives, for each scan, a number of pages that is enough. Loops whose progress depends on a
  parameter are partial functions: the chunks of the label manager (a configured size of zero never
  advances), the preloaded \<^verbatim>\<open>dup\<close>, the rows of a SQL statement, the socket loops. The theorems about
  them state that they return. All other loops are structural or have a measure.

  \<^bold>\<open>Not modelled\<close>

  The FlatBuffers byte format and the TOML parser (parameters), the Python bindings and the demo
  service, logging, the formatting of clock times, signal handling and the start-up of the services,
  and the cache's timer thread (it only calls \<open>flush_all\<close>). Running out of memory is not modelled.
\<close>

end
